(* ===== verification/Gw_Prelude.thy ===== *)
theory Gw_Prelude
  imports Main "HOL-Library.Word"
begin

unbundle bit_operations_syntax

section \<open>Shared vocabulary of the development\<close>

text \<open>
  Bytes, big-endian integers, buffer writes and error results: what every wire-format component of
  the gateway and of its clients uses. A fallible operation returns a sum, \<open>Inl\<close> for the error and
  \<open>Inr\<close> for the value. Lemmas that carry the component proofs are collected in two named
  collections: \<open>wire_simps\<close> (byte layout) and \<open>inv_intros\<close> (invariants kept by operations).
\<close>

named_theorems wire_simps \<open>rewriting of byte layouts\<close>
named_theorems inv_intros \<open>invariants and the operations that keep them\<close>

type_synonym byte = "8 word"
type_synonym bytes = "byte list"
type_synonym u16 = "16 word"
type_synonym u32 = "32 word"
type_synonym u64 = "64 word"

subsection \<open>Bytes and big-endian integers\<close>

lemma unat_byte_less [simp]: "unat (b :: byte) < 256"
  by (rule order_less_le_trans [OF unsigned_less]) simp

lemma unat_byte_le [simp]: "unat (b :: byte) \<le> 255"
  using unat_byte_less [of b] by linarith

lemma unat_of_nat_byte: "unat (of_nat n :: byte) = n mod 256"
  by (simp add: unsigned_of_nat take_bit_eq_mod)

text \<open>
  \<open>be_enc n v\<close> is the \<open>n\<close>-byte big-endian form of \<open>v\<close>; a value that does not fit is reduced
  modulo \<open>256 ^ n\<close>, as \<open>DataView.setUint16\<close> and its kin do.
\<close>

fun be_enc :: "nat \<Rightarrow> nat \<Rightarrow> bytes" where
  "be_enc 0 v = []"
| "be_enc (Suc n) v = of_nat (v div 256 ^ n) # be_enc n v"

fun be_dec :: "bytes \<Rightarrow> nat" where
  "be_dec [] = 0"
| "be_dec (b # bs) = unat b * 256 ^ length bs + be_dec bs"

lemma length_be_enc [simp, wire_simps]: "length (be_enc n v) = n"
  by (induction n) auto

text \<open>Evaluates \<open>be_enc\<close> on a literal width, byte by byte.\<close>

lemma be_enc_numeral: "be_enc (numeral k) v = of_nat (v div 256 ^ pred_numeral k) # be_enc (pred_numeral k) v"
  by (metis be_enc.simps(2) numeral_eq_Suc)

lemma be_enc_mod: "be_enc n (v mod 256 ^ m) = be_enc n v" if "n \<le> m"
  using that
proof (induction n)
  case 0
  then show ?case by simp
next
  case (Suc n)
  have "(v mod 256 ^ m) div 256 ^ n mod 256 = v div 256 ^ n mod 256"
  proof -
    from Suc.prems obtain k where m: "m = n + Suc k"
      by (metis add_Suc_right le_Suc_ex add_Suc)
    have "(v mod 256 ^ m) div 256 ^ n = (v div 256 ^ n) mod 256 ^ Suc k"
      unfolding m power_add by (rule div_mult2_eq' [THEN sym, THEN trans] | simp add: mod_mult2_eq)+
    then show ?thesis by (simp add: mod_mult2_eq)
  qed
  then have "(of_nat ((v mod 256 ^ m) div 256 ^ n) :: byte) = of_nat (v div 256 ^ n)"
    by (simp add: word_of_nat_eq_iff take_bit_eq_mod)
  with Suc show ?case by simp
qed

lemma be_dec_less: "be_dec bs < 256 ^ length bs"
proof (induction bs)
  case Nil
  then show ?case by simp
next
  case (Cons b bs)
  have "unat b * 256 ^ length bs + be_dec bs < unat b * 256 ^ length bs + 256 ^ length bs"
    using Cons by simp
  also have "\<dots> = (unat b + 1) * 256 ^ length bs" by simp
  also have "\<dots> \<le> 256 * 256 ^ length bs"
    using unat_byte_le [of b] by (intro mult_le_mono1) linarith
  finally show ?case by simp
qed

lemma be_dec_be_enc [simp, wire_simps]: "be_dec (be_enc n v) = v mod 256 ^ n"
proof (induction n)
  case 0
  then show ?case by simp
next
  case (Suc n)
  have "be_dec (be_enc (Suc n) v) = v div 256 ^ n mod 256 * 256 ^ n + v mod 256 ^ n"
    using Suc by (simp add: unat_of_nat_byte)
  also have "\<dots> = v mod (256 ^ n * 256)"
    using mod_mult2_eq [of v "256 ^ n" 256] by (simp add: mult.commute)
  finally show ?case by (simp add: mult.commute)
qed

lemma be_enc_be_dec [simp, wire_simps]: "be_enc (length bs) (be_dec bs) = bs"
proof (induction bs)
  case Nil
  then show ?case by simp
next
  case (Cons b bs)
  have "be_enc (length bs) (unat b * 256 ^ length bs + be_dec bs) = be_enc (length bs) (be_dec bs)"
    using be_enc_mod [of "length bs" "length bs" "unat b * 256 ^ length bs + be_dec bs"]
      be_enc_mod [of "length bs" "length bs" "be_dec bs"] by simp
  moreover have "(unat b * 256 ^ length bs + be_dec bs) div 256 ^ length bs = unat b"
    using be_dec_less [of bs] by simp
  ultimately show ?case using Cons by simp
qed

lemma be_enc_be_dec_n: "length bs = n \<Longrightarrow> be_enc n (be_dec bs) = bs"
  by auto

subsection \<open>Reading and writing a buffer\<close>

text \<open>\<open>seg i n bs\<close> is \<open>bytes[i..i+n]\<close>; \<open>blit buf i src\<close> copies \<open>src\<close> into \<open>buf\<close> at offset \<open>i\<close>.\<close>

definition seg :: "nat \<Rightarrow> nat \<Rightarrow> 'a list \<Rightarrow> 'a list" where
  "seg i n xs = take n (drop i xs)"

definition blit :: "'a list \<Rightarrow> nat \<Rightarrow> 'a list \<Rightarrow> 'a list" where
  "blit buf i src = take i buf @ src @ drop (i + length src) buf"

lemma length_blit [simp]: "i + length src \<le> length buf \<Longrightarrow> length (blit buf i src) = length buf"
  by (simp add: blit_def)

lemma length_seg [simp]: "length (seg i n xs) = min n (length xs - i)"
  by (simp add: seg_def)

lemma seg_append_mid: "length xs = i \<Longrightarrow> length ys = n \<Longrightarrow> seg i n (xs @ ys @ zs) = ys"
  by (simp add: seg_def)

lemma blit_append: "length xs = i \<Longrightarrow> length ys = length src \<Longrightarrow> blit (xs @ ys @ zs) i src = xs @ src @ zs"
  by (simp add: blit_def)

lemma blit_Cons_0: "blit (y # ys) 0 [x] = x # ys"
  by (simp add: blit_def)

lemma blit_Cons_Suc: "blit (y # ys) (Suc i) src = y # blit ys i src"
  by (simp add: blit_def)

lemma blit_append_0: "length xs = length src \<Longrightarrow> blit (xs @ ys) 0 src = src @ ys"
  by (simp add: blit_def)

lemma blit_append_n: "length xs = n \<Longrightarrow> blit (xs @ ys) (n + i) src = xs @ blit ys i src"
  by (simp add: blit_def)

lemmas blit_steps = blit_Cons_0 blit_Cons_Suc blit_append_0

lemma seg_append: "i + n \<le> length xs \<Longrightarrow> seg i n (xs @ ys) = seg i n xs"
  by (simp add: seg_def)

lemma seg_nth: "i < length xs \<Longrightarrow> seg i 1 xs = [xs ! i]"
  by (simp add: seg_def take_Suc_conv_app_nth Cons_nth_drop_Suc [symmetric])

lemma seg_split: "i \<le> j \<Longrightarrow> seg i (j - i) xs @ drop j xs = drop i xs"
  by (simp add: seg_def) (metis append_take_drop_id drop_drop le_add_diff_inverse2)

subsection \<open>Lists\<close>

lemma find_append: "List.find P (xs @ ys) = (case List.find P xs of None \<Rightarrow> List.find P ys | Some x \<Rightarrow> Some x)"
  by (induction xs) auto

lemma find_Some_iff: "List.find P xs = Some x \<Longrightarrow> x \<in> set xs \<and> P x"
  by (induction xs) (auto split: if_splits)

end
