(* ===== verification/Wire_Interfaces.thy ===== *)
theory Wire_Interfaces
  imports Gw_Prelude
begin

section \<open>Interfaces of the wire-format components\<close>

text \<open>
  Two contracts recur across the gateway and its clients. A record codec (\<open>wire_codec\<close>) turns one
  value into one message and back, with exactly one message per value. A stream parser
  (\<open>incremental_parser\<close>) is handed a growing buffer and answers with an error, with "not yet", or
  with one item and the bytes it used. Components state their contract by interpreting one of the
  locales on their own operations; the facts proved here once are then theirs.
\<close>

subsection \<open>Record codecs\<close>

locale wire_codec =
  fixes enc :: "'a \<Rightarrow> 'e + bytes"
    and dec :: "bytes \<Rightarrow> 'f + 'a"
  assumes dec_enc: "enc x = Inr bs \<Longrightarrow> dec bs = Inr x"
    and enc_dec: "dec bs = Inr x \<Longrightarrow> enc x = Inr bs"
begin

lemma enc_inject: "enc x = Inr bs \<Longrightarrow> enc y = Inr bs \<Longrightarrow> x = y"
  using dec_enc [of x bs] dec_enc [of y bs] by simp

lemma canonical: "dec bs = Inr x \<Longrightarrow> dec cs = Inr x \<Longrightarrow> bs = cs"
  using enc_dec [of bs x] enc_dec [of cs x] by simp

lemma accepts_iff: "dec bs = Inr x \<longleftrightarrow> enc x = Inr bs"
  using dec_enc enc_dec by blast

end

subsection \<open>Scanning a buffer, and feeding it in chunks\<close>

text \<open>
  The reference behaviour of a stream consumer. \<open>scan\<close> takes every complete item off the buffer
  and returns the items, the error that stopped it (if any) and what is left. \<open>feed\<close> receives the
  same bytes in chunks and keeps the left-over between two chunks.
\<close>

type_synonym ('b, 'e, 'a) parser = "'b list \<Rightarrow> 'e + ('a \<times> nat) option"

function scan :: "('b, 'e, 'a) parser \<Rightarrow> 'b list \<Rightarrow> 'a list \<times> 'e option \<times> 'b list" where
  "scan p bs = (case p bs of
      Inl e \<Rightarrow> ([], Some e, bs)
    | Inr None \<Rightarrow> ([], None, bs)
    | Inr (Some (x, n)) \<Rightarrow>
        (if n = 0 \<or> length bs < n then ([], None, bs)
         else (case scan p (drop n bs) of (xs, r) \<Rightarrow> (x # xs, r))))"
  by pat_completeness auto
termination
  by (relation "measure (\<lambda>(p, bs). length bs)") auto

declare scan.simps [simp del]

fun feed :: "('b, 'e, 'a) parser \<Rightarrow> 'b list \<Rightarrow> 'b list list \<Rightarrow> 'a list \<times> 'e option \<times> 'b list" where
  "feed p carry [] = ([], None, carry)"
| "feed p carry (c # cs) = (case scan p (carry @ c) of
      (xs, Some e, rest) \<Rightarrow> (xs, Some e, rest)
    | (xs, None, rest) \<Rightarrow> (case feed p rest cs of (ys, r) \<Rightarrow> (xs @ ys, r)))"

lemma scan_error: "p bs = Inl e \<Longrightarrow> scan p bs = ([], Some e, bs)"
  by (simp add: scan.simps)

lemma scan_need_more: "p bs = Inr None \<Longrightarrow> scan p bs = ([], None, bs)"
  by (simp add: scan.simps)

lemma scan_item:
  "p bs = Inr (Some (x, n)) \<Longrightarrow> 0 < n \<Longrightarrow> n \<le> length bs \<Longrightarrow>
    scan p bs = (case scan p (drop n bs) of (xs, r) \<Rightarrow> (x # xs, r))"
  by (subst scan.simps) simp

lemmas scan_steps = scan_error scan_need_more scan_item

locale incremental_parser =
  fixes p :: "('b, 'e, 'a) parser"
  assumes empty: "p [] = Inr None"
    and item_used: "p bs = Inr (Some (x, n)) \<Longrightarrow> 0 < n \<and> n \<le> length bs"
    and item_stable: "p bs = Inr (Some (x, n)) \<Longrightarrow> p (bs @ cs) = Inr (Some (x, n))"
    and error_stable: "p bs = Inl e \<Longrightarrow> p (bs @ cs) = Inl e"
begin

lemma scan_Nil: "scan p [] = ([], None, [])"
  by (simp add: scan_need_more empty)

lemma scan_append:
  "scan p (bs @ cs) = (case scan p bs of
      (xs, Some e, rest) \<Rightarrow> (xs, Some e, rest @ cs)
    | (xs, None, rest) \<Rightarrow> (case scan p (rest @ cs) of (ys, r) \<Rightarrow> (xs @ ys, r)))"
proof (induction "length bs" arbitrary: bs rule: less_induct)
  case less
  show ?case
  proof (cases "p bs")
    case (Inl e)
    then show ?thesis by (simp add: scan_error error_stable)
  next
    case (Inr r)
    show ?thesis
    proof (cases r)
      case None
      with Inr show ?thesis by (simp add: scan_need_more split: prod.splits)
    next
      case (Some it)
      then obtain x n where it: "p bs = Inr (Some (x, n))"
        using Inr by (cases it) auto
      note used = item_used [OF it]
      have IH: "scan p (drop n bs @ cs) = (case scan p (drop n bs) of
          (xs, Some e, rest) \<Rightarrow> (xs, Some e, rest @ cs)
        | (xs, None, rest) \<Rightarrow> (case scan p (rest @ cs) of (ys, r) \<Rightarrow> (xs @ ys, r)))"
        using used by (intro less) auto
      have "scan p (bs @ cs) = (case scan p (drop n bs @ cs) of (xs, r) \<Rightarrow> (x # xs, r))"
        using scan_item [where p = p and bs = "bs @ cs", OF item_stable [OF it]] used by simp
      then show ?thesis
        unfolding IH using used by (simp add: scan_item [where p = p, OF it] split: prod.splits option.splits)
    qed
  qed
qed

lemma scan_rest_idle: "scan p bs = (xs, None, rest) \<Longrightarrow> p rest = Inr None"
proof (induction "length bs" arbitrary: bs xs rule: less_induct)
  case less
  show ?case
  proof (cases "p bs")
    case (Inl e)
    then show ?thesis using less.prems by (simp add: scan_error)
  next
    case (Inr r)
    show ?thesis
    proof (cases r)
      case None
      then show ?thesis using Inr less.prems by (simp add: scan_need_more)
    next
      case (Some it)
      then obtain x n where it: "p bs = Inr (Some (x, n))"
        using Inr by (cases it) auto
      note used = item_used [OF it]
      obtain ys where "scan p (drop n bs) = (ys, None, rest)"
        using scan_item [where p = p, OF it] used less.prems by (auto split: prod.splits)
      then show ?thesis using used by (intro less.hyps [of "drop n bs"]) auto
    qed
  qed
qed

theorem feed_scan:
  "feed p carry cs = (xs, e, rest) \<Longrightarrow> scan p (carry @ concat cs) = (ys, e', rest') \<Longrightarrow>
    scan p carry = ([], None, carry) \<Longrightarrow>
    xs = ys \<and> e = e' \<and> (e = None \<longrightarrow> rest = rest')"
proof (induction cs arbitrary: carry xs e rest ys)
  case Nil
  then show ?case by simp
next
  case (Cons c cs)
  obtain zs e1 r1 where s: "scan p (carry @ c) = (zs, e1, r1)"
    by (cases "scan p (carry @ c)") auto
  have all: "scan p (carry @ concat (c # cs)) = (case scan p (carry @ c) of
      (xs, Some e, rest) \<Rightarrow> (xs, Some e, rest @ concat cs)
    | (xs, None, rest) \<Rightarrow> (case scan p (rest @ concat cs) of (ys, r) \<Rightarrow> (xs @ ys, r)))"
    using scan_append [of "carry @ c" "concat cs"] by simp
  show ?case
  proof (cases e1)
    case None
    have idle: "scan p r1 = ([], None, r1)"
      using s scan_append [of "carry @ c" "[]"] None by (auto split: prod.splits)
    show ?thesis
      using Cons.prems(1,2) s None all idle Cons.IH [of r1]
      by (auto split: prod.splits)
  next
    case (Some err)
    then show ?thesis using Cons.prems s all by auto
  qed
qed

end

subsection \<open>Output FIFOs\<close>

text \<open>
  A sender holds byte strings and hands the oldest out piece by piece: \<open>front\<close> is the next piece,
  \<open>pop s n\<close> confirms \<open>n\<close> bytes of it, \<open>push\<close> serves one request and answers with the byte strings it
  accepted. The driver above it is a sequence of \<open>Push\<close> and \<open>Sent\<close> events; \<open>fifo_run\<close> returns the
  bytes accepted, the bytes sent and the state, and \<open>None\<close> where the sender fails an assertion.
  \<open>fifo_drain\<close> sends until nothing is left.
\<close>

datatype 'x fifo_event = Push 'x | Sent nat

fun fifo_run :: "('s \<Rightarrow> bytes option) \<Rightarrow> ('s \<Rightarrow> nat \<Rightarrow> 's option) \<Rightarrow> ('s \<Rightarrow> 'x \<Rightarrow> (bytes list \<times> 's) option)
    \<Rightarrow> 'x fifo_event list \<Rightarrow> 's \<Rightarrow> (bytes \<times> bytes \<times> 's) option" where
  "fifo_run front pop push [] s = Some ([], [], s)"
| "fifo_run front pop push (Push x # es) s = (case push s x of
      None \<Rightarrow> None
    | Some (ys, s1) \<Rightarrow>
        map_option (\<lambda>(acc, sent, s2). (concat ys @ acc, sent, s2)) (fifo_run front pop push es s1))"
| "fifo_run front pop push (Sent n # es) s = (case front s of
      None \<Rightarrow> fifo_run front pop push es s
    | Some c \<Rightarrow> (case pop s (min n (length c)) of None \<Rightarrow> None
        | Some s1 \<Rightarrow> map_option (\<lambda>(acc, sent, s2). (acc, take n c @ sent, s2)) (fifo_run front pop push es s1)))"

fun fifo_drain :: "('s \<Rightarrow> bytes option) \<Rightarrow> ('s \<Rightarrow> nat \<Rightarrow> 's option) \<Rightarrow> nat \<Rightarrow> 's \<Rightarrow> (bytes \<times> 's) option" where
  "fifo_drain front pop 0 s = None"
| "fifo_drain front pop (Suc k) s = (case front s of None \<Rightarrow> Some ([], s)
     | Some c \<Rightarrow> (case pop s (length c) of None \<Rightarrow> None
        | Some s1 \<Rightarrow> map_option (\<lambda>(out, s2). (c @ out, s2)) (fifo_drain front pop k s1)))"

locale byte_fifo =
  fixes inv :: "'s \<Rightarrow> bool"
    and abs :: "'s \<Rightarrow> bytes list"
    and front :: "'s \<Rightarrow> bytes option"
    and pop :: "'s \<Rightarrow> nat \<Rightarrow> 's option"
    and push :: "'s \<Rightarrow> 'x \<Rightarrow> (bytes list \<times> 's) option"
  assumes front_None: "inv s \<Longrightarrow> front s = None \<longleftrightarrow> abs s = []"
    and front_piece: "inv s \<Longrightarrow> abs s = x # xs \<Longrightarrow>
      \<exists>c rest. front s = Some c \<and> x = c @ rest \<and> (x \<noteq> [] \<longrightarrow> c \<noteq> [])"
    and pop_piece: "inv s \<Longrightarrow> abs s = x # xs \<Longrightarrow> front s = Some c \<Longrightarrow> n \<le> length c \<Longrightarrow>
      \<exists>s'. pop s n = Some s' \<and> inv s' \<and> abs s' = (if n = length x then xs else drop n x # xs)"
    and push_back: "inv s \<Longrightarrow> \<exists>ys s'. push s y = Some (ys, s') \<and> inv s' \<and> abs s' = abs s @ ys"
begin

lemma pop_front:
  assumes "inv s" "front s = Some c" "n \<le> length c"
  shows "\<exists>s'. pop s n = Some s' \<and> inv s' \<and> concat (abs s) = take n c @ concat (abs s')
    \<and> (n = length c \<longrightarrow> sum_list (map (\<lambda>x. Suc (length x)) (abs s'))
          < sum_list (map (\<lambda>x. Suc (length x)) (abs s)))"
proof -
  obtain x xs where ab: "abs s = x # xs"
    using front_None [OF assms(1)] assms(2) by (cases "abs s") auto
  obtain rest where x: "x = c @ rest" and ne: "x \<noteq> [] \<longrightarrow> c \<noteq> []"
  proof -
    obtain c' rest where "front s = Some c'" "x = c' @ rest" "x \<noteq> [] \<longrightarrow> c' \<noteq> []"
      using front_piece [OF assms(1) ab] by blast
    then show ?thesis using assms(2) that by simp
  qed
  obtain s' where s': "pop s n = Some s'" "inv s'" "abs s' = (if n = length x then xs else drop n x # xs)"
    using pop_piece [OF assms(1) ab assms(2,3)] by blast
  have "concat (abs s) = take n c @ concat (abs s')"
  proof (cases "n = length x")
    case True
    then have "take n c = x" using assms(3) x by simp
    then show ?thesis using True s'(3) ab by simp
  next
    case False
    then show ?thesis using assms(3) s'(3) ab x by simp
  qed
  moreover have "sum_list (map (\<lambda>x. Suc (length x)) (abs s'))
          < sum_list (map (\<lambda>x. Suc (length x)) (abs s))" if "n = length c"
  proof (cases "n = length x")
    case True
    then show ?thesis using s'(3) ab by simp
  next
    case False
    then have "x \<noteq> []" using that x by auto
    then have "0 < length c" using ne by simp
    then have "length (drop n x) < length x" using that x by simp
    then show ?thesis using False s'(3) ab by simp
  qed
  ultimately show ?thesis using s' by blast
qed

text \<open>What was sent and what is left is what was there and what was accepted: nothing lost or reordered.\<close>

theorem run_conserves:
  "inv s \<Longrightarrow> \<exists>acc sent s'. fifo_run front pop push es s = Some (acc, sent, s') \<and> inv s'
     \<and> concat (abs s) @ acc = sent @ concat (abs s')"
proof (induction es arbitrary: s)
  case Nil
  then show ?case by simp
next
  case (Cons e es)
  show ?case
  proof (cases e)
    case (Push x)
    obtain ys s1 where s1: "push s x = Some (ys, s1)" "inv s1" "abs s1 = abs s @ ys"
      using push_back [OF Cons.prems] by blast
    with Cons.IH [of s1] Push show ?thesis by fastforce
  next
    case (Sent n)
    show ?thesis
    proof (cases "front s")
      case None
      then show ?thesis using Sent Cons by simp
    next
      case (Some c)
      obtain s1 where s1: "pop s (min n (length c)) = Some s1" "inv s1"
          "concat (abs s) = take (min n (length c)) c @ concat (abs s1)"
        using pop_front [OF Cons.prems Some, of "min n (length c)"] by auto
      have "take (min n (length c)) c = take n c" by (simp add: min_def)
      with s1 Cons.IH [OF s1(2)] Sent Some show ?thesis by fastforce
    qed
  qed
qed

theorem drain_all:
  "inv s \<Longrightarrow> sum_list (map (\<lambda>x. Suc (length x)) (abs s)) < k \<Longrightarrow>
    \<exists>s'. fifo_drain front pop k s = Some (concat (abs s), s') \<and> inv s' \<and> abs s' = []"
proof (induction k arbitrary: s)
  case 0
  then show ?case by simp
next
  case (Suc k)
  show ?case
  proof (cases "front s")
    case None
    then have "abs s = []" using Suc.prems(1) front_None by blast
    then show ?thesis using None Suc.prems(1) by simp
  next
    case (Some c)
    obtain s1 where s1: "pop s (length c) = Some s1" "inv s1" "concat (abs s) = c @ concat (abs s1)"
        "sum_list (map (\<lambda>x. Suc (length x)) (abs s1)) < sum_list (map (\<lambda>x. Suc (length x)) (abs s))"
      using pop_front [OF Suc.prems(1) Some, of "length c"] by auto
    then obtain s' where "fifo_drain front pop k s1 = Some (concat (abs s1), s')" "inv s'" "abs s' = []"
      using Suc.IH [of s1] Suc.prems(2) by auto
    then show ?thesis using s1 Some by simp
  qed
qed

end

end
