(* ===== verification/Web_Client_Wire.thy ===== *)
theory Web_Client_Wire
  imports Wire_Interfaces
begin

section \<open>Wire functions of the browser client (\<open>validation/web-client/src/wss_session.ts\<close>)\<close>

text \<open>
  The pure functions at the head of the file: envelope and frame encoding and decoding. A JavaScript
  number that holds a byte or a length is a \<open>nat\<close>; a store into a \<open>Uint8Array\<close> or through a
  \<open>DataView\<close> reduces it to the width of the field. A stream id is a \<open>bigint\<close>, here a \<open>nat\<close>. A thrown
  \<open>Error\<close> is a constructor of \<open>js_error\<close>. \<open>JSON.stringify\<close> followed by \<open>TextEncoder.encode\<close> is the
  parameter \<open>stringify\<close>.
\<close>

datatype js_error =
    EnvelopeCut | EnvelopeBadVersion | EnvelopeBadLength | UnknownWssRecord
  | RequestTooLarge | FrameHeaderCut | FrameIllegal | UnsafeInteger

definition envelopeVersion :: nat where "envelopeVersion = 1"
definition envelopeHeaderSize :: nat where "envelopeHeaderSize = 20"
definition recordStream :: nat where "recordStream = 0x01"
definition recordReset :: nat where "recordReset = 0x02"
definition recordStop :: nat where "recordStop = 0x03"
definition recordEphemeral :: nat where "recordEphemeral = 0x04"
definition flagFin :: nat where "flagFin = 0x01"
definition frameOpen :: nat where "frameOpen = 0x00"
definition frameData :: nat where "frameData = 0x01"
definition frameEOF :: nat where "frameEOF = 0x01"
definition destGateway :: nat where "destGateway = 0x00"
definition destService :: nat where "destService = 0x01"
definition destPeer :: nat where "destPeer = 0x02"
definition responseRequired :: nat where "responseRequired = 0x00"
definition responseNone :: nat where "responseNone = 0x01"

lemmas js_constants = envelopeVersion_def envelopeHeaderSize_def recordStream_def recordReset_def
  recordStop_def recordEphemeral_def flagFin_def frameOpen_def frameData_def frameEOF_def
  destGateway_def destService_def destPeer_def responseRequired_def responseNone_def

record js_envelope =
  e_type :: nat
  e_fin :: bool
  e_streamID :: nat
  e_appError :: nat
  e_payload :: bytes

record js_frame =
  jf_type :: nat
  jf_flags :: nat
  jf_dest :: nat
  jf_response :: nat
  jf_group :: nat
  jf_route :: nat
  jf_body :: bytes

subsection \<open>Concatenating chunks\<close>

fun concat_loop :: "bytes \<Rightarrow> nat \<Rightarrow> bytes list \<Rightarrow> bytes" where
  "concat_loop result offset [] = result"
| "concat_loop result offset (chunk # chunks) =
     concat_loop (blit result offset chunk) (offset + length chunk) chunks"

definition js_concat :: "bytes list \<Rightarrow> bytes" where
  "js_concat chunks = concat_loop (replicate (foldl (\<lambda>total chunk. total + length chunk) 0 chunks) 0) 0 chunks"

lemma foldl_length: "foldl (\<lambda>t c. t + length c) n cs = n + length (concat cs)"
  by (induction cs arbitrary: n) auto

lemma concat_loop_eq:
  "length rest = length (concat chunks) \<Longrightarrow> length done = offset \<Longrightarrow>
    concat_loop (done @ rest) offset chunks = done @ concat chunks"
proof (induction chunks arbitrary: "done" rest offset)
  case Nil
  then show ?case by simp
next
  case (Cons c cs)
  have "blit (done @ rest) offset c = (done @ c) @ drop (length c) rest"
    using Cons.prems by (simp add: blit_def)
  then show ?case
    using Cons.IH [of "drop (length c) rest" "done @ c" "offset + length c"] Cons.prems by simp
qed

lemma js_concat_eq [simp, wire_simps]: "js_concat chunks = concat chunks"
  using concat_loop_eq [of "replicate (length (concat chunks)) 0" chunks "[]" 0]
  by (simp add: js_concat_def foldl_length)

subsection \<open>Envelopes\<close>

definition js_encodeEnvelope :: "js_envelope \<Rightarrow> bytes" where
  "js_encodeEnvelope r =
    (let b0 = replicate (envelopeHeaderSize + length (e_payload r)) 0;
         b1 = blit b0 0 [of_nat envelopeVersion];
         b2 = blit b1 1 [of_nat (e_type r)];
         b3 = blit b2 2 [of_nat (if e_fin r then flagFin else 0)];
         b4 = blit b3 4 (be_enc 8 (e_streamID r));
         b5 = blit b4 12 (be_enc 4 (e_appError r));
         b6 = blit b5 16 (be_enc 4 (length (e_payload r)))
     in blit b6 envelopeHeaderSize (e_payload r))"

definition js_decodeEnvelope :: "bytes \<Rightarrow> js_error + js_envelope" where
  "js_decodeEnvelope bs =
    (if length bs < envelopeHeaderSize then Inl EnvelopeCut
     else if unat (bs ! 0) \<noteq> envelopeVersion \<or> unat (bs ! 3) \<noteq> 0
       \<or> bs ! 2 AND NOT (of_nat flagFin) \<noteq> 0 then Inl EnvelopeBadVersion
     else let payloadLength = be_dec (seg 16 4 bs) in
       if length bs \<noteq> envelopeHeaderSize + payloadLength then Inl EnvelopeBadLength
       else let ty = unat (bs ! 1) in
         if ty \<notin> set [recordStream, recordReset, recordStop, recordEphemeral]
         then Inl UnknownWssRecord
         else Inr \<lparr>e_type = ty, e_fin = (bs ! 2 AND of_nat flagFin \<noteq> 0),
                   e_streamID = be_dec (seg 4 8 bs), e_appError = be_dec (seg 12 4 bs),
                   e_payload = drop envelopeHeaderSize bs\<rparr>)"

lemma js_encodeEnvelope_eq:
  "js_encodeEnvelope r = [1, of_nat (e_type r), of_bool (e_fin r), 0] @ be_enc 8 (e_streamID r)
     @ be_enc 4 (e_appError r) @ be_enc 4 (length (e_payload r)) @ e_payload r"
proof -
  let ?n = "length (e_payload r)"
  obtain z8 z4 z4' zn where z: "length z8 = 8" "length z4 = 4" "length z4' = 4" "length zn = ?n"
    and b0: "replicate (20 + ?n) 0 = (0 :: byte) # 0 # 0 # 0 # z8 @ z4 @ z4' @ zn"
  proof (rule that)
    show "replicate (20 + ?n) 0 = (0 :: byte) # 0 # 0 # 0 # replicate 8 0 @ replicate 4 0 @ replicate 4 0 @ replicate ?n (0 :: byte)"
      by (simp only: replicate_add [symmetric] replicate_Suc [symmetric]) simp
  qed simp_all
  have at4: "blit (a # b # c # d # R) 4 src = a # b # c # d # blit R 0 src" for a b c d :: byte and R src
    using blit_append_n [of "[a, b, c, d]" 4 R 0 src] by simp
  have at12: "blit (a # b # c # d # x8 @ R) 12 src = a # b # c # d # x8 @ blit R 0 src"
    if "length x8 = 8" for a b c d :: byte and x8 R src
    using that blit_append_n [of "[a, b, c, d] @ x8" 12 R 0 src] by simp
  have at16: "blit (a # b # c # d # x8 @ x4 @ R) 16 src = a # b # c # d # x8 @ x4 @ blit R 0 src"
    if "length x8 = 8" "length x4 = 4" for a b c d :: byte and x8 x4 R src
    using that blit_append_n [of "[a, b, c, d] @ x8 @ x4" 16 R 0 src] by simp
  have at20: "blit (a # b # c # d # x8 @ x4 @ y4 @ R) 20 src = a # b # c # d # x8 @ x4 @ y4 @ blit R 0 src"
    if "length x8 = 8" "length x4 = 4" "length y4 = 4" for a b c d :: byte and x8 x4 y4 R src
    using that blit_append_n [of "[a, b, c, d] @ x8 @ x4 @ y4" 20 R 0 src] by simp
  have at1: "blit (a # b # R) 1 [x] = a # x # R" "blit (a # b # c # R) 2 [x] = a # b # x # R"
    for a b c x :: byte and R
    by (simp_all add: blit_def)
  have last: "blit zn 0 (e_payload r) = e_payload r" using z by (simp add: blit_def)
  show ?thesis
    unfolding js_encodeEnvelope_def js_constants Let_def b0
    by (simp add: blit_Cons_0 at1 at1(1) [unfolded One_nat_def] at4 at12 at16 at20 blit_append_0 z last)
qed

subsection \<open>Frames\<close>

definition js_encodeOpen_bytes :: "nat \<Rightarrow> nat \<Rightarrow> nat \<Rightarrow> nat \<Rightarrow> bytes \<Rightarrow> js_error + bytes" where
  "js_encodeOpen_bytes dest grp route response payload =
    (if 0xffff < length payload then Inl RequestTooLarge
     else let b0 = replicate (8 + length payload) 0;
              b1 = blit b0 0 [of_nat frameOpen];
              b2 = blit b1 1 [of_nat frameEOF];
              b3 = blit b2 2 (be_enc 2 (length payload));
              b4 = blit b3 4 [of_nat dest];
              b5 = blit b4 5 [of_nat response];
              b6 = blit b5 6 [of_nat grp];
              b7 = blit b6 7 [of_nat route]
          in Inr (blit b7 8 payload))"

definition js_encodeOpen :: "('j \<Rightarrow> bytes) \<Rightarrow> nat \<Rightarrow> nat \<Rightarrow> nat \<Rightarrow> nat \<Rightarrow> 'j \<Rightarrow> js_error + bytes" where
  "js_encodeOpen stringify dest grp route response body =
     js_encodeOpen_bytes dest grp route response (stringify body)"

text \<open>One turn of the \<open>while\<close> loop of \<open>decodeFrames\<close>: the frame at \<open>offset\<close> and its total length.\<close>

definition js_frame_at :: "bytes \<Rightarrow> nat \<Rightarrow> js_error + js_frame \<times> nat" where
  "js_frame_at bs offset =
    (if length bs - offset < 4 then Inl FrameHeaderCut
     else let ty = unat (bs ! offset); flags = unat (bs ! (offset + 1));
              bodyLength = be_dec (seg (offset + 2) 2 bs);
              headerLength = (if ty = frameOpen then 8 else if ty = frameData then 4 else 0)
          in if headerLength = 0 \<or> length bs - offset < headerLength + bodyLength then Inl FrameIllegal
             else Inr (\<lparr>jf_type = ty, jf_flags = flags,
                    jf_dest = (if ty = frameOpen then unat (bs ! (offset + 4)) else 0),
                    jf_response = (if ty = frameOpen then unat (bs ! (offset + 5)) else 0),
                    jf_group = (if ty = frameOpen then unat (bs ! (offset + 6)) else 0),
                    jf_route = (if ty = frameOpen then unat (bs ! (offset + 7)) else 0),
                    jf_body = seg (offset + headerLength) bodyLength bs\<rparr>, headerLength + bodyLength))"

lemma js_frame_at_size: "js_frame_at bs offset = Inr (f, n) \<Longrightarrow> 4 \<le> n \<and> n \<le> length bs - offset"
  by (auto simp: js_frame_at_def Let_def split: if_splits)

function js_decodeFrames_loop :: "bytes \<Rightarrow> nat \<Rightarrow> js_frame list \<Rightarrow> js_error + js_frame list" where
  "js_decodeFrames_loop bs offset frames =
    (if offset < length bs then
       (case js_frame_at bs offset of Inl e \<Rightarrow> Inl e
        | Inr (f, n) \<Rightarrow> js_decodeFrames_loop bs (offset + n) (frames @ [f]))
     else Inr frames)"
  by pat_completeness auto
termination
  by (relation "measure (\<lambda>(bs, offset, frames). length bs - offset)") (auto dest!: js_frame_at_size)

declare js_decodeFrames_loop.simps [simp del]

definition js_decodeFrames :: "bytes \<Rightarrow> js_error + js_frame list" where
  "js_decodeFrames bs = js_decodeFrames_loop bs 0 []"

definition MAX_SAFE_INTEGER :: nat where "MAX_SAFE_INTEGER = 9007199254740991"

definition safeU64 :: "nat \<Rightarrow> js_error + nat" where
  "safeU64 v = (if MAX_SAFE_INTEGER < v then Inl UnsafeInteger else Inr v)"

subsection \<open>Closed forms\<close>

lemma js_encodeOpen_bytes_eq:
  "js_encodeOpen_bytes dest grp route response payload =
    (if 65535 < length payload then Inl RequestTooLarge
     else Inr ([0, 1] @ be_enc 2 (length payload) @ [of_nat dest, of_nat response, of_nat grp, of_nat route] @ payload))"
proof -
  let ?n = "length payload"
  have b0: "replicate (8 + ?n) 0 = (0 :: byte) # 0 # 0 # 0 # 0 # 0 # 0 # 0 # replicate ?n 0"
    by (simp add: replicate_add) (simp add: numeral_eq_Suc)
  have at: "blit (a # b # R) 1 [x] = a # x # R" "blit (a # b # c # d # R) 2 [x, y] = a # b # x # y # R"
    "blit (a # b # c # d # e # R) 4 [x] = a # b # c # d # x # R"
    "blit (a # b # c # d # e # f # R) 5 [x] = a # b # c # d # e # x # R"
    "blit (a # b # c # d # e # f # g # R) 6 [x] = a # b # c # d # e # f # x # R"
    "blit (a # b # c # d # e # f # g # h # R) 7 [x] = a # b # c # d # e # f # g # x # R"
    for a b c d e f g h x y :: byte and R
    by (simp_all add: blit_def numeral_eq_Suc)
  have last: "blit (a # b # c # d # e # f # g # h # replicate ?n 0) 8 payload = a # b # c # d # e # f # g # h # payload"
    for a b c d e f g h :: byte
    using blit_append_n [of "[a, b, c, d, e, f, g, h]" 8 "replicate ?n 0" 0 payload] by (simp add: blit_def)
  obtain x y where xy: "be_enc 2 ?n = [x, y]"
    by (simp add: numeral_2_eq_2)
  show ?thesis
    unfolding js_encodeOpen_bytes_def js_constants Let_def b0 xy
    by (simp add: blit_Cons_0 at at(1) [unfolded One_nat_def] last)
qed

text \<open>\<open>js_frame_at\<close> seen as a parser of the bytes from \<open>offset\<close> on.\<close>

lemma js_frame_at_drop: "js_frame_at bs offset = js_frame_at (drop offset bs) 0"
proof (cases "length bs - offset < 4")
  case True
  then show ?thesis by (simp add: js_frame_at_def)
next
  case False
  have n: "drop offset bs ! i = bs ! (offset + i)" for i
    using False by simp
  have sg: "seg i k (drop offset bs) = seg (offset + i) k bs" for i k
    by (simp add: seg_def add.commute)
  show ?thesis
    by (simp only: js_frame_at_def Let_def n sg add_0 add_0_right length_drop diff_zero)
qed

text \<open>The loop as a structural recursion over what is left.\<close>

lemma js_decodeFrames_loop_acc:
  "js_decodeFrames_loop bs offset acc =
    (case js_decodeFrames (drop offset bs) of Inl e \<Rightarrow> Inl e | Inr fs \<Rightarrow> Inr (acc @ fs))"
proof -
  have "js_decodeFrames_loop bs offset acc =
    (case js_decodeFrames_loop (drop k bs) (offset - k) acc' of Inl e \<Rightarrow> Inl e | Inr fs \<Rightarrow> Inr (pre @ fs))"
    if "acc = pre @ acc'" "k \<le> offset" for k pre acc'
    using that
  proof (induction bs offset acc arbitrary: acc' rule: js_decodeFrames_loop.induct)
    case (1 bs offset acc)
    have at: "js_frame_at (drop k bs) (offset - k) = js_frame_at bs offset"
      using 1(3) js_frame_at_drop [of bs offset] js_frame_at_drop [of "drop k bs" "offset - k"] by simp
    show ?case
    proof (cases "offset < length bs")
      case True
      then have t': "offset - k < length (drop k bs)" using 1(3) by simp
      show ?thesis
      proof (cases "js_frame_at bs offset")
        case (Inl e)
        then show ?thesis
          using True t' at by (simp add: js_decodeFrames_loop.simps [of bs] js_decodeFrames_loop.simps [of "drop k bs"])
      next
        case (Inr r)
        then obtain f n where fn: "js_frame_at bs offset = Inr (f, n)" by (cases r) auto
        show ?thesis
          using True t' at fn 1(1) [OF True fn refl, of "acc' @ [f]"] 1(2,3)
          by (simp add: js_decodeFrames_loop.simps [of bs offset] js_decodeFrames_loop.simps [of "drop k bs" "offset - k"])
      qed
    next
      case False
      then have "\<not> offset - k < length (drop k bs)" using 1(3) by simp
      then show ?thesis
        using False 1(2) by (simp add: js_decodeFrames_loop.simps [of bs] js_decodeFrames_loop.simps [of "drop k bs"])
    qed
  qed
  from this [of acc "[]" offset] show ?thesis by (simp add: js_decodeFrames_def)
qed

lemma js_decodeFrames_unfold:
  "js_decodeFrames bs = (if bs = [] then Inr []
     else case js_frame_at bs 0 of Inl e \<Rightarrow> Inl e
     | Inr (f, n) \<Rightarrow> (case js_decodeFrames (drop n bs) of Inl e \<Rightarrow> Inl e | Inr fs \<Rightarrow> Inr (f # fs)))"
proof (cases "bs = []")
  case True
  then show ?thesis by (simp add: js_decodeFrames_def js_decodeFrames_loop.simps)
next
  case False
  then show ?thesis
    unfolding js_decodeFrames_def [of bs]
    by (subst js_decodeFrames_loop.simps)
       (simp add: js_decodeFrames_loop_acc split: sum.split prod.split)
qed

end
