(* ===== verification/Web_Client_Session.thy ===== *)
theory Web_Client_Session
  imports Web_Client_Wire "HOL-Library.AList"
begin

section \<open>The browser session (\<open>validation/web-client/src/wss_session.ts\<close>)\<close>

text \<open>
  \<open>WssImSession\<close>: exchanges and pushes multiplexed over one WebSocket. The object's fields are the
  record \<open>wss_session\<close>; a JavaScript \<open>Map\<close> is an association list (insertion order, as \<open>Map\<close> iterates),
  with \<open>AList.update\<close> for \<open>set\<close> and \<open>AList.delete\<close> for \<open>delete\<close>. What a method does to the outside is
  a list of effects. The promise of an exchange is named by its stream id, which is never used twice
  (proved below). A method that throws returns the error beside the state it left behind. UTF-8
  decoding and \<open>JSON.parse\<close> are the parameters \<open>utf8\<close> and \<open>json\<close>. Time stamps and the random session
  id are left out, and \<open>onPush\<close> and \<open>onClose\<close> are taken not to call back into the session.
\<close>

subsection \<open>JSON values\<close>

datatype jsval =
    JUndefined | JNull | JBool bool | JNum int | JStr string | JArr "jsval list" | JObj "(string \<times> jsval) list"

fun js_truthy :: "jsval \<Rightarrow> bool" where
  "js_truthy JUndefined = False"
| "js_truthy JNull = False"
| "js_truthy (JBool b) = b"
| "js_truthy (JNum n) = (n \<noteq> 0)"
| "js_truthy (JStr s) = (s \<noteq> [])"
| "js_truthy (JArr xs) = True"
| "js_truthy (JObj fs) = True"

text \<open>Reading a property: a \<open>TypeError\<close> (\<open>None\<close>) on \<open>null\<close> and \<open>undefined\<close>, else the field or \<open>undefined\<close>.\<close>

fun js_get :: "jsval \<Rightarrow> string \<Rightarrow> jsval option" where
  "js_get JUndefined k = None"
| "js_get JNull k = None"
| "js_get (JObj fs) k = Some (case map_of fs k of None \<Rightarrow> JUndefined | Some v \<Rightarrow> v)"
| "js_get _ k = Some JUndefined"

subsection \<open>Errors, effects and state\<close>

datatype session_error =
    SessionClosed | ExchangeTimeout | StreamReset nat | StreamStopped nat | NotBinary | UnidirectionalStream
  | UnexpectedData | NotOneFrame | BadPushFrame | PushTargetsCut | WireError js_error | BadUtf8 | BadJson
  | NotAnObject | InvalidAccess | ConnectionClosed close_reason | AuthIllegal | AuthFailed string
  | GrantIllegal | GrantSessionIllegal | NotAuthenticated | EmptyResponse | GatewayRefused string
  | ImResponseIllegal | BackendRefused jsval | ConnectTimeout | ConnectFailedError | SubprotocolMissing
and close_reason = UserQuit | SocketClosed nat string | ConnectFailed | Failed session_error

datatype ready_state = CONNECTING | OPEN | CLOSING | CLOSED

record push_event =
  pe_seq :: nat
  pe_targets :: "nat list"
  pe_payload :: jsval

datatype effect =
    Send bytes | CloseSocket nat | SetTimer nat | ClearTimer nat
  | Resolve nat "js_frame option" | Reject nat session_error
  | OnPush push_event | OnClose close_reason

record pending_stream =
  p_chunks :: "bytes list"
  p_noResponse :: bool

record session_status =
  st_connected :: bool
  st_authenticated :: bool
  st_dest_id :: "nat option"
  st_ttl :: "nat option"
  st_user :: "jsval option"
  st_closed_by :: "close_reason option"

record wss_session =
  ready :: ready_state
  status :: session_status
  nextClientStreamID :: nat
  pending :: "(nat \<times> pending_stream) list"
  pushes :: "(nat \<times> bytes list) list"
  token :: jsval
  pushSequence :: nat
  hasOnPush :: bool
  hasOnClose :: bool

type_synonym outcome = "session_error option \<times> wss_session \<times> effect list"

definition session_new :: "bool \<Rightarrow> bool \<Rightarrow> wss_session" where
  "session_new op oc = \<lparr>ready = OPEN,
     status = \<lparr>st_connected = True, st_authenticated = False, st_dest_id = None, st_ttl = None,
               st_user = None, st_closed_by = None\<rparr>,
     nextClientStreamID = 0, pending = [], pushes = [], token = JStr [], pushSequence = 0,
     hasOnPush = op, hasOnClose = oc\<rparr>"

text \<open>
  \<open>WebSocket.close(code)\<close> of the WHATWG standard: a code other than 1000 and 3000 to 4999 is an
  \<open>InvalidAccessError\<close> (\<open>None\<close>), whatever the state; otherwise the socket starts to close.
\<close>

definition socket_close :: "ready_state \<Rightarrow> nat \<Rightarrow> ready_state option" where
  "socket_close st code =
    (if code \<noteq> 1000 \<and> (code < 3000 \<or> 4999 < code) then None
     else Some (if st = CLOSED then CLOSED else CLOSING))"

subsection \<open>Exchanges\<close>

definition exchange :: "wss_session \<Rightarrow> bytes \<Rightarrow> bool \<Rightarrow> (session_error + nat) \<times> wss_session \<times> effect list" where
  "exchange s pl noResponse =
    (if ready s \<noteq> OPEN then (Inl SessionClosed, s, [])
     else let streamID = nextClientStreamID s;
              s1 = s\<lparr>nextClientStreamID := nextClientStreamID s + 4,
                     pending := AList.update streamID \<lparr>p_chunks = [], p_noResponse = noResponse\<rparr> (pending s)\<rparr>
          in (Inr streamID, s1,
              [SetTimer streamID,
               Send (js_encodeEnvelope \<lparr>e_type = recordStream, e_fin = True, e_streamID = streamID,
                                        e_appError = 0, e_payload = pl\<rparr>)]))"

text \<open>The callback of the exchange timer.\<close>

definition exchange_timeout :: "wss_session \<Rightarrow> nat \<Rightarrow> wss_session \<times> effect list" where
  "exchange_timeout s streamID =
     (s\<lparr>pending := AList.delete streamID (pending s)\<rparr>, [Reject streamID ExchangeTimeout])"

definition handleClose :: "wss_session \<Rightarrow> close_reason \<Rightarrow> wss_session \<times> effect list" where
  "handleClose s reason =
    (if \<not> st_connected (status s) \<and> st_closed_by (status s) \<noteq> None then (s, [])
     else (s\<lparr>status := (status s)\<lparr>st_connected := False, st_closed_by := Some reason\<rparr>,
             pending := [], pushes := []\<rparr>,
           concat (map (\<lambda>(k, p). [ClearTimer k, Reject k (ConnectionClosed reason)]) (pending s))
           @ (if hasOnClose s then [OnClose reason] else [])))"

definition session_close :: "wss_session \<Rightarrow> outcome" where
  "session_close s =
    (if ready s = OPEN then
       (case socket_close (ready s) 1000 of None \<Rightarrow> (Some InvalidAccess, s, [])
        | Some rs \<Rightarrow> (case handleClose (s\<lparr>ready := rs\<rparr>) UserQuit of
            (s1, effs) \<Rightarrow> (None, s1, CloseSocket 1000 # effs)))
     else (case handleClose s UserQuit of (s1, effs) \<Rightarrow> (None, s1, effs)))"

subsection \<open>Incoming messages\<close>

definition handleResponse :: "wss_session \<Rightarrow> js_envelope \<Rightarrow> outcome" where
  "handleResponse s r = (case map_of (pending s) (e_streamID r) of
      None \<Rightarrow> (None, s, [])
    | Some p \<Rightarrow>
      let sid = e_streamID r;
          p1 = (if 0 < length (e_payload r) then p\<lparr>p_chunks := p_chunks p @ [e_payload r]\<rparr> else p);
          s1 = s\<lparr>pending := AList.update sid p1 (pending s)\<rparr>
      in if \<not> e_fin r then (None, s1, [])
         else let s2 = s1\<lparr>pending := AList.delete sid (pending s1)\<rparr>;
                  bs = js_concat (p_chunks p1)
              in if p_noResponse p1 then
                   (if length bs \<noteq> 0 then (None, s2, [ClearTimer sid, Reject sid UnexpectedData])
                    else (None, s2, [ClearTimer sid, Resolve sid None]))
                 else (case js_decodeFrames bs of
                     Inl e \<Rightarrow> (Some (WireError e), s2, [ClearTimer sid])
                   | Inr frames \<Rightarrow>
                       if length frames \<noteq> 1 then (None, s2, [ClearTimer sid, Reject sid NotOneFrame])
                       else (None, s2, [ClearTimer sid, Resolve sid (Some (frames ! 0))])))"

definition jsonBody :: "(bytes \<Rightarrow> string option) \<Rightarrow> (string \<Rightarrow> jsval option) \<Rightarrow> bytes \<Rightarrow> session_error + jsval" where
  "jsonBody utf8 json body = (case utf8 body of None \<Rightarrow> Inl BadUtf8
     | Some t \<Rightarrow> (case json t of None \<Rightarrow> Inl BadJson | Some v \<Rightarrow> Inr v))"

fun push_targets :: "bytes \<Rightarrow> nat \<Rightarrow> nat \<Rightarrow> js_error + nat list" where
  "push_targets body index 0 = Inr []"
| "push_targets body index (Suc k) = (case safeU64 (be_dec (seg (2 + index * 8) 8 body)) of
      Inl e \<Rightarrow> Inl e
    | Inr v \<Rightarrow> (case push_targets body (index + 1) k of Inl e \<Rightarrow> Inl e | Inr vs \<Rightarrow> Inr (v # vs)))"

text \<open>The checks of \<open>handlePush\<close> on the collected bytes of one push: its targets and its payload.\<close>

definition decodePush :: "(bytes \<Rightarrow> string option) \<Rightarrow> (string \<Rightarrow> jsval option) \<Rightarrow> bytes
    \<Rightarrow> session_error + nat list \<times> jsval" where
  "decodePush utf8 json bs = (case js_decodeFrames bs of
      Inl e \<Rightarrow> Inl (WireError e)
    | Inr frames \<Rightarrow>
      if length frames \<noteq> 1 \<or> jf_type (frames ! 0) \<noteq> frameOpen \<or> jf_dest (frames ! 0) \<noteq> destPeer
         \<or> of_nat (jf_flags (frames ! 0)) AND (of_nat frameEOF :: byte) = 0 then Inl BadPushFrame
      else let body = jf_body (frames ! 0) in
        if length body < 2 then Inl PushTargetsCut
        else let count = be_dec (seg 0 2 body); pre = 2 + count * 8 in
          if length body < pre then Inl PushTargetsCut
          else (case push_targets body 0 count of Inl e \<Rightarrow> Inl (WireError e)
           | Inr targets \<Rightarrow> (case jsonBody utf8 json (drop pre body) of Inl e \<Rightarrow> Inl e
              | Inr v \<Rightarrow> Inr (targets, v))))"

definition handlePush :: "(bytes \<Rightarrow> string option) \<Rightarrow> (string \<Rightarrow> jsval option) \<Rightarrow> wss_session \<Rightarrow> js_envelope
    \<Rightarrow> outcome" where
  "handlePush utf8 json s r =
    (let sid = e_streamID r;
         chunks0 = (case map_of (pushes s) sid of None \<Rightarrow> [] | Some cs \<Rightarrow> cs);
         chunks = (if 0 < length (e_payload r) then chunks0 @ [e_payload r] else chunks0)
     in if \<not> e_fin r then (None, s\<lparr>pushes := AList.update sid chunks (pushes s)\<rparr>, [])
        else let s1 = s\<lparr>pushes := AList.delete sid (pushes s)\<rparr> in
          (case decodePush utf8 json (js_concat chunks) of
             Inl e \<Rightarrow> (Some e, s1, [])
           | Inr (targets, v) \<Rightarrow>
             let s2 = s1\<lparr>pushSequence := pushSequence s1 + 1\<rparr> in
             (None, s2,
              (if hasOnPush s2 then [OnPush \<lparr>pe_seq = pushSequence s2, pe_targets = targets, pe_payload = v\<rparr>] else [])
              @ (if ready s2 = OPEN
                 then [Send (js_encodeEnvelope \<lparr>e_type = recordStream, e_fin = True, e_streamID = sid,
                                                e_appError = 0, e_payload = []\<rparr>)] else []))))"

datatype ws_data = DataText string | DataBuffer bytes

text \<open>The \<open>try\<close> block of \<open>handleMessage\<close>, and the whole of it with its \<open>catch\<close>.\<close>

definition handleMessage_try :: "(bytes \<Rightarrow> string option) \<Rightarrow> (string \<Rightarrow> jsval option) \<Rightarrow> wss_session \<Rightarrow> ws_data
    \<Rightarrow> outcome" where
  "handleMessage_try utf8 json s data = (case data of
      DataText t \<Rightarrow> (Some NotBinary, s, [])
    | DataBuffer buf \<Rightarrow> (case js_decodeEnvelope buf of
        Inl e \<Rightarrow> (Some (WireError e), s, [])
      | Inr r \<Rightarrow>
        let sid = e_streamID r; direction = sid mod 4 in
        if e_type r = recordEphemeral then (None, s, [])
        else if e_type r = recordReset \<or> e_type r = recordStop then
          let (s1, effs1) = (case map_of (pending s) sid of
                 None \<Rightarrow> (s, [])
               | Some p \<Rightarrow> (s\<lparr>pending := AList.delete sid (pending s)\<rparr>,
                   [ClearTimer sid, Reject sid (if e_type r = recordReset then StreamReset (e_appError r)
                                                else StreamStopped (e_appError r))]))
          in (None, s1, effs1 @
               (if e_type r = recordStop \<and> ready s1 = OPEN
                then [Send (js_encodeEnvelope \<lparr>e_type = recordReset, e_fin = False, e_streamID = sid,
                                               e_appError = e_appError r, e_payload = []\<rparr>)] else []))
        else if e_type r \<noteq> recordStream then (None, s, [])
        else if direction = 0 then handleResponse s r
        else if direction = 1 then handlePush utf8 json s r
        else (Some UnidirectionalStream, s, [])))"

definition handleMessage :: "(bytes \<Rightarrow> string option) \<Rightarrow> (string \<Rightarrow> jsval option) \<Rightarrow> wss_session \<Rightarrow> ws_data
    \<Rightarrow> outcome" where
  "handleMessage utf8 json s data = (case handleMessage_try utf8 json s data of
      (None, s1, effs) \<Rightarrow> (None, s1, effs)
    | (Some e, s1, effs) \<Rightarrow>
      (case socket_close (ready s1) 1002 of
         None \<Rightarrow> (Some InvalidAccess, s1, effs)
       | Some rs \<Rightarrow> (case handleClose (s1\<lparr>ready := rs\<rparr>) (Failed e) of
           (s2, effs2) \<Rightarrow> (None, s2, effs @ CloseSocket 1002 # effs2))))"

text \<open>The listeners the constructor adds for the socket's \<open>close\<close> and \<open>error\<close> events.\<close>

definition on_socket_close :: "wss_session \<Rightarrow> nat \<Rightarrow> string \<Rightarrow> wss_session \<times> effect list" where
  "on_socket_close s code reason = handleClose s (SocketClosed code reason)"

definition on_socket_error :: "wss_session \<Rightarrow> wss_session \<times> effect list" where
  "on_socket_error s = (if ready s \<noteq> OPEN then handleClose s ConnectFailed else (s, []))"

subsection \<open>Authentication and commands\<close>

text \<open>
  \<open>authenticate\<close> and \<open>command\<close> are cut at their \<open>await\<close>: the part that sends, and the part that takes
  the answer. \<open>stringify\<close> stands for \<open>JSON.stringify\<close> and \<open>TextEncoder.encode\<close>.
\<close>

definition authenticate_request :: "(jsval \<Rightarrow> bytes) \<Rightarrow> wss_session \<Rightarrow> string \<Rightarrow> string \<Rightarrow> string
    \<Rightarrow> (session_error + nat) \<times> wss_session \<times> effect list" where
  "authenticate_request stringify s action username password =
    (case js_encodeOpen stringify destGateway 0 0x10 responseRequired
            (JObj [(''action'', JStr action), (''username'', JStr username), (''password'', JStr password)]) of
       Inl e \<Rightarrow> (Inl (WireError e), s, [])
     | Inr frame \<Rightarrow> exchange s frame False)"

definition authenticate_response :: "(bytes \<Rightarrow> string option) \<Rightarrow> (string \<Rightarrow> jsval option) \<Rightarrow> wss_session
    \<Rightarrow> js_frame option \<Rightarrow> (session_error + session_status) \<times> wss_session" where
  "authenticate_response utf8 json s resp = (case resp of None \<Rightarrow> (Inl AuthIllegal, s)
   | Some f \<Rightarrow>
     if jf_type f \<noteq> frameOpen \<or> jf_dest f \<noteq> destGateway then (Inl AuthIllegal, s)
     else if jf_route f = 0x12 then
       (case utf8 (jf_body f) of None \<Rightarrow> (Inl BadUtf8, s) | Some t \<Rightarrow> (Inl (AuthFailed t), s))
     else if jf_route f \<noteq> 0x11 \<or> length (jf_body f) < 12 then (Inl GrantIllegal, s)
     else (case safeU64 (be_dec (seg 0 8 (jf_body f))) of Inl e \<Rightarrow> (Inl (WireError e), s)
      | Inr destID \<Rightarrow>
        let ttl = be_dec (seg 8 4 (jf_body f)) in
        (case jsonBody utf8 json (drop 12 (jf_body f)) of Inl e \<Rightarrow> (Inl e, s)
         | Inr pl \<Rightarrow> (case (js_get pl ''ok'', js_get pl ''token'', js_get pl ''user'') of
             (Some ok, Some tk, Some user) \<Rightarrow>
               if \<not> js_truthy ok \<or> \<not> js_truthy tk \<or> \<not> js_truthy user then (Inl GrantSessionIllegal, s)
               else let st = (status s)\<lparr>st_authenticated := True, st_dest_id := Some destID,
                                        st_ttl := Some ttl, st_user := Some user\<rparr>
                    in (Inr st, s\<lparr>token := tk, status := st\<rparr>)
           | _ \<Rightarrow> (Inl NotAnObject, s)))))"

fun nat_digits :: "nat \<Rightarrow> string" where
  "nat_digits n = (if n < 10 then [char_of (48 + n)] else nat_digits (n div 10) @ [char_of (48 + n mod 10)])"

declare nat_digits.simps [simp del]

fun join_comma :: "string list \<Rightarrow> string" where
  "join_comma [] = []"
| "join_comma [x] = x"
| "join_comma (x # y # xs) = x @ '','' @ join_comma (y # xs)"

text \<open>The conversion \<open>String(v)\<close>.\<close>

fun js_String :: "jsval \<Rightarrow> string" where
  "js_String JUndefined = ''undefined''"
| "js_String JNull = ''null''"
| "js_String (JBool b) = (if b then ''true'' else ''false'')"
| "js_String (JNum n) = (if n < 0 then ''-'' @ nat_digits (nat (- n)) else nat_digits (nat n))"
| "js_String (JStr s) = s"
| "js_String (JArr xs) = join_comma (map (\<lambda>x. if x = JNull \<or> x = JUndefined then [] else js_String x) xs)"
| "js_String (JObj fs) = ''[object Object]''"

definition command_type :: "(string \<times> jsval) list \<Rightarrow> string" where
  "command_type request = (case map_of request ''type'' of
      None \<Rightarrow> [] | Some v \<Rightarrow> if v = JUndefined \<or> v = JNull then [] else js_String v)"

definition command_request :: "(jsval \<Rightarrow> bytes) \<Rightarrow> wss_session \<Rightarrow> (string \<times> jsval) list
    \<Rightarrow> (session_error + nat) \<times> wss_session \<times> effect list" where
  "command_request stringify s request =
    (if \<not> js_truthy (token s) then (Inl NotAuthenticated, s, [])
     else let noResponse = (command_type request = ''typing'') in
       (case js_encodeOpen stringify destService 1 2 (if noResponse then responseNone else responseRequired)
               (JObj (AList.update ''token'' (token s) request)) of
          Inl e \<Rightarrow> (Inl (WireError e), s, [])
        | Inr frame \<Rightarrow> exchange s frame noResponse))"

definition command_response :: "(bytes \<Rightarrow> string option) \<Rightarrow> (string \<Rightarrow> jsval option) \<Rightarrow> bool
    \<Rightarrow> js_frame option \<Rightarrow> session_error + jsval" where
  "command_response utf8 json noResponse resp =
    (if noResponse then Inr (JObj [(''ok'', JBool True), (''type'', JStr ''accepted'')])
     else case resp of None \<Rightarrow> Inl EmptyResponse
     | Some f \<Rightarrow>
       if jf_type f = frameOpen \<and> jf_dest f = destGateway \<and> jf_route f = 0xf0 then
         (case utf8 (jf_body f) of None \<Rightarrow> Inl BadUtf8 | Some t \<Rightarrow> Inl (GatewayRefused t))
       else if jf_type f \<noteq> frameOpen \<or> jf_dest f \<noteq> destService
         \<or> of_nat (jf_flags f) AND (of_nat frameEOF :: byte) = 0 then Inl ImResponseIllegal
       else (case jsonBody utf8 json (jf_body f) of Inl e \<Rightarrow> Inl e
        | Inr result \<Rightarrow> (case js_get result ''ok'' of None \<Rightarrow> Inl NotAnObject
           | Some ok \<Rightarrow>
             if \<not> js_truthy ok then
               Inl (BackendRefused (case js_get result ''error'' of None \<Rightarrow> JUndefined
                 | Some v \<Rightarrow> if v = JNull then JUndefined else v))
             else Inr result)))"

subsection \<open>Connecting\<close>

text \<open>
  The promise of \<open>connect\<close>: its timer and its two one-shot listeners. A promise keeps its first
  settlement. \<open>cn_thrown\<close> records an error that escaped a listener.
\<close>

datatype connect_event = ConnOpen string | ConnError | ConnTimer

record connecting =
  cn_ready :: ready_state
  cn_timer :: bool
  cn_open_listener :: bool
  cn_error_listener :: bool
  cn_promise :: "(session_error + wss_session) option"
  cn_thrown :: "session_error option"

definition connect_new :: connecting where
  "connect_new = \<lparr>cn_ready = CONNECTING, cn_timer = True, cn_open_listener = True, cn_error_listener = True,
     cn_promise = None, cn_thrown = None\<rparr>"

definition settle :: "'a option \<Rightarrow> 'a \<Rightarrow> 'a option" where
  "settle p v = (case p of None \<Rightarrow> Some v | Some w \<Rightarrow> Some w)"

definition connect_event :: "bool \<Rightarrow> bool \<Rightarrow> connecting \<Rightarrow> connect_event \<Rightarrow> connecting" where
  "connect_event op oc c ev = (case ev of
      ConnTimer \<Rightarrow> if \<not> cn_timer c then c
        else c\<lparr>cn_timer := False, cn_ready := (if cn_ready c = CLOSED then CLOSED else CLOSING),
               cn_promise := settle (cn_promise c) (Inl ConnectTimeout)\<rparr>
    | ConnOpen prot \<Rightarrow> if \<not> cn_open_listener c then c
        else let c1 = c\<lparr>cn_open_listener := False, cn_ready := OPEN, cn_timer := False\<rparr> in
          if prot \<noteq> ''lyune.v2'' then
            (case socket_close (cn_ready c1) 1002 of
               None \<Rightarrow> c1\<lparr>cn_thrown := Some InvalidAccess\<rparr>
             | Some rs \<Rightarrow> c1\<lparr>cn_ready := rs, cn_promise := settle (cn_promise c1) (Inl SubprotocolMissing)\<rparr>)
          else c1\<lparr>cn_promise := settle (cn_promise c1) (Inr (session_new op oc))\<rparr>
    | ConnError \<Rightarrow> if \<not> cn_error_listener c then c
        else c\<lparr>cn_error_listener := False, cn_timer := False,
               cn_promise := settle (cn_promise c) (Inl ConnectFailedError)\<rparr>)"

subsection \<open>Runs of a session\<close>

text \<open>
  The browser calls the methods one at a time, and the page sets and clears \<open>onPush\<close> and \<open>onClose\<close>
  (\<open>App.tsx\<close> does so on every change of its effect). A state of a run is the session and everything it did
  to the outside so far. A timer fires only while it is armed: set, not cleared and not yet fired.
\<close>

definition armed :: "nat \<Rightarrow> effect list \<Rightarrow> bool" where
  "armed k tr \<longleftrightarrow> SetTimer k \<in> set tr \<and> ClearTimer k \<notin> set tr \<and> Reject k ExchangeTimeout \<notin> set tr"

inductive session_step :: "(bytes \<Rightarrow> string option) \<Rightarrow> (string \<Rightarrow> jsval option)
    \<Rightarrow> wss_session \<times> effect list \<Rightarrow> wss_session \<times> effect list \<Rightarrow> bool"
  for utf8 json where
  step_exchange: "exchange s pl nr = (res, s', effs) \<Longrightarrow> session_step utf8 json (s, tr) (s', tr @ effs)"
| step_timeout: "armed k tr \<Longrightarrow> exchange_timeout s k = (s', effs) \<Longrightarrow> session_step utf8 json (s, tr) (s', tr @ effs)"
| step_message: "handleMessage utf8 json s data = (err, s', effs) \<Longrightarrow> session_step utf8 json (s, tr) (s', tr @ effs)"
| step_close: "session_close s = (err, s', effs) \<Longrightarrow> session_step utf8 json (s, tr) (s', tr @ effs)"
| step_socket_closing: "ready s = OPEN \<Longrightarrow> session_step utf8 json (s, tr) (s\<lparr>ready := CLOSING\<rparr>, tr)"
| step_socket_closed: "on_socket_close (s\<lparr>ready := CLOSED\<rparr>) code reason = (s', effs) \<Longrightarrow>
    session_step utf8 json (s, tr) (s', tr @ effs)"
| step_handlers: "session_step utf8 json (s, tr) (s\<lparr>hasOnPush := op, hasOnClose := oc\<rparr>, tr)"
| step_socket_error: "on_socket_error s = (s', effs) \<Longrightarrow> session_step utf8 json (s, tr) (s', tr @ effs)"

inductive session_reach :: "(bytes \<Rightarrow> string option) \<Rightarrow> (string \<Rightarrow> jsval option)
    \<Rightarrow> wss_session \<times> effect list \<Rightarrow> wss_session \<times> effect list \<Rightarrow> bool"
  for utf8 json w where
  reach_refl: "session_reach utf8 json w w"
| reach_step: "session_reach utf8 json w w' \<Longrightarrow> session_step utf8 json w' w'' \<Longrightarrow> session_reach utf8 json w w''"

inductive_cases session_stepE: "session_step utf8 json (s, tr) w"

text \<open>The life of one exchange, read off the trace.\<close>

fun about :: "nat \<Rightarrow> effect \<Rightarrow> bool" where
  "about k (SetTimer j) = (j = k)"
| "about k (ClearTimer j) = (j = k)"
| "about k (Resolve j f) = (j = k)"
| "about k (Reject j e) = (j = k)"
| "about k _ = False"

definition life :: "nat \<Rightarrow> effect list \<Rightarrow> effect list" where
  "life k tr = filter (about k) tr"

fun settles :: "effect \<Rightarrow> bool" where
  "settles (Resolve j f) = True"
| "settles (Reject j e) = True"
| "settles _ = False"

definition life_ended :: "nat \<Rightarrow> effect list \<Rightarrow> bool" where
  "life_ended k evs \<longleftrightarrow> evs = [SetTimer k, Reject k ExchangeTimeout] \<or> evs = [SetTimer k, ClearTimer k]
     \<or> (\<exists>f. evs = [SetTimer k, ClearTimer k, Resolve k f]) \<or> (\<exists>e. evs = [SetTimer k, ClearTimer k, Reject k e])"

definition life_ok :: "nat list \<Rightarrow> nat \<Rightarrow> nat \<Rightarrow> effect list \<Rightarrow> bool" where
  "life_ok ks n k evs \<longleftrightarrow> (if k \<in> set ks then evs = [SetTimer k]
     else if n \<le> k \<or> k mod 4 \<noteq> 0 then evs = [] else life_ended k evs)"

fun push_seq :: "effect \<Rightarrow> nat list" where
  "push_seq (OnPush e) = [pe_seq e]"
| "push_seq _ = []"

definition push_seqs :: "effect list \<Rightarrow> nat list" where
  "push_seqs tr = concat (map push_seq tr)"

abbreviation pending_keys :: "wss_session \<Rightarrow> nat list" where
  "pending_keys s \<equiv> map fst (pending s)"

definition session_inv :: "wss_session \<Rightarrow> effect list \<Rightarrow> bool" where
  "session_inv s tr \<longleftrightarrow> distinct (pending_keys s) \<and> nextClientStreamID s mod 4 = 0
     \<and> (\<forall>k \<in> set (pending_keys s). k < nextClientStreamID s \<and> k mod 4 = 0)
     \<and> (\<forall>k. life_ok (pending_keys s) (nextClientStreamID s) k (life k tr))
     \<and> (st_connected (status s) \<longleftrightarrow> st_closed_by (status s) = None)
     \<and> (\<not> st_connected (status s) \<longrightarrow> ready s \<noteq> OPEN \<and> pending s = [])
     \<and> sorted_wrt (<) (push_seqs tr) \<and> (\<forall>x \<in> set (push_seqs tr). x \<le> pushSequence s)"

lemma life_simps [simp]:
  "life k [] = []" "life k (tr @ tr') = life k tr @ life k tr'"
  "life k (e # tr) = (if about k e then e # life k tr else life k tr)"
  by (simp_all add: life_def)

lemma push_seqs_simps [simp]:
  "push_seqs [] = []" "push_seqs (tr @ tr') = push_seqs tr @ push_seqs tr'"
  "push_seqs (e # tr) = push_seq e @ push_seqs tr"
  by (simp_all add: push_seqs_def)

lemma session_inv_new [inv_intros]: "session_inv (session_new op oc) []"
  by (simp add: session_inv_def session_new_def life_ok_def life_ended_def)

text \<open>Steps that touch no exchange, and steps that end one.\<close>

lemma session_inv_quiet:
  assumes "session_inv s tr" "pending_keys s' = pending_keys s" "nextClientStreamID s' = nextClientStreamID s"
    "status s' = status s" "ready s' = OPEN \<Longrightarrow> ready s = OPEN"
    "\<And>k. life k effs = []" "sorted_wrt (<) (push_seqs (tr @ effs))"
    "\<forall>x \<in> set (push_seqs (tr @ effs)). x \<le> pushSequence s'"
  shows "session_inv s' (tr @ effs)"
proof -
  have "pending s' = [] \<longleftrightarrow> pending s = []" using assms(2) by (metis map_is_Nil_conv)
  then show ?thesis using assms unfolding session_inv_def by auto
qed

lemma session_inv_end:
  assumes inv: "session_inv s tr" and k: "k \<in> set (pending_keys s)"
    and s': "pending s' = AList.delete k (pending s)" "nextClientStreamID s' = nextClientStreamID s"
      "status s' = status s" "ready s' = ready s" "pushSequence s' = pushSequence s"
    and effs: "life_ended k (SetTimer k # life k effs)" "\<And>j. j \<noteq> k \<Longrightarrow> life j effs = []" "push_seqs effs = []"
  shows "session_inv s' (tr @ effs)"
proof -
  have keys: "pending_keys s' = removeAll k (pending_keys s)"
    by (simp add: s' delete_keys)
  have kn: "k < nextClientStreamID s" "k mod 4 = 0" using inv k by (auto simp: session_inv_def)
  have "life_ok (pending_keys s') (nextClientStreamID s') j (life j (tr @ effs))" for j
  proof (cases "j = k")
    case True
    have "life k tr = [SetTimer k]" using inv k by (auto simp: session_inv_def life_ok_def)
    then show ?thesis using True keys kn s' effs(1) by (simp add: life_ok_def)
  next
    case False
    have "life_ok (pending_keys s) (nextClientStreamID s) j (life j tr)"
      using inv by (simp add: session_inv_def)
    then show ?thesis using False keys s' effs(2) by (simp add: life_ok_def)
  qed
  then show ?thesis
    using inv keys s' effs(3) unfolding session_inv_def by (auto simp: distinct_removeAll)
qed

lemma map_of_pending: "map_of (pending s) k = Some p \<Longrightarrow> k \<in> set (pending_keys s)"
  by (metis domI dom_map_of_conv_image_fst list.set_map)

lemma exchange_inv [inv_intros]:
  assumes inv: "session_inv s tr" and ex: "exchange s pl nr = (res, s', effs)"
  shows "session_inv s' (tr @ effs)"
proof (cases "ready s = OPEN")
  case False
  then show ?thesis using assms by (simp add: exchange_def)
next
  case True
  let ?n = "nextClientStreamID s"
  from inv True have conn: "st_connected (status s)" by (auto simp: session_inv_def)
  have new: "?n \<notin> set (pending_keys s)" using inv by (auto simp: session_inv_def)
  have keys: "pending_keys s' = pending_keys s @ [?n]" and n': "nextClientStreamID s' = ?n + 4"
    using ex True new by (auto simp: exchange_def Let_def update_keys)
  have l: "life k effs = (if k = ?n then [SetTimer ?n] else [])" "push_seqs effs = []" for k
    using ex True by (auto simp: exchange_def Let_def)
  have "life_ok (pending_keys s') (?n + 4) k (life k (tr @ effs))" for k
  proof -
    have "life_ok (pending_keys s) ?n k (life k tr)" "?n mod 4 = 0" using inv by (auto simp: session_inv_def)
    moreover have "k mod 4 \<noteq> 0" if "?n < k" "k < ?n + 4"
      using that \<open>?n mod 4 = 0\<close> by presburger
    ultimately show ?thesis
      using new keys l(1) [of k] unfolding life_ok_def
      by (cases "k = ?n"; cases "k < ?n"; cases "k < ?n + 4") auto
  qed
  then show ?thesis
    using inv conn ex True keys l(2) n' by (auto simp: session_inv_def exchange_def Let_def)
qed

lemma timeout_inv [inv_intros]:
  assumes inv: "session_inv s tr" and a: "armed k tr" and t: "exchange_timeout s k = (s', effs)"
  shows "session_inv s' (tr @ effs)"
proof -
  have ok: "life_ok (pending_keys s) (nextClientStreamID s) k (life k tr)"
    using inv by (auto simp: session_inv_def)
  have a': "SetTimer k \<in> set (life k tr)" "ClearTimer k \<notin> set (life k tr)" "Reject k ExchangeTimeout \<notin> set (life k tr)"
    using a by (auto simp: armed_def life_def)
  have "k \<in> set (pending_keys s)"
    using ok a' by (fastforce simp: life_ok_def life_ended_def split: if_splits)
  then show ?thesis
    using inv t by (intro session_inv_end [OF inv]) (auto simp: exchange_timeout_def life_ended_def)
qed

lemma life_close_effects:
  "distinct (map fst ps) \<Longrightarrow>
    life k (concat (map (\<lambda>(k, p). [ClearTimer k, Reject k e]) ps)) =
      (if k \<in> set (map fst ps) then [ClearTimer k, Reject k e] else [])"
proof (induction ps)
  case (Cons a ps)
  then show ?case by (cases a) auto
qed simp

lemma push_seqs_close_effects:
  "push_seqs (concat (map (\<lambda>(k, p). [ClearTimer k, Reject k e]) ps)) = []"
  by (induction ps) auto

lemma handleClose_inv [inv_intros]:
  assumes inv: "session_inv s tr" and r: "ready s \<noteq> OPEN" and h: "handleClose s reason = (s', effs)"
  shows "session_inv s' (tr @ effs)"
proof (cases "\<not> st_connected (status s) \<and> st_closed_by (status s) \<noteq> None")
  case True
  then show ?thesis using inv h by (simp add: handleClose_def)
next
  case False
  then have s': "s' = s\<lparr>status := (status s)\<lparr>st_connected := False, st_closed_by := Some reason\<rparr>, pending := [], pushes := []\<rparr>"
    and effs: "effs = concat (map (\<lambda>(k, p). [ClearTimer k, Reject k (ConnectionClosed reason)]) (pending s))
           @ (if hasOnClose s then [OnClose reason] else [])"
    using h unfolding handleClose_def by auto
  have d: "distinct (pending_keys s)" using inv by (simp add: session_inv_def)
  have l: "life k effs = (if k \<in> set (pending_keys s) then [ClearTimer k, Reject k (ConnectionClosed reason)] else [])" for k
    unfolding effs using life_close_effects [OF d] by simp
  have ps: "push_seqs effs = []" unfolding effs by (simp add: push_seqs_close_effects)
  have "life_ok [] (nextClientStreamID s) k (life k (tr @ effs))" for k
  proof -
    have "life_ok (pending_keys s) (nextClientStreamID s) k (life k tr)"
      "k \<in> set (pending_keys s) \<Longrightarrow> k < nextClientStreamID s \<and> k mod 4 = 0"
      using inv by (auto simp: session_inv_def)
    then show ?thesis using l [of k]
      by (cases "k \<in> set (pending_keys s)") (simp_all add: life_ok_def life_ended_def del: set_map)
  qed
  then show ?thesis using inv r ps unfolding session_inv_def s' by simp
qed

lemma session_close_inv [inv_intros]:
  assumes inv: "session_inv s tr" and c: "session_close s = (err, s', effs)"
  shows "session_inv s' (tr @ effs)"
proof (cases "ready s = OPEN")
  case True
  have "session_inv (s\<lparr>ready := CLOSING\<rparr>) (tr @ [CloseSocket 1000])"
    using inv by (intro session_inv_quiet [OF inv]) (auto simp: session_inv_def)
  moreover obtain effs1 where "handleClose (s\<lparr>ready := CLOSING\<rparr>) UserQuit = (s', effs1)" "effs = CloseSocket 1000 # effs1"
    using c True by (auto simp: session_close_def socket_close_def split: prod.splits)
  ultimately show ?thesis
    using handleClose_inv [of "s\<lparr>ready := CLOSING\<rparr>" "tr @ [CloseSocket 1000]" UserQuit s' effs1] by simp
next
  case False
  then obtain "handleClose s UserQuit = (s', effs)"
    using c by (auto simp: session_close_def split: prod.splits)
  then show ?thesis using handleClose_inv [OF inv False] by blast
qed

text \<open>The two ways a response record is taken: as one more chunk, or as the last one.\<close>

lemma handleResponse_more:
  "map_of (pending s) (e_streamID r) = Some p \<Longrightarrow> \<not> e_fin r \<Longrightarrow> handleResponse s r = (None,
     s\<lparr>pending := AList.update (e_streamID r)
        (if 0 < length (e_payload r) then p\<lparr>p_chunks := p_chunks p @ [e_payload r]\<rparr> else p) (pending s)\<rparr>, [])"
  by (simp add: handleResponse_def Let_def)

lemma handleResponse_last:
  assumes "map_of (pending s) (e_streamID r) = Some p" "e_fin r"
  defines "bs \<equiv> concat (p_chunks p) @ e_payload r" and "sid \<equiv> e_streamID r"
  shows "handleResponse s r =
    (let s2 = s\<lparr>pending := AList.delete sid (pending s)\<rparr> in
     if p_noResponse p then
       (if bs \<noteq> [] then (None, s2, [ClearTimer sid, Reject sid UnexpectedData])
        else (None, s2, [ClearTimer sid, Resolve sid None]))
     else (case js_decodeFrames bs of
         Inl e \<Rightarrow> (Some (WireError e), s2, [ClearTimer sid])
       | Inr frames \<Rightarrow>
           if length frames \<noteq> 1 then (None, s2, [ClearTimer sid, Reject sid NotOneFrame])
           else (None, s2, [ClearTimer sid, Resolve sid (Some (frames ! 0))])))"
proof -
  define p1 where "p1 = (if 0 < length (e_payload r) then p\<lparr>p_chunks := p_chunks p @ [e_payload r]\<rparr> else p)"
  have p1: "js_concat (p_chunks p1) = bs" "p_noResponse p1 = p_noResponse p"
    by (simp_all add: p1_def bs_def)
  have upd: "(s\<lparr>pending := AList.update sid p1 (pending s)\<rparr>)
      \<lparr>pending := AList.delete sid (pending (s\<lparr>pending := AList.update sid p1 (pending s)\<rparr>))\<rparr>
      = s\<lparr>pending := AList.delete sid (pending s)\<rparr>"
    by (simp add: delete_update_same)
  show ?thesis
    unfolding handleResponse_def sid_def [symmetric] assms(1) [folded sid_def] option.case Let_def
      p1_def [symmetric] upd p1
    using assms(2) by simp
qed

lemma handleResponse_inv [inv_intros]:
  assumes inv: "session_inv s tr" and h: "handleResponse s r = (err, s', effs)"
  shows "session_inv s' (tr @ effs)"
proof (cases "map_of (pending s) (e_streamID r)")
  case None
  then show ?thesis using inv h by (simp add: handleResponse_def)
next
  case (Some p)
  let ?k = "e_streamID r"
  note k = map_of_pending [OF Some]
  define p1 where "p1 = (if 0 < length (e_payload r) then p\<lparr>p_chunks := p_chunks p @ [e_payload r]\<rparr> else p)"
  show ?thesis
  proof (cases "e_fin r")
    case False
    then have "s' = s\<lparr>pending := AList.update ?k p1 (pending s)\<rparr>" "effs = []"
      using h Some by (auto simp: handleResponse_def Let_def p1_def)
    then show ?thesis
      using inv k by (intro session_inv_quiet [OF inv]) (auto simp: update_keys session_inv_def)
  next
    case True
    from h have s': "s' = s\<lparr>pending := AList.delete ?k (pending s)\<rparr>"
      unfolding handleResponse_last [OF Some True] Let_def by (auto split: if_splits sum.splits)
    from h have "effs = [ClearTimer ?k] \<or> (\<exists>e. effs = [ClearTimer ?k, Reject ?k e]) \<or> (\<exists>f. effs = [ClearTimer ?k, Resolve ?k f])"
      unfolding handleResponse_last [OF Some True] Let_def by (auto split: if_splits sum.splits)
    then show ?thesis
      using s' k by (intro session_inv_end [OF inv]) (auto simp: life_ended_def)
  qed
qed

lemma handlePush_inv [inv_intros]:
  assumes inv: "session_inv s tr" and h: "handlePush utf8 json s r = (err, s', effs)"
  shows "session_inv s' (tr @ effs)"
proof -
  from h have "pending s' = pending s" "nextClientStreamID s' = nextClientStreamID s" "status s' = status s"
    "ready s' = ready s" "life k effs = []"
    "(push_seqs effs = [] \<and> pushSequence s \<le> pushSequence s') \<or>
     (push_seqs effs = [Suc (pushSequence s)] \<and> pushSequence s' = Suc (pushSequence s))" for k
    by (auto simp: handlePush_def Let_def split: if_splits sum.splits prod.splits)
  then show ?thesis
    using inv by (intro session_inv_quiet [OF inv])
      (auto simp: session_inv_def sorted_wrt_append)
qed

lemma handleMessage_try_inv [inv_intros]:
  assumes inv: "session_inv s tr" and h: "handleMessage_try utf8 json s data = (err, s', effs)"
  shows "session_inv s' (tr @ effs)"
proof (cases data)
  case (DataText t)
  then show ?thesis using inv h by (simp add: handleMessage_try_def)
next
  case (DataBuffer buf)
  show ?thesis
  proof (cases "js_decodeEnvelope buf")
    case (Inl e)
    then show ?thesis using inv h DataBuffer by (simp add: handleMessage_try_def)
  next
    case (Inr r)
    let ?k = "e_streamID r"
    show ?thesis
    proof (cases "e_type r = recordReset \<or> e_type r = recordStop")
      case True
      then have ne: "e_type r \<noteq> recordEphemeral" by (auto simp: js_constants)
      show ?thesis
      proof (cases "map_of (pending s) ?k")
        case None
        then have "s' = s" "life j effs = []" "push_seqs effs = []" for j
          using h DataBuffer Inr True ne by (auto simp: handleMessage_try_def Let_def split: if_splits)
        then show ?thesis
          using inv by (intro session_inv_quiet [OF inv]) (auto simp: session_inv_def)
      next
        case (Some p)
        then have "s' = s\<lparr>pending := AList.delete ?k (pending s)\<rparr>" "push_seqs effs = []"
          "\<exists>e. life ?k effs = [ClearTimer ?k, Reject ?k e]" "j \<noteq> ?k \<Longrightarrow> life j effs = []" for j
          using h DataBuffer Inr True ne by (auto simp: handleMessage_try_def Let_def split: if_splits)
        then show ?thesis
          using map_of_pending [OF Some] by (intro session_inv_end [OF inv]) (auto simp: life_ended_def)
      qed
    next
      case False
      then show ?thesis
        using inv h DataBuffer Inr handleResponse_inv [OF inv, of r err s' effs] handlePush_inv [OF inv, of utf8 json r err s' effs]
        by (auto simp: handleMessage_try_def Let_def split: if_splits)
    qed
  qed
qed

text \<open>1002 is no code a page may pass to \<open>close\<close>, so the \<open>catch\<close> block throws before \<open>handleClose\<close>.\<close>

lemma socket_close_1002: "socket_close st 1002 = None"
  by (simp add: socket_close_def)

lemma handleMessage_eq:
  "handleMessage utf8 json s data = (case handleMessage_try utf8 json s data of
      (None, s1, effs) \<Rightarrow> (None, s1, effs) | (Some e, s1, effs) \<Rightarrow> (Some InvalidAccess, s1, effs))"
  by (auto simp: handleMessage_def socket_close_1002 split: prod.split option.split)

lemma handleMessage_inv [inv_intros]:
  assumes inv: "session_inv s tr" and h: "handleMessage utf8 json s data = (err, s', effs)"
  shows "session_inv s' (tr @ effs)"
proof -
  obtain err1 where "handleMessage_try utf8 json s data = (err1, s', effs)"
    using h by (auto simp: handleMessage_eq split: prod.splits option.splits)
  then show ?thesis using handleMessage_try_inv [OF inv] by blast
qed

lemma session_step_inv [inv_intros]:
  assumes "session_inv s tr" "session_step utf8 json (s, tr) (s', tr')"
  shows "session_inv s' tr'"
  using assms(2)
proof (cases rule: session_step.cases)
  case step_socket_closing
  then show ?thesis
    using session_inv_quiet [OF assms(1), of "s\<lparr>ready := CLOSING\<rparr>" "[]"] assms(1)
    by (simp add: session_inv_def)
next
  case (step_socket_closed code reason effs)
  have "session_inv (s\<lparr>ready := CLOSED\<rparr>) tr"
    using session_inv_quiet [OF assms(1), of "s\<lparr>ready := CLOSED\<rparr>" "[]"] assms(1)
    by (simp add: session_inv_def)
  then show ?thesis
    using step_socket_closed handleClose_inv [of "s\<lparr>ready := CLOSED\<rparr>"] by (simp add: on_socket_close_def)
next
  case (step_handlers op oc)
  then show ?thesis
    using session_inv_quiet [OF assms(1), of "s\<lparr>hasOnPush := op, hasOnClose := oc\<rparr>" "[]"] assms(1)
    by (simp add: session_inv_def)
next
  case (step_socket_error effs)
  then show ?thesis
    using assms(1) handleClose_inv [OF assms(1)] by (auto simp: on_socket_error_def split: if_splits)
next
  case (step_exchange pl nr res effs)
  then show ?thesis using exchange_inv [OF assms(1)] by simp
next
  case (step_timeout k effs)
  then show ?thesis using timeout_inv [OF assms(1)] by simp
next
  case (step_message data err effs)
  then show ?thesis using handleMessage_inv [OF assms(1)] by simp
next
  case (step_close err effs)
  then show ?thesis using session_close_inv [OF assms(1)] by simp
qed

lemma session_reach_inv:
  assumes "session_reach utf8 json w w'" "session_inv (fst w) (snd w)"
  shows "session_inv (fst w') (snd w')"
  using assms
proof (induction rule: session_reach.induct)
  case (reach_step w' w'')
  then show ?case using session_step_inv [of "fst w'" "snd w'" utf8 json "fst w''" "snd w''"] by simp
qed

end
