(* ===== verification/App_State.thy ===== *)
theory App_State
  imports Web_Client_Session
begin

section \<open>The page's state (\<open>validation/web-client/src/App.tsx\<close>)\<close>

text \<open>
  The data of the page, the hooks and refs of \<open>App\<close>, and the callbacks that change them at once.
  Each \<open>useState\<close> hook and each ref that holds data is a field of the record \<open>app\<close>; ids are integers,
  a \<open>WssImSession\<close> object is named by a number, and a notice is its tone and a constructor for its
  text. What a callback does after an \<open>await\<close> is in \<open>App_Handlers\<close>. Rendering and the DOM are left out.
\<close>

record app_user =
  u_id :: int
  u_name :: string

record app_group =
  g_id :: int
  g_name :: string
  g_invite :: string
  g_owner :: int
  g_joined_at :: "string option"

record app_message =
  m_id :: int
  m_group :: int
  m_sender :: app_user
  m_text :: string
  m_created_at :: string

record app_presence =
  pr_user :: app_user
  pr_online :: bool
  pr_sessions :: int

record app_session =
  as_id :: string
  as_connected :: bool
  as_authenticated :: bool
  as_dest_id :: "int option"
  as_ttl :: "int option"
  as_user :: "app_user option"
  as_closed_by :: "close_reason option"

text \<open>\<open>CommandResponse\<close> and \<open>PushEvent\<close>; a field that is missing is \<open>None\<close>.\<close>

record app_reply =
  r_ok :: bool
  r_type :: string
  r_error :: "string option"
  r_user :: "app_user option"
  r_group :: "app_group option"
  r_groups :: "app_group list option"
  r_message :: "app_message option"
  r_messages :: "app_message list option"
  r_presence :: "app_presence list option"
  r_group_id :: "int option"

record app_push =
  ev_seq :: nat
  ev_received_at :: string
  ev_targets :: "int list"
  ev_payload :: app_reply

datatype transport_mode = ModeWss | ModeRawQuic
datatype auth_mode = Login | Register
datatype tone = ToneOk | ToneError | ToneInfo
datatype push_state = PushIdle | PushListening | PushRetrying
datatype busy = BusyAuth | BusyHistory | BusyCreate | BusyJoin | BusySend

datatype app_error =
    NoSession | WssGone | HttpFailed "string option" nat | ReplyRefused "string option" | SavedSessionGone
  | GroupMissing | SessionThrew session_error

datatype notice_text =
    NtError app_error | NtClosed close_reason | NtNewMessage string
  | NtAuthenticated auth_mode "int option" | NtGroupCreated string | NtJoined string

text \<open>
  What the effect of the pushes leaves behind when it has run: the values \<open>applyPush\<close> closed over in the
  render it ran for, and the \<open>WssImSession\<close> whose \<open>onPush\<close> and \<open>onClose\<close> it has set (none for the long
  poll of the Raw QUIC mode). The page's state may have changed since.
\<close>

record listener =
  li_group :: "int option"
  li_user :: "int option"
  li_wss :: "nat option"

text \<open>
  Beside the hooks and refs: \<open>a_listener\<close>, \<open>a_wss_open\<close> (the current \<open>WssImSession\<close> has not been closed) and
  \<open>a_broken\<close> (an update of the state that is queued throws when the page is rendered next).
\<close>

record app =
  a_session :: "app_session option"
  a_groups :: "app_group list"
  a_active :: "int option"
  a_messages :: "app_message list"
  a_presence :: "app_presence list"
  a_typing :: "app_user list"
  a_password :: string
  a_mode :: transport_mode
  a_authMode :: auth_mode
  a_groupName :: string
  a_inviteCode :: string
  a_draft :: string
  a_busy :: "busy option"
  a_notice :: "(tone \<times> notice_text) option"
  a_push :: push_state
  a_lastEventSeq :: nat
  a_lastTypingSentAt :: nat
  a_wss :: "nat option"
  a_wss_open :: bool
  a_listener :: "listener option"
  a_broken :: bool
  a_savedSession :: "string option"
  a_savedTransport :: "transport_mode option"

definition app_new :: app where
  "app_new = \<lparr>a_session = None, a_groups = [], a_active = None, a_messages = [], a_presence = [],
     a_typing = [], a_password = [], a_mode = ModeWss, a_authMode = Register, a_groupName = ''Lyune'',
     a_inviteCode = [], a_draft = [], a_busy = None, a_notice = None, a_push = PushIdle,
     a_lastEventSeq = 0, a_lastTypingSentAt = 0, a_wss = None, a_wss_open = False, a_listener = None,
     a_broken = False, a_savedSession = None, a_savedTransport = None\<rparr>"

subsection \<open>Derived values\<close>

definition activeGroup :: "app \<Rightarrow> app_group option" where
  "activeGroup a = (case a_active a of None \<Rightarrow> None | Some i \<Rightarrow> find (\<lambda>g. g_id g = i) (a_groups a))"

definition authenticated :: "app \<Rightarrow> bool" where
  "authenticated a = (case a_session a of None \<Rightarrow> False | Some s \<Rightarrow> as_authenticated s)"

definition session_user_id :: "app \<Rightarrow> int option" where
  "session_user_id a = (case a_session a of None \<Rightarrow> None
     | Some s \<Rightarrow> map_option u_id (as_user s))"

text \<open>\<open>String.prototype.trim\<close>, over the characters of one byte.\<close>

definition js_space :: "char \<Rightarrow> bool" where
  "js_space c \<longleftrightarrow> (of_char c :: nat) \<in> {9, 10, 11, 12, 13, 32, 160}"

definition js_trim :: "string \<Rightarrow> string" where
  "js_trim s = rev (dropWhile js_space (rev (dropWhile js_space s)))"

subsection \<open>Messages\<close>

definition mergeMessages :: "app_message list \<Rightarrow> app_message list \<Rightarrow> app_message list" where
  "mergeMessages current incoming =
    (let byID = foldl (\<lambda>mp m. AList.update (m_id m) m mp) [] current;
         byID1 = foldl (\<lambda>mp m. AList.update (m_id m) m mp) byID incoming
     in sort_key m_id (map snd byID1))"

subsection \<open>Pushes\<close>

text \<open>
  \<open>applyPush\<close> closes over the open group and the user of the render it was made in. The second result is
  the user whose typing mark it gave a timer.
\<close>

definition applyPush :: "int option \<Rightarrow> int option \<Rightarrow> app \<Rightarrow> app_push \<Rightarrow> app \<times> app_user option" where
  "applyPush activeGroupID userID a event =
    (let p = ev_payload event;
         a0 = a\<lparr>a_lastEventSeq := max (a_lastEventSeq a) (ev_seq event)\<rparr>;
         a1 = (case r_message p of
                 Some m \<Rightarrow> if r_type p = ''message'' then
                    (let b = (if Some (m_group m) = activeGroupID
                              then a0\<lparr>a_messages := mergeMessages (a_messages a0) [m]\<rparr> else a0)
                     in if Some (u_id (m_sender m)) \<noteq> userID
                        then b\<lparr>a_notice := Some (ToneInfo, NtNewMessage (u_name (m_sender m)))\<rparr> else b)
                    else a0
               | None \<Rightarrow> a0)
     in (case r_user p of
           Some u \<Rightarrow> if r_type p = ''typing'' \<and> r_group_id p \<noteq> None \<and> r_group_id p = activeGroupID \<and> Some (u_id u) \<noteq> userID
             then (a1\<lparr>a_typing := filter (\<lambda>x. u_id x \<noteq> u_id u) (a_typing a1) @ [u]\<rparr>, Some u) else (a1, None)
         | None \<Rightarrow> (a1, None)))"

text \<open>The timer that ends a typing mark, and the \<open>onClose\<close> callback.\<close>

definition typing_expired :: "app \<Rightarrow> app_user \<Rightarrow> app" where
  "typing_expired a u = a\<lparr>a_typing := filter (\<lambda>x. u_id x \<noteq> u_id u) (a_typing a)\<rparr>"

definition app_onClose :: "app \<Rightarrow> close_reason \<Rightarrow> app" where
  "app_onClose a reason = a\<lparr>a_push := PushRetrying, a_notice := Some (ToneError, NtClosed reason),
     a_session := map_option (\<lambda>s. s\<lparr>as_connected := False, as_closed_by := Some reason\<rparr>) (a_session a)\<rparr>"

text \<open>
  One answer to the long poll of the Raw QUIC mode, of a loop that has been stopped meanwhile or not;
  \<open>None\<close> is a failed request, which a stopped loop takes for its own abort.
\<close>

fun applyPushes :: "int option \<Rightarrow> int option \<Rightarrow> app \<Rightarrow> app_push list \<Rightarrow> app \<times> app_user list" where
  "applyPushes activeGroupID userID a [] = (a, [])"
| "applyPushes activeGroupID userID a (e # es) =
    (case applyPush activeGroupID userID a e of (a1, u) \<Rightarrow>
       (case applyPushes activeGroupID userID a1 es of (a2, us) \<Rightarrow> (a2, (case u of None \<Rightarrow> us | Some x \<Rightarrow> x # us))))"

definition listen_turn :: "int option \<Rightarrow> int option \<Rightarrow> bool \<Rightarrow> app \<Rightarrow> app_push list option \<Rightarrow> app \<times> app_user list" where
  "listen_turn activeGroupID userID stopped a events = (case events of
      Some es \<Rightarrow> applyPushes activeGroupID userID (a\<lparr>a_push := PushListening\<rparr>) es
    | None \<Rightarrow> (if stopped then a else a\<lparr>a_push := PushRetrying\<rparr>, []))"

text \<open>The debounced typing signal: whether the timer that fires at \<open>now\<close> sends it.\<close>

definition typing_armed :: "app \<Rightarrow> bool" where
  "typing_armed a \<longleftrightarrow> js_trim (a_draft a) \<noteq> [] \<and> a_active a \<noteq> None \<and> a_active a \<noteq> Some 0 \<and> authenticated a"

definition typing_tick :: "app \<Rightarrow> nat \<Rightarrow> app \<times> bool" where
  "typing_tick a now = (if int now - int (a_lastTypingSentAt a) < 1200 then (a, False)
     else (a\<lparr>a_lastTypingSentAt := now\<rparr>, True))"

subsection \<open>What the merge computes\<close>

definition byID :: "(int \<times> app_message) list \<Rightarrow> app_message list \<Rightarrow> (int \<times> app_message) list" where
  "byID al ms = foldl (\<lambda>mp m. AList.update (m_id m) m mp) al ms"

definition keyed :: "(int \<times> app_message) list \<Rightarrow> bool" where
  "keyed al \<longleftrightarrow> distinct (map fst al) \<and> (\<forall>(k, m) \<in> set al. k = m_id m)"

lemma map_of_byID:
  "map_of (byID al ms) k =
    (case List.find (\<lambda>m. m_id m = k) (rev ms) of Some m \<Rightarrow> Some m | None \<Rightarrow> map_of al k)"
proof (induction ms arbitrary: al)
  case Nil
  then show ?case by (simp add: byID_def)
next
  case (Cons m ms)
  have "byID al (m # ms) = byID (AList.update (m_id m) m al) ms" by (simp add: byID_def)
  then show ?case using Cons by (auto simp: update_conv' find_append split: option.splits)
qed

lemma keyed_update: "keyed al \<Longrightarrow> keyed (AList.update (m_id m) m al)"
  unfolding keyed_def
proof (elim conjE, intro conjI)
  assume d: "distinct (map fst al)" and k: "\<forall>(k, m) \<in> set al. k = m_id m"
  show "distinct (map fst (AList.update (m_id m) m al))" using d by (rule distinct_update)
  show "\<forall>(k, m) \<in> set (AList.update (m_id m) m al). k = m_id m"
    using k by (induction al) (auto split: if_splits)
qed

lemma keyed_byID: "keyed al \<Longrightarrow> keyed (byID al ms)"
  by (induction ms arbitrary: al) (auto simp: byID_def keyed_update)

lemma mergeMessages_byID: "mergeMessages current incoming = sort_key m_id (map snd (byID [] (current @ incoming)))"
  by (simp add: mergeMessages_def byID_def)

lemma map_id_byID: "keyed al \<Longrightarrow> map m_id (map snd al) = map fst al"
  by (auto simp: keyed_def)

text \<open>The latest message with an id, in a list of messages.\<close>

definition latest :: "app_message list \<Rightarrow> int \<Rightarrow> app_message option" where
  "latest ms k = List.find (\<lambda>m. m_id m = k) (rev ms)"

lemma mergeMessages_sorted: "sorted_wrt (<) (map m_id (mergeMessages current incoming))"
proof -
  let ?al = "byID [] (current @ incoming)"
  have "keyed ?al" by (rule keyed_byID) (simp add: keyed_def)
  then have "distinct (map m_id (map snd ?al))" by (simp only: map_id_byID) (simp add: keyed_def)
  then have "distinct (map m_id (mergeMessages current incoming))"
    by (simp only: mergeMessages_byID distinct_map distinct_sort set_sort)
  moreover have "sorted (map m_id (mergeMessages current incoming))"
    by (simp add: mergeMessages_byID)
  ultimately show ?thesis by (simp add: strict_sorted_iff)
qed

lemma mergeMessages_mem: "m \<in> set (mergeMessages current incoming) \<longleftrightarrow> latest (current @ incoming) (m_id m) = Some m"
proof -
  let ?al = "byID [] (current @ incoming)"
  have k: "keyed ?al" by (rule keyed_byID) (simp add: keyed_def)
  have "m \<in> set (mergeMessages current incoming) \<longleftrightarrow> (m_id m, m) \<in> set ?al"
    using k by (force simp: mergeMessages_byID keyed_def)
  also have "\<dots> \<longleftrightarrow> map_of ?al (m_id m) = Some m"
    using k by (simp add: keyed_def)
  also have "\<dots> \<longleftrightarrow> latest (current @ incoming) (m_id m) = Some m"
    by (simp add: map_of_byID latest_def split: option.split)
  finally show ?thesis .
qed

lemma latest_Some: "latest ms k = Some m \<Longrightarrow> m \<in> set ms \<and> m_id m = k"
  unfolding latest_def by (drule find_Some_iff) simp

lemma latest_None: "latest ms k = None \<longleftrightarrow> (\<forall>m \<in> set ms. m_id m \<noteq> k)"
  by (auto simp: latest_def find_None_iff)

lemma latest_snoc: "latest (ms @ [b]) k = (if m_id b = k then Some b else latest ms k)"
  by (simp add: latest_def)

lemma latest_merge: "latest (mergeMessages current incoming) k = latest (current @ incoming) k"
proof (cases "latest (mergeMessages current incoming) k")
  case None
  then have "m \<notin> set (mergeMessages current incoming)" if "m_id m = k" for m using that by (auto simp: latest_None)
  then have "latest (current @ incoming) k \<noteq> Some m" for m
    using latest_Some [of "current @ incoming" k m] mergeMessages_mem [of m current incoming] by metis
  then show ?thesis using None by (cases "latest (current @ incoming) k") auto
next
  case (Some m)
  then have "m \<in> set (mergeMessages current incoming)" "m_id m = k" using latest_Some by blast+
  then show ?thesis using Some mergeMessages_mem by simp
qed

text \<open>A list that is strictly sorted by id is determined by its elements.\<close>

lemma messages_eqI:
  assumes "sorted_wrt (<) (map m_id xs)" "sorted_wrt (<) (map m_id ys)" "set xs = set ys"
  shows "xs = ys"
proof -
  have "map m_id xs = map m_id ys"
    using assms by (intro strict_sorted_equal) auto
  moreover have "inj_on m_id (set xs \<union> set ys)"
    using assms by (simp add: strict_sorted_iff distinct_map)
  ultimately show ?thesis by (rule map_inj_on)
qed

subsection \<open>Properties\<close>

text \<open>C6: Merging messages gives a list strictly sorted by id, without duplicates, that holds of every id
  the newest version: the last one of the incoming messages, else the one the page had.\<close>

theorem merge_messages_spec:
  "sorted_wrt (<) (map m_id (mergeMessages current incoming))
   \<and> (\<forall>m. m \<in> set (mergeMessages current incoming) \<longleftrightarrow> latest (current @ incoming) (m_id m) = Some m)"
  using mergeMessages_sorted mergeMessages_mem by simp

text \<open>The order in which two different messages arrive, and repeated deliveries of one, do not show:
  merging commutes over ids and is idempotent.\<close>

theorem merge_order_irrelevant:
  "(m_id a \<noteq> m_id b \<longrightarrow> mergeMessages (mergeMessages ms [a]) [b] = mergeMessages (mergeMessages ms [b]) [a])
   \<and> mergeMessages (mergeMessages ms [a]) [a] = mergeMessages ms [a]"
proof
  have "m \<in> set (mergeMessages (mergeMessages ms [a]) [b]) \<longleftrightarrow> m \<in> set (mergeMessages (mergeMessages ms [b]) [a])"
    if "m_id a \<noteq> m_id b" for m
    using that by (simp add: mergeMessages_mem latest_snoc latest_merge)
  then show "m_id a \<noteq> m_id b \<longrightarrow> mergeMessages (mergeMessages ms [a]) [b] = mergeMessages (mergeMessages ms [b]) [a]"
    by (auto intro!: messages_eqI mergeMessages_sorted)
  have "m \<in> set (mergeMessages (mergeMessages ms [a]) [a]) \<longleftrightarrow> m \<in> set (mergeMessages ms [a])" for m
    by (simp add: mergeMessages_mem latest_snoc latest_merge)
  then show "mergeMessages (mergeMessages ms [a]) [a] = mergeMessages ms [a]"
    by (auto intro!: messages_eqI mergeMessages_sorted)
qed

theorem merge_order_irrelevant_witness:
  "mergeMessages (mergeMessages [] [\<lparr>m_id = 2, m_group = 1, m_sender = \<lparr>u_id = 5, u_name = []\<rparr>, m_text = [], m_created_at = []\<rparr>])
      [\<lparr>m_id = 1, m_group = 1, m_sender = \<lparr>u_id = 5, u_name = []\<rparr>, m_text = [], m_created_at = []\<rparr>] =
   mergeMessages (mergeMessages [] [\<lparr>m_id = 1, m_group = 1, m_sender = \<lparr>u_id = 5, u_name = []\<rparr>, m_text = [], m_created_at = []\<rparr>])
      [\<lparr>m_id = 2, m_group = 1, m_sender = \<lparr>u_id = 5, u_name = []\<rparr>, m_text = [], m_created_at = []\<rparr>]"
  using merge_order_irrelevant [of "\<lparr>m_id = 2, m_group = 1, m_sender = \<lparr>u_id = 5, u_name = []\<rparr>, m_text = [], m_created_at = []\<rparr>"
      "\<lparr>m_id = 1, m_group = 1, m_sender = \<lparr>u_id = 5, u_name = []\<rparr>, m_text = [], m_created_at = []\<rparr>" "[]"] by simp

text \<open>A push changes the shown messages only when it is a message of the open group, and then by
  merging it in; the typing list only when someone else types in the open group, and then it names no
  user twice and starts that user's timer; the login, the groups and the open group never; and the
  cursor of the long poll never goes back.\<close>

theorem apply_push_effect:
  assumes "applyPush active uid a ev = (a', timer)"
  shows "a_messages a' =
     (case r_message (ev_payload ev) of
        Some m \<Rightarrow> if r_type (ev_payload ev) = ''message'' \<and> active = Some (m_group m)
                  then mergeMessages (a_messages a) [m] else a_messages a
      | None \<Rightarrow> a_messages a)
   \<and> (distinct (map u_id (a_typing a)) \<longrightarrow> distinct (map u_id (a_typing a')))
   \<and> (\<forall>u \<in> set (a_typing a') - set (a_typing a). timer = Some u \<and> Some (u_id u) \<noteq> uid)
   \<and> a_session a' = a_session a \<and> a_groups a' = a_groups a \<and> a_active a' = a_active a
   \<and> a_lastEventSeq a \<le> a_lastEventSeq a' \<and> ev_seq ev \<le> a_lastEventSeq a'"
  using assms
  by (cases "r_message (ev_payload ev)"; cases "r_user (ev_payload ev)")
     (auto simp: applyPush_def Let_def intro!: distinct_map_filter split: if_splits)

theorem apply_push_effect_witness:
  "\<exists>a'. applyPush (Some 3) None app_new \<lparr>ev_seq = 1, ev_received_at = [], ev_targets = [],
      ev_payload = \<lparr>r_ok = True, r_type = ''message'', r_error = None, r_user = None, r_group = None,
         r_groups = None, r_message = Some \<lparr>m_id = 1, m_group = 4, m_sender = \<lparr>u_id = 5, u_name = []\<rparr>,
           m_text = [], m_created_at = []\<rparr>, r_messages = None, r_presence = None, r_group_id = None\<rparr>\<rparr> = (a', None)
    \<and> a_messages a' = []"
proof -
  let ?ev = "\<lparr>ev_seq = 1, ev_received_at = [], ev_targets = [],
      ev_payload = \<lparr>r_ok = True, r_type = ''message'', r_error = None, r_user = None, r_group = None,
         r_groups = None, r_message = Some \<lparr>m_id = 1, m_group = 4, m_sender = \<lparr>u_id = 5, u_name = []\<rparr>,
           m_text = [], m_created_at = []\<rparr>, r_messages = None, r_presence = None, r_group_id = None\<rparr>\<rparr>"
  obtain a' t where h: "applyPush (Some 3) None app_new ?ev = (a', t)" by (cases "applyPush (Some 3) None app_new ?ev")
  then have "t = None" by (simp add: applyPush_def Let_def)
  with apply_push_effect [OF h] h show ?thesis by (simp add: app_new_def)
qed

end
