(* ===== verification/App_Handlers.thy ===== *)
theory App_Handlers
  imports App_State
begin

section \<open>The page's asynchronous handlers (\<open>validation/web-client/src/App.tsx\<close>)\<close>

text \<open>
  A handler is cut at its \<open>await\<close>s: a \<open>_start\<close> definition is its code up to the first, the others
  are what follows an \<open>await\<close>, with the settled promise as their argument. A task is a handler that
  waits, with the values its closure took from the render it was made in. The page's runs are the
  interleavings of user actions, settled promises, timers, pushes and socket closes.
\<close>

subsection \<open>Requests\<close>

text \<open>\<open>api\<close>: the HTTP status and the \<open>error\<close> field decide.\<close>

definition api_result :: "nat \<Rightarrow> string option \<Rightarrow> 'p \<Rightarrow> app_error + 'p" where
  "api_result http_status err body =
    (if \<not> (200 \<le> http_status \<and> http_status \<le> 299) then Inl (HttpFailed err http_status) else Inr body)"

datatype command_body =
    ListGroups | History int | PresenceOf int | CreateGroup string | JoinGroup string
  | SendMessage int string | TypingIn int

datatype app_call = CallWss nat command_body | CallApi string command_body

type_synonym request = "app_error + app_call"
type_synonym answer = "app_error + app_reply"

text \<open>The values \<open>command\<close> closes over; \<open>wssSession\<close> is a ref and read at the call.\<close>

record captured =
  cap_session :: "string option"
  cap_mode :: transport_mode

definition capture :: "app \<Rightarrow> captured" where
  "capture a = \<lparr>cap_session = map_option as_id (a_session a), cap_mode = a_mode a\<rparr>"

definition command_call :: "captured \<Rightarrow> app \<Rightarrow> command_body \<Rightarrow> request" where
  "command_call cap a body = (case cap_session cap of
      None \<Rightarrow> Inl NoSession
    | Some sid \<Rightarrow>
      if sid = [] then Inl NoSession
      else if cap_mode cap = ModeWss then (case a_wss a of None \<Rightarrow> Inl WssGone | Some h \<Rightarrow> Inr (CallWss h body))
      else Inr (CallApi sid body))"

definition command_settle :: "app_call \<Rightarrow> answer \<Rightarrow> answer" where
  "command_settle call ans = (case call of
      CallWss h body \<Rightarrow> ans
    | CallApi sid body \<Rightarrow> (case ans of Inl e \<Rightarrow> Inl e
        | Inr r \<Rightarrow> if \<not> r_ok r then Inl (ReplyRefused (r_error r)) else Inr r))"

text \<open>A request that was refused at once rejects with that error.\<close>

definition answers :: "request \<Rightarrow> answer \<Rightarrow> bool" where
  "answers req ans \<longleftrightarrow> (case req of Inl e \<Rightarrow> ans = Inl e | Inr call \<Rightarrow> \<exists>raw. ans = command_settle call raw)"

subsection \<open>Tasks\<close>

datatype after_refresh = RefreshEffect | RefreshButton | RefreshJoin captured "app_group option"
datatype after_open = OpenOnly | OpenJoined app_group

datatype task =
    TRefresh request after_refresh
  | TOpen int request request after_open
  | TCreate request
  | TJoin captured request
  | TSend string request
  | TConnect auth_mode
  | TLogin nat auth_mode
  | TAuthApi auth_mode
  | TLogout
  | TRestore
  | TPresence int captured request
  | TPoll listener
  | TTypingExpire app_user

definition fail :: "app \<Rightarrow> app_error \<Rightarrow> app" where
  "fail a e = a\<lparr>a_notice := Some (ToneError, NtError e)\<rparr>"

definition some_list :: "'a list option \<Rightarrow> 'a list" where
  "some_list v = (case v of None \<Rightarrow> [] | Some xs \<Rightarrow> xs)"

subsection \<open>Groups\<close>

definition refreshGroups_start :: "captured \<Rightarrow> app \<Rightarrow> after_refresh \<Rightarrow> task" where
  "refreshGroups_start cap a k = TRefresh (command_call cap a ListGroups) k"

definition refreshGroups_done :: "app \<Rightarrow> app_reply \<Rightarrow> app" where
  "refreshGroups_done a r = a\<lparr>a_groups := some_list (r_groups r)\<rparr>"

definition openGroup_start :: "captured \<Rightarrow> app \<Rightarrow> int \<Rightarrow> after_open \<Rightarrow> app \<times> task" where
  "openGroup_start cap a gid k =
     (a\<lparr>a_busy := Some BusyHistory\<rparr>, TOpen gid (command_call cap a (History gid)) (command_call cap a (PresenceOf gid)) k)"

definition openGroup_done :: "app \<Rightarrow> int \<Rightarrow> app_error + app_reply \<times> app_reply \<Rightarrow> app" where
  "openGroup_done a gid res =
     (case res of
        Inr (result, presenceResult) \<Rightarrow>
          a\<lparr>a_active := Some gid, a_messages := some_list (r_messages result),
            a_presence := some_list (r_presence presenceResult), a_typing := [], a_notice := None\<rparr>
      | Inl e \<Rightarrow> fail a e)\<lparr>a_busy := None\<rparr>"

text \<open>\<open>Promise.all\<close> of the two requests: both answers, or the error of one of them.\<close>

definition both :: "answer \<Rightarrow> answer \<Rightarrow> app_error + app_reply \<times> app_reply \<Rightarrow> bool" where
  "both ans1 ans2 res \<longleftrightarrow> (case res of
      Inr (r1, r2) \<Rightarrow> ans1 = Inr r1 \<and> ans2 = Inr r2
    | Inl e \<Rightarrow> ans1 = Inl e \<or> ans2 = Inl e)"

definition createGroup_start :: "app \<Rightarrow> app \<times> task" where
  "createGroup_start a =
     (a\<lparr>a_busy := Some BusyCreate\<rparr>, TCreate (command_call (capture a) a (CreateGroup (a_groupName a))))"

text \<open>
  The code takes for granted that the reply carries the group (\<open>result.group!\<close>). If it does not, the update
  of the groups is queued and reading \<open>group.id\<close> throws into the \<open>catch\<close>; the queued update, or
  the search for the active group after it, throws again when the page is rendered, outside any handler.
\<close>

definition createGroup_done :: "app \<Rightarrow> answer \<Rightarrow> app" where
  "createGroup_done a res =
     (case res of
        Inr r \<Rightarrow> (case r_group r of
            Some g \<Rightarrow> a\<lparr>a_groups := filter (\<lambda>item. g_id item \<noteq> g_id g) (a_groups a) @ [g],
                        a_active := Some (g_id g), a_messages := [],
                        a_notice := Some (ToneOk, NtGroupCreated (g_invite g))\<rparr>
          | None \<Rightarrow> (fail a GroupMissing)\<lparr>a_broken := True\<rparr>)
      | Inl e \<Rightarrow> fail a e)\<lparr>a_busy := None\<rparr>"

definition joinGroup_start :: "app \<Rightarrow> app \<times> task" where
  "joinGroup_start a =
     (a\<lparr>a_busy := Some BusyJoin\<rparr>, TJoin (capture a) (command_call (capture a) a (JoinGroup (a_inviteCode a))))"

definition joinGroup_failed :: "app \<Rightarrow> app_error \<Rightarrow> app" where
  "joinGroup_failed a e = (fail a e)\<lparr>a_busy := None\<rparr>"

definition joinGroup_refreshed :: "captured \<Rightarrow> app \<Rightarrow> app_group option \<Rightarrow> app \<times> task option" where
  "joinGroup_refreshed cap a g =
     (let a1 = a\<lparr>a_inviteCode := []\<rparr> in
      case g of None \<Rightarrow> (joinGroup_failed a1 GroupMissing, None)
      | Some grp \<Rightarrow> (case openGroup_start cap a1 (g_id grp) (OpenJoined grp) of (a2, t) \<Rightarrow> (a2, Some t)))"

definition joinGroup_done :: "app \<Rightarrow> app_group \<Rightarrow> app" where
  "joinGroup_done a g = a\<lparr>a_notice := Some (ToneOk, NtJoined (g_name g)), a_busy := None\<rparr>"

subsection \<open>Messages\<close>

definition sendMessage_start :: "app \<Rightarrow> (app \<times> task) option" where
  "sendMessage_start a = (case activeGroup a of
      None \<Rightarrow> None
    | Some g \<Rightarrow> if js_trim (a_draft a) = [] then None
        else let text = js_trim (a_draft a) in
          Some (a\<lparr>a_draft := [], a_busy := Some BusySend\<rparr>,
                TSend text (command_call (capture a) a (SendMessage (g_id g) text))))"

definition sendMessage_done :: "app \<Rightarrow> string \<Rightarrow> answer \<Rightarrow> app" where
  "sendMessage_done a text res =
     (case res of
        Inr r \<Rightarrow> (case r_message r of Some m \<Rightarrow> a\<lparr>a_messages := mergeMessages (a_messages a) [m]\<rparr> | None \<Rightarrow> a)
      | Inl e \<Rightarrow> fail (a\<lparr>a_draft := text\<rparr>) e)\<lparr>a_busy := None\<rparr>"

subsection \<open>Login and logout\<close>

text \<open>
  When a \<open>WssImSession\<close> closes for the first time, it calls the page's \<open>onClose\<close> if the effect has put it
  there.
\<close>

definition listens_wss :: "app \<Rightarrow> bool" where
  "listens_wss a = (case a_listener a of None \<Rightarrow> False | Some l \<Rightarrow> li_wss l \<noteq> None \<and> li_wss l = a_wss a)"

definition wss_closed :: "app \<Rightarrow> close_reason \<Rightarrow> app" where
  "wss_closed a reason =
    (if a_wss a = None \<or> \<not> a_wss_open a then a
     else (if listens_wss a then app_onClose a reason else a)\<lparr>a_wss_open := False\<rparr>)"

definition wss_close :: "app \<Rightarrow> app" where
  "wss_close a = wss_closed a UserQuit"

definition authenticate_start :: "app \<Rightarrow> app \<times> task" where
  "authenticate_start a =
    (let a1 = a\<lparr>a_busy := Some BusyAuth, a_notice := None\<rparr> in
     if a_mode a = ModeWss then (wss_close a1, TConnect (a_authMode a)) else (a1, TAuthApi (a_authMode a)))"

definition authenticate_ok :: "app \<Rightarrow> transport_mode \<Rightarrow> auth_mode \<Rightarrow> app_session \<Rightarrow> app" where
  "authenticate_ok a mode am st = a\<lparr>a_savedSession := Some (as_id st), a_savedTransport := Some mode,
     a_lastEventSeq := 0, a_session := Some st, a_password := [],
     a_notice := Some (ToneOk, NtAuthenticated am (as_dest_id st)), a_busy := None\<rparr>"

definition authenticate_failed :: "app \<Rightarrow> app_error \<Rightarrow> app" where
  "authenticate_failed a e = (fail a e)\<lparr>a_busy := None\<rparr>"

definition authenticate_connected :: "app \<Rightarrow> auth_mode \<Rightarrow> app_error + nat \<Rightarrow> app \<times> task option" where
  "authenticate_connected a am res = (case res of
      Inl e \<Rightarrow> (authenticate_failed a e, None)
    | Inr direct \<Rightarrow> (a, Some (TLogin direct am)))"

definition authenticate_wss_done :: "app \<Rightarrow> nat \<Rightarrow> auth_mode \<Rightarrow> app_error + app_session \<Rightarrow> app" where
  "authenticate_wss_done a direct am res = (case res of
      Inl e \<Rightarrow> authenticate_failed a e
    | Inr st \<Rightarrow> authenticate_ok (a\<lparr>a_wss := Some direct, a_wss_open := True\<rparr>) ModeWss am st)"

definition authenticate_api_done :: "app \<Rightarrow> auth_mode \<Rightarrow> app_error + app_session \<Rightarrow> app" where
  "authenticate_api_done a am res = (case res of
      Inl e \<Rightarrow> authenticate_failed a e
    | Inr st \<Rightarrow> authenticate_ok a ModeRawQuic am st)"

definition logout_done :: "app \<Rightarrow> app" where
  "logout_done a = a\<lparr>a_savedSession := None, a_savedTransport := None, a_session := None, a_groups := [],
     a_messages := [], a_presence := [], a_typing := [], a_active := None, a_notice := None\<rparr>"

definition logout_start :: "app \<Rightarrow> app \<times> task option" where
  "logout_start a =
    (if a_mode a = ModeWss then (logout_done ((wss_close a)\<lparr>a_wss := None\<rparr>), None)
     else case a_session a of
       Some s \<Rightarrow> if as_id s = [] then (logout_done a, None) else (a, Some TLogout)
     | None \<Rightarrow> (logout_done a, None))"

text \<open>The effect that takes up a saved Raw QUIC session when the page is mounted.\<close>

definition restore_start :: "app \<Rightarrow> app \<times> task option" where
  "restore_start a = (case a_savedSession a of
      None \<Rightarrow> (a, None)
    | Some saved \<Rightarrow> if saved = [] \<or> a_savedTransport a \<noteq> Some ModeRawQuic then (a, None)
        else (a\<lparr>a_mode := ModeRawQuic\<rparr>, Some TRestore))"

definition restore_done :: "app \<Rightarrow> app_error + app_session \<Rightarrow> app" where
  "restore_done a res =
    (case (case res of Inl e \<Rightarrow> Inl e
           | Inr st \<Rightarrow> if \<not> as_connected st \<or> \<not> as_authenticated st then Inl SavedSessionGone else Inr st) of
       Inr st \<Rightarrow> a\<lparr>a_session := Some st\<rparr>
     | Inl e \<Rightarrow> a\<lparr>a_savedSession := None, a_savedTransport := None\<rparr>)"

subsection \<open>Effects\<close>

definition presence_start :: "app \<Rightarrow> task option" where
  "presence_start a = (case a_active a of
      None \<Rightarrow> None
    | Some gid \<Rightarrow> if gid = 0 \<or> \<not> authenticated a then None
        else Some (TPresence gid (capture a) (command_call (capture a) a (PresenceOf gid))))"

definition presence_done :: "app \<Rightarrow> bool \<Rightarrow> answer \<Rightarrow> app" where
  "presence_done a stopped res = (case res of
      Inr r \<Rightarrow> if stopped then a else a\<lparr>a_presence := some_list (r_presence r)\<rparr>
    | Inl e \<Rightarrow> a)"

text \<open>
  The effect of the pushes: what it has registered before is taken back, then the callbacks of the current
  render are registered, or a polling loop with them is started.
\<close>

definition push_effect :: "app \<Rightarrow> app \<times> task option" where
  "push_effect a =
    (let off = a\<lparr>a_listener := None\<rparr>;
         l = \<lparr>li_group = a_active a, li_user = session_user_id a, li_wss = (if a_mode a = ModeWss then a_wss a else None)\<rparr>;
         on = a\<lparr>a_push := PushListening, a_listener := Some l\<rparr>
     in case a_session a of
       Some s \<Rightarrow> if as_id s = [] \<or> \<not> as_authenticated s then (off, None)
         else if a_mode a = ModeWss then (if a_wss a = None then (off, None) else (on, None))
         else (on, Some (TPoll l))
     | None \<Rightarrow> (off, None))"

text \<open>What the buttons of the page allow.\<close>

definition can_authenticate :: "app \<Rightarrow> bool" where
  "can_authenticate a \<longleftrightarrow> \<not> authenticated a \<and> a_busy a \<noteq> Some BusyAuth"

definition can_create :: "app \<Rightarrow> bool" where "can_create a \<longleftrightarrow> authenticated a \<and> a_busy a = None"

definition can_join :: "app \<Rightarrow> bool" where
  "can_join a \<longleftrightarrow> authenticated a \<and> a_busy a = None \<and> a_inviteCode a \<noteq> []"

definition can_send :: "app \<Rightarrow> bool" where
  "can_send a \<longleftrightarrow> authenticated a \<and> js_trim (a_draft a) \<noteq> [] \<and> a_busy a \<noteq> Some BusySend"

end
