(* ===== verification/App_Runs.thy ===== *)
theory App_Runs
  imports App_Handlers
begin

section \<open>Runs of the page\<close>

text \<open>
  The page's runs: user actions as far as its buttons allow them, settled requests in any order, timers,
  pushes and socket closes. A user acts on a page that shows its last state; the effect of the pushes may
  run later than the change it reacts to, so a push may meet a listener of an earlier render. The parameter
  \<open>reply_ok\<close> limits what the back end answers to a task and \<open>push_ok\<close> which listener a push may meet;
  with predicates that are always true, anything may come at any time.
\<close>

definition opt_list :: "'a option \<Rightarrow> 'a list" where
  "opt_list v = (case v of None \<Rightarrow> [] | Some x \<Rightarrow> [x])"

definition refresh_settle :: "app \<Rightarrow> after_refresh \<Rightarrow> answer \<Rightarrow> app \<times> task list" where
  "refresh_settle a k ans = (case (k, ans) of
      (RefreshEffect, Inl e) \<Rightarrow> (fail a e, [])
    | (RefreshButton, Inl e) \<Rightarrow> (a, [])
    | (RefreshJoin cap g, Inl e) \<Rightarrow> (joinGroup_failed a e, [])
    | (RefreshJoin cap g, Inr r) \<Rightarrow>
        (case joinGroup_refreshed cap (refreshGroups_done a r) g of (a1, t) \<Rightarrow> (a1, opt_list t))
    | (_, Inr r) \<Rightarrow> (refreshGroups_done a r, []))"

definition open_settle :: "app \<Rightarrow> int \<Rightarrow> after_open \<Rightarrow> app_error + app_reply \<times> app_reply \<Rightarrow> app" where
  "open_settle a gid k res = (case k of
      OpenOnly \<Rightarrow> openGroup_done a gid res
    | OpenJoined g \<Rightarrow> joinGroup_done (openGroup_done a gid res) g)"

definition join_settle :: "captured \<Rightarrow> app \<Rightarrow> answer \<Rightarrow> app \<times> task list" where
  "join_settle cap a ans = (case ans of
      Inl e \<Rightarrow> (joinGroup_failed a e, [])
    | Inr r \<Rightarrow> (a, [refreshGroups_start cap a (RefreshJoin cap (r_group r))]))"

definition timers :: "app_user list \<Rightarrow> task list" where
  "timers us = map TTypingExpire us"

text \<open>How a handler that waits goes on when what it waits for is settled: the page's new state, and the tasks
  that take the handler's place.\<close>

inductive task_settles :: "(app \<Rightarrow> task \<Rightarrow> answer \<Rightarrow> bool) \<Rightarrow> (app \<Rightarrow> listener \<Rightarrow> bool) \<Rightarrow> app \<Rightarrow> task \<Rightarrow> app \<times> task list \<Rightarrow> bool"
  for reply_ok push_ok where
  refresh_answer: "answers q ans \<Longrightarrow> reply_ok a (TRefresh q k) ans \<Longrightarrow>
    task_settles reply_ok push_ok a (TRefresh q k) (refresh_settle a k ans)"
| open_answer: "answers q1 ans1 \<Longrightarrow> answers q2 ans2 \<Longrightarrow> reply_ok a (TOpen gid q1 q2 k) ans1 \<Longrightarrow> both ans1 ans2 res \<Longrightarrow>
    task_settles reply_ok push_ok a (TOpen gid q1 q2 k) (open_settle a gid k res, [])"
| create_answer: "answers q ans \<Longrightarrow> reply_ok a (TCreate q) ans \<Longrightarrow>
    task_settles reply_ok push_ok a (TCreate q) (createGroup_done a ans, [])"
| join_answer: "answers q ans \<Longrightarrow> reply_ok a (TJoin cap q) ans \<Longrightarrow>
    task_settles reply_ok push_ok a (TJoin cap q) (join_settle cap a ans)"
| send_answer: "answers q ans \<Longrightarrow> reply_ok a (TSend text q) ans \<Longrightarrow>
    task_settles reply_ok push_ok a (TSend text q) (sendMessage_done a text ans, [])"
| connected: "authenticate_connected a am res = (a', new) \<Longrightarrow>
    task_settles reply_ok push_ok a (TConnect am) (a', opt_list new)"
| logged_in: "task_settles reply_ok push_ok a (TLogin h am) (authenticate_wss_done a h am res, [])"
| logged_in_api: "task_settles reply_ok push_ok a (TAuthApi am) (authenticate_api_done a am res, [])"
| logged_out: "task_settles reply_ok push_ok a TLogout (logout_done a, [])"
| restored: "task_settles reply_ok push_ok a TRestore (restore_done a st, [])"
| presence_answer: "answers q ans \<Longrightarrow> reply_ok a (TPresence gid cap q) ans \<Longrightarrow>
    (\<not> stopped \<Longrightarrow> a_active a = Some gid \<and> authenticated a \<and> capture a = cap) \<Longrightarrow>
    task_settles reply_ok push_ok a (TPresence gid cap q) (presence_done a stopped ans, [])"
| polled: "(\<not> stopped \<Longrightarrow> a_listener a = Some l) \<Longrightarrow> push_ok a l \<Longrightarrow>
    listen_turn (li_group l) (li_user l) stopped a evs = (a', us) \<Longrightarrow>
    task_settles reply_ok push_ok a (TPoll l) (a', timers us @ (if stopped then [] else [TPoll l]))"
| expire: "task_settles reply_ok push_ok a (TTypingExpire u) (typing_expired a u, [])"

inductive app_step :: "(app \<Rightarrow> task \<Rightarrow> answer \<Rightarrow> bool) \<Rightarrow> (app \<Rightarrow> listener \<Rightarrow> bool) \<Rightarrow> app \<times> task list \<Rightarrow> app \<times> task list \<Rightarrow> bool"
  for reply_ok push_ok where
  edit_draft: "app_step reply_ok push_ok (a, ts) (a\<lparr>a_draft := d\<rparr>, ts)"
| edit_name: "app_step reply_ok push_ok (a, ts) (a\<lparr>a_groupName := d\<rparr>, ts)"
| edit_invite: "app_step reply_ok push_ok (a, ts) (a\<lparr>a_inviteCode := d\<rparr>, ts)"
| edit_password: "app_step reply_ok push_ok (a, ts) (a\<lparr>a_password := d\<rparr>, ts)"
| edit_mode: "\<not> authenticated a \<Longrightarrow> app_step reply_ok push_ok (a, ts) (a\<lparr>a_mode := m\<rparr>, ts)"
| edit_authMode: "\<not> authenticated a \<Longrightarrow> app_step reply_ok push_ok (a, ts) (a\<lparr>a_authMode := am\<rparr>, ts)"
| dismiss: "app_step reply_ok push_ok (a, ts) (a\<lparr>a_notice := None\<rparr>, ts)"
| refresh: "authenticated a \<Longrightarrow> k = RefreshEffect \<or> k = RefreshButton \<Longrightarrow>
    app_step reply_ok push_ok (a, ts) (a, ts @ [refreshGroups_start (capture a) a k])"
| open_group: "authenticated a \<Longrightarrow> g \<in> set (a_groups a) \<Longrightarrow> openGroup_start (capture a) a (g_id g) OpenOnly = (a', t) \<Longrightarrow>
    app_step reply_ok push_ok (a, ts) (a', ts @ [t])"
| create: "can_create a \<Longrightarrow> createGroup_start a = (a', t) \<Longrightarrow> app_step reply_ok push_ok (a, ts) (a', ts @ [t])"
| join: "can_join a \<Longrightarrow> joinGroup_start a = (a', t) \<Longrightarrow> app_step reply_ok push_ok (a, ts) (a', ts @ [t])"
| send: "can_send a \<Longrightarrow> sendMessage_start a = Some (a', t) \<Longrightarrow> app_step reply_ok push_ok (a, ts) (a', ts @ [t])"
| auth: "can_authenticate a \<Longrightarrow> authenticate_start a = (a', t) \<Longrightarrow> app_step reply_ok push_ok (a, ts) (a', ts @ [t])"
| logout: "authenticated a \<Longrightarrow> logout_start a = (a', new) \<Longrightarrow> app_step reply_ok push_ok (a, ts) (a', ts @ opt_list new)"
| settle: "t \<in> set ts \<Longrightarrow> task_settles reply_ok push_ok a t (a', new) \<Longrightarrow>
    app_step reply_ok push_ok (a, ts) (a', remove1 t ts @ new)"
| presence_poll: "presence_start a = Some t \<Longrightarrow> app_step reply_ok push_ok (a, ts) (a, ts @ [t])"
| effect_push: "push_effect a = (a', new) \<Longrightarrow> app_step reply_ok push_ok (a, ts) (a', ts @ opt_list new)"
| push: "a_listener a = Some l \<Longrightarrow> listens_wss a \<Longrightarrow> a_wss_open a \<Longrightarrow> push_ok a l \<Longrightarrow>
    applyPush (li_group l) (li_user l) a ev = (a', u) \<Longrightarrow>
    app_step reply_ok push_ok (a, ts) (a', ts @ timers (opt_list u))"
| closed: "app_step reply_ok push_ok (a, ts) (wss_closed a reason, ts)"
| typing_timer: "typing_armed a \<Longrightarrow> typing_tick a now = (a', sent) \<Longrightarrow> app_step reply_ok push_ok (a, ts) (a', ts)"

inductive app_reach :: "(app \<Rightarrow> task \<Rightarrow> answer \<Rightarrow> bool) \<Rightarrow> (app \<Rightarrow> listener \<Rightarrow> bool) \<Rightarrow> app \<times> task list \<Rightarrow> app \<times> task list \<Rightarrow> bool"
  for reply_ok push_ok w where
  app_refl: "app_reach reply_ok push_ok w w"
| app_trans: "app_reach reply_ok push_ok w w' \<Longrightarrow> app_step reply_ok push_ok w' w'' \<Longrightarrow> app_reach reply_ok push_ok w w''"

inductive_cases settle_expireE: "task_settles reply_ok push_ok a (TTypingExpire u) (a', new)"
inductive_cases settle_pollE: "task_settles reply_ok push_ok a (TPoll l) (a', new)"

text \<open>The page when it is mounted, with what the browser's storage holds.\<close>

definition app_start :: "string option \<Rightarrow> transport_mode option \<Rightarrow> app \<times> task list" where
  "app_start saved mode =
    (case restore_start (app_new\<lparr>a_savedSession := saved, a_savedTransport := mode\<rparr>) of (a, t) \<Rightarrow> (a, opt_list t))"

lemma app_reach_invariant:
  assumes "app_reach reply_ok push_ok w w'" "I w"
    "\<And>a ts a' ts'. I (a, ts) \<Longrightarrow> app_step reply_ok push_ok (a, ts) (a', ts') \<Longrightarrow> I (a', ts')"
  shows "I w'"
  using assms(1,2) by induction (use assms(3) in fastforce)+

subsection \<open>The busy flag\<close>

text \<open>
  A handler that has raised the busy flag waits for at most three requests in a row; the rank of its task
  is the number of those left.
\<close>

fun busy_rank :: "task \<Rightarrow> nat" where
  "busy_rank (TRefresh q k) = (case k of RefreshJoin cap g \<Rightarrow> 2 | _ \<Rightarrow> 0)"
| "busy_rank (TOpen gid q1 q2 k) = 1"
| "busy_rank (TCreate q) = 1"
| "busy_rank (TJoin cap q) = 3"
| "busy_rank (TSend text q) = 1"
| "busy_rank (TConnect am) = 2"
| "busy_rank (TLogin h am) = 1"
| "busy_rank (TAuthApi am) = 1"
| "busy_rank _ = 0"

definition busy_task :: "task \<Rightarrow> bool" where
  "busy_task t \<longleftrightarrow> 0 < busy_rank t"

lemma busy_remove1: "busy_task t \<Longrightarrow> \<not> busy_task t' \<Longrightarrow> t \<in> set (remove1 t' ts) \<longleftrightarrow> t \<in> set ts"
  by (metis in_set_remove1)

definition busy_inv :: "app \<times> task list \<Rightarrow> bool" where
  "busy_inv w \<longleftrightarrow> (a_busy (fst w) \<noteq> None \<longrightarrow> (\<exists>t \<in> set (snd w). busy_task t))"

lemma applyPush_busy: "applyPush active uid a ev = (a', u) \<Longrightarrow> a_busy a' = a_busy a"
  by (auto simp: applyPush_def Let_def split: option.splits if_splits)

lemma applyPushes_busy: "applyPushes active uid a evs = (a', us) \<Longrightarrow> a_busy a' = a_busy a"
  by (induction evs arbitrary: a us) (auto split: prod.splits dest!: applyPush_busy)

lemma listen_turn_busy: "listen_turn active uid stopped a evs = (a', us) \<Longrightarrow> a_busy a' = a_busy a"
  by (auto simp: listen_turn_def dest!: applyPushes_busy split: option.splits)

lemma settle_busy:
  "a_busy (open_settle a gid k res) = None"
  "a_busy (createGroup_done a ans) = None"
  "a_busy (sendMessage_done a text ans) = None"
  "a_busy (authenticate_wss_done a h am r2) = None"
  "a_busy (authenticate_api_done a am r2) = None"
  by (simp_all add: open_settle_def openGroup_done_def joinGroup_done_def createGroup_done_def sendMessage_done_def
      authenticate_wss_done_def authenticate_api_done_def authenticate_ok_def authenticate_failed_def fail_def
      split: after_open.split sum.split)

lemma quiet_busy:
  "a_busy (logout_done a) = a_busy a" "a_busy (restore_done a st) = a_busy a" "a_busy (wss_closed a r) = a_busy a"
  "a_busy (presence_done a stopped ans) = a_busy a" "a_busy (fst (push_effect a)) = a_busy a"
  "a_busy (typing_expired a u) = a_busy a"
  by (auto simp: logout_done_def restore_done_def wss_closed_def app_onClose_def presence_done_def push_effect_def
      typing_expired_def Let_def split: option.split sum.split)

text \<open>
  What a settled promise does to the flag: a handler that has raised it puts it down and ends, or goes on with
  one task of a lower rank; all other handlers leave it as it is.
\<close>

lemma busy_settles:
  assumes "task_settles reply_ok push_ok a t (a', new)" "busy_task t"
  shows "a_busy a' = None \<and> new = [] \<or> (\<exists>t'. new = [t'] \<and> busy_task t' \<and> busy_rank t' < busy_rank t)"
  using assms(1)
proof cases
  case (refresh_answer q ans k)
  then show ?thesis
    using assms(2) by (cases k; cases ans) (auto simp: busy_task_def refresh_settle_def joinGroup_failed_def joinGroup_refreshed_def
        openGroup_start_def opt_list_def Let_def split: option.splits)
next
  case (join_answer q ans cap)
  then show ?thesis
    by (cases ans) (auto simp: busy_task_def join_settle_def joinGroup_failed_def refreshGroups_start_def)
next
  case (connected am res n)
  then show ?thesis
    by (cases res) (auto simp: busy_task_def authenticate_connected_def authenticate_failed_def opt_list_def)
qed (use assms(2) in \<open>auto simp: busy_task_def settle_busy\<close>)

lemma idle_settles:
  assumes "task_settles reply_ok push_ok a t (a', new)" "\<not> busy_task t"
  shows "a_busy a' = a_busy a"
  using assms(1)
proof cases
  case (refresh_answer q ans k)
  then show ?thesis
    using assms(2) by (cases k; cases ans) (auto simp: busy_task_def refresh_settle_def fail_def refreshGroups_done_def)
next
  case (polled l stopped evs us)
  then show ?thesis by (auto dest: listen_turn_busy)
qed (use assms(2) in \<open>auto simp: busy_task_def quiet_busy\<close>)

text \<open>The other steps put the flag down, leave a handler that will, or touch neither.\<close>

lemma busy_step:
  assumes "busy_inv (a, ts)" "app_step reply_ok push_ok (a, ts) (a', ts')"
  shows "busy_inv (a', ts')"
  using assms(2)
proof cases
  case (settle t new)
  show ?thesis
  proof (cases "busy_task t")
    case True
    from busy_settles [OF settle(3) True] show ?thesis using settle(1) by (auto simp: busy_inv_def)
  next
    case False
    then have "s \<in> set ts'" if "s \<in> set ts" "busy_task s" for s
      using that settle(1) busy_remove1 [OF that(2) False] by auto
    then show ?thesis using idle_settles [OF settle(3) False] assms(1) by (auto simp: busy_inv_def)
  qed
next
  case (effect_push new)
  then show ?thesis using assms(1) quiet_busy(5) [of a] by (auto simp: busy_inv_def)
next
  case (push l ev u)
  then show ?thesis using assms(1) by (auto simp: busy_inv_def dest!: applyPush_busy)
next
  case (auth t)
  then show ?thesis by (auto simp: busy_inv_def busy_task_def authenticate_start_def Let_def split: if_splits)
next
  case (logout new)
  then show ?thesis
    using assms(1) by (auto simp: busy_inv_def logout_start_def wss_close_def quiet_busy split: if_splits option.splits)
qed (use assms(1) in \<open>auto simp: busy_inv_def busy_task_def quiet_busy openGroup_start_def createGroup_start_def joinGroup_start_def
      sendMessage_start_def typing_tick_def Let_def split: if_splits option.splits\<close>)

lemma answers_exists: "\<exists>ans. answers q ans"
  by (cases q) (auto simp: answers_def)

lemma both_exists: "\<exists>res. both ans1 ans2 res"
proof (cases ans1)
  case (Inl e)
  then have "both ans1 ans2 (Inl e)" by (simp add: both_def)
  then show ?thesis by blast
next
  case r1: (Inr r)
  show ?thesis
  proof (cases ans2)
    case (Inl e)
    then have "both ans1 ans2 (Inl e)" by (simp add: both_def)
    then show ?thesis by blast
  next
    case (Inr r')
    with r1 have "both ans1 ans2 (Inr (r, r'))" by (simp add: both_def)
    then show ?thesis by blast
  qed
qed

text \<open>A handler that waits for an answer can take every answer there is.\<close>

lemma busy_can_settle:
  assumes "busy_task t"
  shows "\<exists>w. task_settles (\<lambda>a t ans. True) push_ok a t w"
proof -
  note settles = task_settles.intros [where reply_ok = "\<lambda>a t ans. True" and push_ok = push_ok and a = a]
  show ?thesis
  proof (cases t)
    case (TOpen gid q1 q2 k)
    obtain ans1 ans2 where "answers q1 ans1" "answers q2 ans2" by (metis answers_exists)
    then show ?thesis unfolding TOpen using settles(2) [OF _ _ TrueI] both_exists [of ans1 ans2] by blast
  next
    case (TRefresh q k)
    then show ?thesis using settles(1) [OF _ TrueI] answers_exists [of q] by blast
  next
    case (TCreate q)
    then show ?thesis using settles(3) [OF _ TrueI] answers_exists [of q] by blast
  next
    case (TJoin cap q)
    then show ?thesis using settles(4) [OF _ TrueI] answers_exists [of q] by blast
  next
    case (TSend body q)
    then show ?thesis using settles(5) [OF _ TrueI] answers_exists [of q] by blast
  next
    case (TConnect am)
    then show ?thesis using settles(6) [OF surjective_pairing] by blast
  next
    case (TLogin h am)
    then show ?thesis using settles(7) by blast
  next
    case (TAuthApi am)
    then show ?thesis using settles(8) by blast
  qed (use assms in \<open>simp_all add: busy_task_def\<close>)
qed

lemma app_start_busy: "busy_inv (app_start saved mode)"
  by (auto simp: busy_inv_def app_start_def restore_start_def app_new_def split: option.splits)

subsection \<open>Typing marks\<close>

definition typing_inv :: "app \<times> task list \<Rightarrow> bool" where
  "typing_inv w \<longleftrightarrow> distinct (map u_id (a_typing (fst w)))
     \<and> (\<forall>u \<in> set (a_typing (fst w)). \<exists>v. TTypingExpire v \<in> set (snd w) \<and> u_id v = u_id u)"

lemma settle_typing:
  "a_typing (open_settle a gid k res) = [] \<or> a_typing (open_settle a gid k res) = a_typing a"
  "a_typing (createGroup_done a ans) = a_typing a"
  "a_typing (sendMessage_done a text ans) = a_typing a"
  "a_typing (authenticate_wss_done a h am r2) = a_typing a"
  "a_typing (authenticate_api_done a am r2) = a_typing a"
  by (auto simp: open_settle_def openGroup_done_def joinGroup_done_def createGroup_done_def sendMessage_done_def
      authenticate_wss_done_def authenticate_api_done_def authenticate_ok_def authenticate_failed_def fail_def
      split: after_open.split sum.split option.split)

lemma quiet_typing:
  "a_typing (logout_done a) = []" "a_typing (restore_done a st) = a_typing a" "a_typing (wss_closed a r) = a_typing a"
  "a_typing (presence_done a stopped ans) = a_typing a" "a_typing (fst (push_effect a)) = a_typing a"
  by (auto simp: logout_done_def restore_done_def wss_closed_def app_onClose_def presence_done_def push_effect_def
      Let_def split: option.split sum.split)

lemma applyPush_typing:
  assumes "applyPush active uid a ev = (a', u)"
  shows "a_typing a' = (case u of None \<Rightarrow> a_typing a | Some x \<Rightarrow> filter (\<lambda>y. u_id y \<noteq> u_id x) (a_typing a) @ [x])"
  using assms by (auto simp: applyPush_def Let_def split: option.splits if_splits)

lemma typing_push:
  assumes "applyPush active uid a ev = (a', u)" "typing_inv (a, ts)"
  shows "typing_inv (a', ts @ timers (opt_list u))"
  using assms(2) applyPush_typing [OF assms(1)]
  by (cases u) (auto simp: typing_inv_def timers_def opt_list_def intro!: distinct_map_filter)

lemma typing_pushes:
  assumes "applyPushes active uid a evs = (a', us)" "typing_inv (a, ts)"
  shows "typing_inv (a', ts @ timers us)"
  using assms
proof (induction evs arbitrary: a us ts)
  case Nil
  then show ?case by (simp add: timers_def)
next
  case (Cons e es)
  obtain a1 u where p: "applyPush active uid a e = (a1, u)" by (cases "applyPush active uid a e")
  obtain us1 where ps: "applyPushes active uid a1 es = (a', us1)" "us = opt_list u @ us1"
    using Cons.prems(1) p by (auto simp: opt_list_def split: prod.splits option.splits)
  have "typing_inv (a', (ts @ timers (opt_list u)) @ timers us1)"
    by (rule Cons.IH [OF ps(1) typing_push [OF p Cons.prems(2)]])
  then show ?case using ps(2) by (simp add: timers_def)
qed

lemma typing_turn:
  assumes "listen_turn active uid stopped a evs = (a', us)" "typing_inv (a, ts)"
  shows "typing_inv (a', ts @ timers us)"
proof (cases evs)
  case None
  then show ?thesis using assms by (auto simp: listen_turn_def typing_inv_def timers_def split: if_splits)
next
  case (Some es)
  have "typing_inv (a\<lparr>a_push := PushListening\<rparr>, ts)" using assms(2) by (simp add: typing_inv_def)
  then show ?thesis using typing_pushes Some assms(1) by (auto simp: listen_turn_def)
qed

text \<open>Only the timers among the tasks matter, and marks that are cleared need none.\<close>

lemma typing_keep:
  assumes "typing_inv (a, ts)" "a_typing a' = [] \<or> a_typing a' = a_typing a"
    "\<And>v. TTypingExpire v \<in> set ts \<Longrightarrow> TTypingExpire v \<in> set ts'"
  shows "typing_inv (a', ts')"
  using assms by (auto simp: typing_inv_def) metis

lemma typing_expire:
  assumes "typing_inv (a, ts)"
  shows "typing_inv (typing_expired a u, remove1 (TTypingExpire u) ts)"
proof -
  have "\<exists>v. TTypingExpire v \<in> set (remove1 (TTypingExpire u) ts) \<and> u_id v = u_id x"
    if "x \<in> set (a_typing a)" "u_id x \<noteq> u_id u" for x
  proof -
    obtain v where "TTypingExpire v \<in> set ts" "u_id v = u_id x" using assms \<open>x \<in> _\<close> by (auto simp: typing_inv_def)
    with that(2) show ?thesis by (metis in_set_remove1 task.inject)
  qed
  then show ?thesis using assms by (auto simp: typing_inv_def typing_expired_def intro!: distinct_map_filter)
qed

text \<open>A settled promise clears the marks or keeps them, adds marks with their timers, or is the timer of one.\<close>

lemma typing_settles:
  assumes "task_settles reply_ok push_ok a t (a', new)" "\<And>u. t \<noteq> TTypingExpire u" "\<And>l. t \<noteq> TPoll l"
  shows "a_typing a' = [] \<or> a_typing a' = a_typing a"
  using assms(1)
proof cases
  case (refresh_answer q ans k)
  then show ?thesis
    by (cases k; cases ans) (auto simp: refresh_settle_def joinGroup_failed_def joinGroup_refreshed_def
        openGroup_start_def Let_def refreshGroups_done_def fail_def split: option.splits)
next
  case (join_answer q ans cap)
  then show ?thesis by (cases ans) (auto simp: join_settle_def joinGroup_failed_def fail_def)
next
  case (connected am res n)
  then show ?thesis by (cases res) (auto simp: authenticate_connected_def authenticate_failed_def fail_def)
qed (use assms(2,3) in \<open>auto simp: settle_typing quiet_typing\<close>)

lemma typing_settle:
  assumes "task_settles reply_ok push_ok a t (a', new)" "typing_inv (a, ts)" "t \<in> set ts"
  shows "typing_inv (a', remove1 t ts @ new)"
proof (cases "\<exists>u. t = TTypingExpire u")
  case True
  then show ?thesis using assms typing_expire by (auto elim: settle_expireE)
next
  case e: False
  show ?thesis
  proof (cases "\<exists>l. t = TPoll l")
    case True
    then obtain l where l: "t = TPoll l" by blast
    from assms(1) [unfolded l] show ?thesis
    proof (rule settle_pollE)
      fix stopped evs us
      assume turn: "listen_turn (li_group l) (li_user l) stopped a evs = (a', us)"
        and new: "new = timers us @ (if stopped then [] else [TPoll l])"
      have "TTypingExpire v \<in> set (ts @ timers us) \<Longrightarrow> TTypingExpire v \<in> set (remove1 t ts @ new)" for v
        using new l by (auto simp: in_set_remove1)
      then show ?thesis by (rule typing_keep [OF typing_turn [OF turn assms(2)] disjI2 [OF refl]])
    qed
  next
    case False
    then have "a_typing a' = [] \<or> a_typing a' = a_typing a" using e typing_settles [OF assms(1)] by blast
    moreover have "TTypingExpire v \<in> set ts \<Longrightarrow> TTypingExpire v \<in> set (remove1 t ts @ new)" for v
      using e by (metis Un_iff in_set_remove1 set_append)
    ultimately show ?thesis by (rule typing_keep [OF assms(2)])
  qed
qed

lemma typing_shape:
  assumes "app_step reply_ok push_ok (a, ts) (a', ts')" "typing_inv (a, ts)"
  shows "typing_inv (a', ts')"
  using assms(1)
proof cases
  case (push l ev u)
  then show ?thesis using typing_push assms(2) by blast
next
  case (settle t new)
  then show ?thesis using typing_settle assms(2) by blast
next
  case (effect_push new)
  then show ?thesis using quiet_typing(5) [of a] by (intro typing_keep [OF assms(2)]) auto
next
  case (logout new)
  then have "a_typing a' = [] \<or> a_typing a' = a_typing a"
    by (auto simp: logout_start_def wss_close_def quiet_typing split: if_splits option.splits)
  then show ?thesis using logout by (intro typing_keep [OF assms(2)]) auto
qed (rule typing_keep [OF assms(2)]; force simp: quiet_typing openGroup_start_def createGroup_start_def wss_close_def
      joinGroup_start_def sendMessage_start_def authenticate_start_def typing_tick_def Let_def
      split: if_splits option.splits)+

lemma app_start_typing: "typing_inv (app_start saved mode)"
  by (auto simp: typing_inv_def app_start_def restore_start_def app_new_def split: option.splits)

end
