(* ===== verification/App_Props.thy ===== *)
theory App_Props
  imports App_Runs
begin

section \<open>What the page guarantees\<close>

text \<open>
  Properties of every run of the page: its busy flag, its typing marks, and to which group the messages
  it shows belong.
\<close>

subsection \<open>A run\<close>

text \<open>
  A user registers, sees two groups, opens the first, sends a message there and opens the second before
  the message is answered.
\<close>

definition demo_user :: app_user where "demo_user = \<lparr>u_id = 7, u_name = ''ann''\<rparr>"

definition demo_group :: "int \<Rightarrow> app_group" where
  "demo_group i = \<lparr>g_id = i, g_name = ''g'', g_invite = ''inv'', g_owner = 7, g_joined_at = None\<rparr>"

definition demo_message :: app_message where
  "demo_message = \<lparr>m_id = 10, m_group = 1, m_sender = demo_user, m_text = ''x'', m_created_at = []\<rparr>"

definition demo_reply :: app_reply where
  "demo_reply = \<lparr>r_ok = True, r_type = ''ok'', r_error = None, r_user = None, r_group = None, r_groups = None,
     r_message = None, r_messages = None, r_presence = None, r_group_id = None\<rparr>"

definition demo_status :: app_session where
  "demo_status = \<lparr>as_id = ''s'', as_connected = True, as_authenticated = True, as_dest_id = Some 42,
     as_ttl = Some 60, as_user = Some demo_user, as_closed_by = None\<rparr>"

definition demo_login :: app where
  "demo_login = authenticate_wss_done (app_new\<lparr>a_busy := Some BusyAuth\<rparr>) 0 Register (Inr demo_status)"

definition demo_home :: app where
  "demo_home = demo_login\<lparr>a_groups := [demo_group 1, demo_group 2]\<rparr>"

definition demo_open :: "int \<Rightarrow> app" where
  "demo_open i = demo_home\<lparr>a_active := Some i, a_messages := [], a_presence := [], a_typing := [],
     a_notice := None, a_busy := None\<rparr>"

definition demo_sent :: app where
  "demo_sent = (demo_open 1)\<lparr>a_draft := [], a_busy := Some BusySend, a_active := Some 2, a_messages := [],
     a_presence := [], a_typing := [], a_notice := None, a_busy := None\<rparr>"

abbreviation demo_send :: task where
  "demo_send \<equiv> TSend ''x'' (Inr (CallWss 0 (SendMessage 1 ''x'')))"

lemmas demo_defs = demo_user_def demo_group_def demo_message_def demo_reply_def demo_status_def demo_login_def
  demo_home_def demo_open_def demo_sent_def app_new_def

lemma demo_call:
  assumes "a_wss a = Some 0" "a_mode a = ModeWss" "a_session a = Some demo_status"
  shows "command_call (capture a) a body = Inr (CallWss 0 body)"
  using assms by (simp add: command_call_def capture_def demo_status_def)

lemma wss_answer: "answers (Inr (CallWss h body)) ans"
  by (simp add: answers_def command_settle_def)

text \<open>The session and the mode of every state after the login.\<close>

lemma demo_wss:
  "a_wss demo_login = Some 0" "a_mode demo_login = ModeWss" "a_session demo_login = Some demo_status"
  "authenticated demo_login" "a_busy demo_login = None" "a_draft demo_login = []" "a_messages demo_login = []"
  "a_presence demo_login = []" "a_typing demo_login = []" "a_wss_open demo_login" "\<not> a_broken demo_login"
  by (simp_all add: demo_login_def authenticate_wss_done_def authenticate_ok_def authenticated_def app_new_def
      demo_status_def)

lemma demo_wss_home:
  "a_wss demo_home = Some 0" "a_mode demo_home = ModeWss" "a_session demo_home = Some demo_status"
  "authenticated demo_home" "a_busy demo_home = None" "a_groups demo_home = [demo_group 1, demo_group 2]"
  "a_draft demo_home = []" "a_messages demo_home = []" "a_presence demo_home = []" "a_typing demo_home = []"
  "a_wss_open demo_home" "\<not> a_broken demo_home"
  using demo_wss by (simp_all add: demo_home_def authenticated_def)

lemma demo_connecting: "app_reach R P (app_start None None) (app_new\<lparr>a_busy := Some BusyAuth\<rparr>, [TConnect Register])"
proof -
  let ?b = "app_new\<lparr>a_busy := Some BusyAuth\<rparr>"
  have w0: "app_start None None = (app_new, [])" by (simp add: app_start_def restore_start_def app_new_def opt_list_def)
  have "app_step R P (app_new, []) (?b, [TConnect Register])"
    using app_step.auth [of app_new ?b "TConnect Register" R P "[]"]
    by (simp add: can_authenticate_def authenticated_def authenticate_start_def wss_close_def wss_closed_def app_new_def)
  then show ?thesis unfolding w0 by (rule app_trans [OF app_refl])
qed

text \<open>A waiting task that is settled.\<close>

lemma settle_only:
  "app_reach R P w (a, [t]) \<Longrightarrow> task_settles R P a t (a', new) \<Longrightarrow> app_reach R P w (a', new)"
  using app_step.settle [of t "[t]" R P a a' new] by (auto intro: app_trans)

lemma settle_last:
  "app_reach R P w (a, ts @ [t]) \<Longrightarrow> t \<notin> set ts \<Longrightarrow> task_settles R P a t (a', []) \<Longrightarrow> app_reach R P w (a', ts)"
  using app_step.settle [of t "ts @ [t]" R P a a' "[]"] by (auto simp: remove1_append intro: app_trans)

lemma demo_logged_in: "app_reach R P (app_start None None) (demo_login, [])"
proof -
  let ?b = "app_new\<lparr>a_busy := Some BusyAuth\<rparr>"
  have "task_settles R P ?b (TConnect Register) (?b, [TLogin 0 Register])"
    using connected [of ?b Register "Inr 0" ?b "Some (TLogin 0 Register)" R P]
    by (simp add: authenticate_connected_def opt_list_def)
  moreover have "task_settles R P ?b (TLogin 0 Register) (demo_login, [])"
    unfolding demo_login_def by (rule logged_in)
  ultimately show ?thesis using settle_only demo_connecting by blast
qed

lemma demo_at_home:
  assumes "\<And>a t ans. (\<forall>text q. t \<noteq> TSend text q) \<Longrightarrow> (\<forall>gid q1 q2 k. t \<noteq> TOpen gid q1 q2 k) \<Longrightarrow> R a t ans"
  shows "app_reach R P (app_start None None) (demo_home, [])"
proof -
  let ?q = "Inr (CallWss 0 ListGroups) :: request"
  let ?r = "demo_reply\<lparr>r_groups := Some [demo_group 1, demo_group 2]\<rparr>"
  have s1: "app_step R P (demo_login, []) (demo_login, [TRefresh ?q RefreshButton])"
    using app_step.refresh [of demo_login RefreshButton R P "[]"] demo_wss
    by (simp add: refreshGroups_start_def demo_call)
  have "task_settles R P demo_login (TRefresh ?q RefreshButton) (refresh_settle demo_login RefreshButton (Inr ?r))"
    using wss_answer assms by (intro refresh_answer) auto
  then have "task_settles R P demo_login (TRefresh ?q RefreshButton) (demo_home, [])"
    by (simp add: refresh_settle_def refreshGroups_done_def demo_home_def some_list_def)
  then show ?thesis by (rule settle_only [OF app_trans [OF demo_logged_in s1]])
qed

text \<open>Opening a group in such a state, with an empty history.\<close>

abbreviation demo_opening :: "int \<Rightarrow> task" where
  "demo_opening i \<equiv> TOpen i (Inr (CallWss 0 (History i))) (Inr (CallWss 0 (PresenceOf i))) OpenOnly"

lemma demo_clicks:
  assumes "a_wss a = Some 0" "a_mode a = ModeWss" "a_session a = Some demo_status" "i \<in> {1, 2}"
    and "a_groups a = [demo_group 1, demo_group 2]" "authenticated a" "app_reach R P w (a, ts)"
  shows "app_reach R P w (a\<lparr>a_busy := Some BusyHistory\<rparr>, ts @ [demo_opening i])"
proof -
  have g: "demo_group i \<in> set (a_groups a)" using assms(4,5) by auto
  have "app_step R P (a, ts) (a\<lparr>a_busy := Some BusyHistory\<rparr>, ts @ [demo_opening i])"
    using app_step.open_group [of a "demo_group i" "a\<lparr>a_busy := Some BusyHistory\<rparr>" "demo_opening i" R P ts] g assms(1-3,6)
    by (simp add: openGroup_start_def demo_call demo_group_def)
  then show ?thesis by (rule app_trans [OF assms(7)])
qed

lemma demo_opens:
  assumes "a_wss a = Some 0" "a_mode a = ModeWss" "a_session a = Some demo_status" "i \<in> {1, 2}"
    and "a_groups a = [demo_group 1, demo_group 2]" "authenticated a" "app_reach R P w (a, ts)"
    and "\<And>a t. (\<forall>text q. t \<noteq> TSend text q) \<Longrightarrow> R a t (Inr demo_reply)"
    and "demo_opening i \<notin> set ts"
  shows "app_reach R P w (a\<lparr>a_active := Some i, a_messages := [], a_presence := [], a_typing := [], a_notice := None,
    a_busy := None\<rparr>, ts)"
proof -
  let ?b = "a\<lparr>a_busy := Some BusyHistory\<rparr>"
  have "both (Inr demo_reply) (Inr demo_reply) (Inr (demo_reply, demo_reply))" by (simp add: both_def)
  then have "task_settles R P ?b (demo_opening i) (open_settle ?b i OpenOnly (Inr (demo_reply, demo_reply)), [])"
    using wss_answer assms(8) by (intro open_answer) auto
  then have "task_settles R P ?b (demo_opening i) (a\<lparr>a_active := Some i, a_messages := [], a_presence := [], a_typing := [],
      a_notice := None, a_busy := None\<rparr>, [])"
    by (simp add: open_settle_def openGroup_done_def demo_reply_def some_list_def)
  then show ?thesis by (rule settle_last [OF demo_clicks [OF assms(1-7)] assms(9)])
qed

lemma demo_at_group:
  assumes "\<And>a t. (\<forall>text q. t \<noteq> TSend text q) \<Longrightarrow> R a t (Inr demo_reply)"
    and "\<And>a t ans. (\<forall>text q. t \<noteq> TSend text q) \<Longrightarrow> (\<forall>gid q1 q2 k. t \<noteq> TOpen gid q1 q2 k) \<Longrightarrow> R a t ans"
  shows "app_reach R P (app_start None None) (demo_open 1, [])"
  using demo_opens [of demo_home 1 R P "app_start None None" "[]"] demo_wss_home assms demo_at_home [of R P]
  by (simp add: demo_open_def)

text \<open>The message is sent while the first group is open; later the second is.\<close>

abbreviation demo_draft :: app where "demo_draft \<equiv> (demo_open 1)\<lparr>a_draft := ''x''\<rparr>"
abbreviation demo_sending :: app where "demo_sending \<equiv> (demo_open 1)\<lparr>a_draft := [], a_busy := Some BusySend\<rparr>"

lemma demo_typed:
  assumes "\<And>a t. (\<forall>text q. t \<noteq> TSend text q) \<Longrightarrow> R a t (Inr demo_reply)"
    and "\<And>a t ans. (\<forall>text q. t \<noteq> TSend text q) \<Longrightarrow> (\<forall>gid q1 q2 k. t \<noteq> TOpen gid q1 q2 k) \<Longrightarrow> R a t ans"
  shows "app_reach R P (app_start None None) (demo_draft, [])"
  by (rule app_trans [OF demo_at_group app_step.edit_draft]) (use assms in auto)

lemma demo_sends: "can_send demo_draft" "sendMessage_start demo_draft = Some (demo_sending, demo_send)"
proof -
  have trim: "js_trim ''x'' = ''x''" by (simp add: js_trim_def js_space_def)
  have call: "command_call (capture demo_draft) demo_draft body = Inr (CallWss 0 body)" for body
    by (rule demo_call) (simp_all add: demo_open_def demo_wss_home)
  show "sendMessage_start demo_draft = Some (demo_sending, demo_send)"
    using call demo_wss_home trim
    by (simp add: sendMessage_start_def activeGroup_def demo_open_def demo_group_def Let_def)
  show "can_send demo_draft"
    using demo_wss_home trim by (simp add: can_send_def demo_open_def authenticated_def)
qed

lemma demo_late:
  assumes "\<And>a t. (\<forall>text q. t \<noteq> TSend text q) \<Longrightarrow> R a t (Inr demo_reply)"
  shows "app_reach R P (demo_sending, [demo_send]) (demo_sent, [demo_send])"
proof -
  have "app_reach R P (demo_sending, [demo_send]) (demo_sending\<lparr>a_active := Some 2, a_messages := [], a_presence := [],
      a_typing := [], a_notice := None, a_busy := None\<rparr>, [demo_send])"
    using demo_wss_home assms by (intro demo_opens app_refl) (simp_all add: demo_open_def authenticated_def)
  then show ?thesis by (simp add: demo_sent_def)
qed

subsection \<open>Busy flag and typing marks\<close>

definition busy_work :: "task list \<Rightarrow> nat" where
  "busy_work ts = sum_list (map busy_rank ts)"

lemma busy_work_remove1: "t \<in> set ts \<Longrightarrow> busy_work ts = busy_rank t + busy_work (remove1 t ts)"
  by (simp add: busy_work_def sum_list_map_remove1)

text \<open>C21: The page stays busy only while an answer is missing. In every run: if the busy flag is set, a
  handler that raised it is waiting. Whenever such a handler's promise is settled, with whatever answer or
  error, the handler puts the flag down and ends, or goes on to the next of its at most three requests, so the
  requests the flag waits for become fewer with each answer; and it can always be settled.
  Without a waiting handler of this kind the flag is down and a logged-in user can create a group, unless a
  reply without a group has broken the page. A promise that
  is never settled, as after a malformed answer, does leave the flag up.\<close>

theorem busy_never_sticks:
  assumes "app_reach reply_ok push_ok (app_start saved mode) (a, ts)"
  shows "(a_busy a \<noteq> None \<longrightarrow> (\<exists>t \<in> set ts. busy_task t))
    \<and> (\<forall>t \<in> set ts. \<forall>a1 new. busy_task t \<longrightarrow> task_settles reply_ok push_ok a t (a1, new) \<longrightarrow>
        (a_busy a1 = None \<and> new = [] \<or> (\<exists>t'. new = [t'] \<and> busy_task t')) \<and> busy_work (remove1 t ts @ new) < busy_work ts)
    \<and> (\<forall>t \<in> set ts. busy_task t \<longrightarrow> busy_rank t \<le> 3 \<and> (\<exists>w. task_settles (\<lambda>a t ans. True) push_ok a t w))
    \<and> ((\<forall>t \<in> set ts. \<not> busy_task t) \<longrightarrow> a_busy a = None \<and> (authenticated a \<and> \<not> a_broken a \<longrightarrow> can_create a))"
proof -
  have inv: "busy_inv (a, ts)" by (rule app_reach_invariant [OF assms app_start_busy busy_step])
  have "(a_busy a1 = None \<and> new = [] \<or> (\<exists>t'. new = [t'] \<and> busy_task t')) \<and> busy_work (remove1 t ts @ new) < busy_work ts"
    if "t \<in> set ts" "busy_task t" "task_settles reply_ok push_ok a t (a1, new)" for t a1 new
    using busy_settles [OF that(3,2)] busy_work_remove1 [OF that(1)] that(2) by (auto simp: busy_work_def busy_task_def)
  moreover have "busy_rank t \<le> 3" for t by (cases t) (auto split: after_refresh.split)
  ultimately show ?thesis using inv busy_can_settle by (auto simp: busy_inv_def can_create_def)
qed

theorem busy_never_sticks_witness:
  "a_busy (demo_open 1) = None \<and> can_create (demo_open 1)
   \<and> (\<exists>w. task_settles (\<lambda>a t ans. True) (\<lambda>a l. True) (app_new\<lparr>a_busy := Some BusyAuth\<rparr>) (TConnect Register) w)"
  using busy_never_sticks [OF demo_at_group [of "\<lambda>a t ans. True" "\<lambda>a l. True"]] demo_wss_home
    busy_never_sticks [OF demo_connecting [of "\<lambda>a t ans. True" "\<lambda>a l. True"]]
  by (simp add: demo_open_def authenticated_def busy_task_def)

text \<open>A typing mark never sticks: in every run each marked user is marked once and a timer that will
  take the mark away is running, so without running timers nobody is shown as typing.\<close>

theorem typing_marks_expire:
  assumes "app_reach reply_ok push_ok (app_start saved mode) (a, ts)"
  shows "distinct (map u_id (a_typing a))
    \<and> (\<forall>u \<in> set (a_typing a). \<exists>v. TTypingExpire v \<in> set ts \<and> u \<notin> set (a_typing (typing_expired a v)))
    \<and> ((\<forall>v. TTypingExpire v \<notin> set ts) \<longrightarrow> a_typing a = [])"
proof -
  have "typing_inv (a, ts)" by (rule app_reach_invariant [OF assms app_start_typing typing_shape])
  then show ?thesis by (force simp: typing_inv_def typing_expired_def neq_Nil_conv)
qed

text \<open>The effect registers its listener when the first group is open.\<close>

abbreviation demo_listening :: app where
  "demo_listening \<equiv> (demo_open 1)\<lparr>a_push := PushListening,
     a_listener := Some \<lparr>li_group = Some 1, li_user = Some 7, li_wss = Some 0\<rparr>\<rparr>"

lemma demo_listens:
  assumes "\<And>a t. (\<forall>text q. t \<noteq> TSend text q) \<Longrightarrow> R a t (Inr demo_reply)"
    and "\<And>a t ans. (\<forall>text q. t \<noteq> TSend text q) \<Longrightarrow> (\<forall>gid q1 q2 k. t \<noteq> TOpen gid q1 q2 k) \<Longrightarrow> R a t ans"
  shows "app_reach R P (app_start None None) (demo_listening, [])"
proof -
  have "push_effect (demo_open 1) = (demo_listening, None)"
    using demo_wss_home
    by (simp add: push_effect_def Let_def demo_open_def demo_status_def session_user_id_def demo_user_def)
  then have "app_step R P (demo_open 1, []) (demo_listening, [])"
    using app_step.effect_push [of "demo_open 1" demo_listening None R P "[]"] by (simp add: opt_list_def)
  then show ?thesis using demo_at_group [of R P] assms by (auto intro: app_trans)
qed

theorem typing_marks_expire_witness:
  "\<exists>a. app_reach (\<lambda>a t ans. True) (\<lambda>a l. True) (app_start None None) (a, [TTypingExpire \<lparr>u_id = 8, u_name = ''bob''\<rparr>])
     \<and> a_typing a = [\<lparr>u_id = 8, u_name = ''bob''\<rparr>] \<and> distinct (map u_id (a_typing a))"
proof -
  let ?R = "\<lambda>(a :: app) (t :: task) (ans :: answer). True" and ?P = "\<lambda>(a :: app) (l :: listener). True"
  let ?u = "\<lparr>u_id = 8, u_name = ''bob''\<rparr>"
  let ?ev = "\<lparr>ev_seq = 1, ev_received_at = [], ev_targets = [42],
    ev_payload = demo_reply\<lparr>r_type := ''typing'', r_user := Some ?u, r_group_id := Some 1\<rparr>\<rparr>"
  let ?a = "demo_listening\<lparr>a_lastEventSeq := 1, a_typing := [?u]\<rparr>"
  have "applyPush (Some 1) (Some 7) demo_listening ?ev = (?a, Some ?u)"
    by (simp add: applyPush_def Let_def demo_open_def demo_reply_def demo_home_def demo_login_def
        authenticate_wss_done_def authenticate_ok_def)
  then have "app_step ?R ?P (demo_listening, []) (?a, [TTypingExpire ?u])"
    using app_step.push [of demo_listening "\<lparr>li_group = Some 1, li_user = Some 7, li_wss = Some 0\<rparr>" ?P ?ev ?a "Some ?u" ?R "[]"]
      demo_wss_home by (simp add: timers_def opt_list_def listens_wss_def demo_open_def)
  with demo_listens [of ?R ?P] have r: "app_reach ?R ?P (app_start None None) (?a, [TTypingExpire ?u])"
    using app_trans by fastforce
  from typing_marks_expire [OF r] r show ?thesis by (intro exI [of _ ?a]) simp
qed

subsection \<open>The group of the shown messages\<close>

text \<open>
  An honest back end answers a history request with messages of that group and a sent message with a
  message of the group it was sent to.
\<close>

fun body_group :: "command_body \<Rightarrow> int option" where
  "body_group (SendMessage gid text) = Some gid"
| "body_group _ = None"

definition sent_group :: "request \<Rightarrow> int option" where
  "sent_group q = (case q of Inl e \<Rightarrow> None | Inr (CallWss h b) \<Rightarrow> body_group b | Inr (CallApi s b) \<Rightarrow> body_group b)"

definition honest :: "task \<Rightarrow> answer \<Rightarrow> bool" where
  "honest t ans = (case ans of Inl e \<Rightarrow> True | Inr r \<Rightarrow> (case t of
      TOpen gid q1 q2 k \<Rightarrow> \<forall>m \<in> set (some_list (r_messages r)). m_group m = gid
    | TSend text q \<Rightarrow> \<forall>m. r_message r = Some m \<longrightarrow> sent_group q = Some (m_group m)
    | _ \<Rightarrow> True))"

text \<open>The answer to a sent message finds the group still open that it was sent to.\<close>

definition still_open :: "app \<Rightarrow> task \<Rightarrow> bool" where
  "still_open a t = (case t of TSend text q \<Rightarrow> sent_group q = a_active a | _ \<Rightarrow> True)"

definition shown_inv :: "app \<times> task list \<Rightarrow> bool" where
  "shown_inv w \<longleftrightarrow> (\<forall>m \<in> set (a_messages (fst w)). a_active (fst w) = Some (m_group m))"

lemma merge_one: "m \<in> set (mergeMessages ms [x]) \<Longrightarrow> m = x \<or> m \<in> set ms"
  using latest_Some [of "ms @ [x]" "m_id m" m] by (auto simp: mergeMessages_mem)

lemma shown_keep:
  "shown_inv (a, ts) \<Longrightarrow> a_messages a' = a_messages a \<and> a_active a' = a_active a \<or> a_messages a' = [] \<Longrightarrow> shown_inv (a', ts')"
  by (auto simp: shown_inv_def)

lemma quiet_shown:
  "a_messages (restore_done a st) = a_messages a" "a_active (restore_done a st) = a_active a"
  "a_messages (wss_closed a r) = a_messages a" "a_active (wss_closed a r) = a_active a"
  "a_messages (presence_done a stopped ans) = a_messages a" "a_active (presence_done a stopped ans) = a_active a"
  "a_messages (fst (push_effect a)) = a_messages a" "a_active (fst (push_effect a)) = a_active a"
  "a_messages (typing_expired a u) = a_messages a" "a_active (typing_expired a u) = a_active a"
  "a_messages (authenticate_wss_done a h am r2) = a_messages a" "a_active (authenticate_wss_done a h am r2) = a_active a"
  "a_messages (authenticate_api_done a am r2) = a_messages a" "a_active (authenticate_api_done a am r2) = a_active a"
  by (auto simp: restore_done_def wss_closed_def app_onClose_def presence_done_def push_effect_def typing_expired_def
      authenticate_wss_done_def authenticate_api_done_def authenticate_ok_def authenticate_failed_def fail_def Let_def
      split: option.split sum.split)

lemma shown_push:
  assumes "applyPush active uid a ev = (a', u)" "active = a_active a" "shown_inv (a, ts)"
  shows "shown_inv (a', ts') \<and> a_active a' = a_active a"
  using assms by (auto simp: applyPush_def Let_def shown_inv_def split: option.splits if_splits dest!: merge_one)

lemma shown_pushes:
  "applyPushes active uid a evs = (a', us) \<Longrightarrow> active = a_active a \<Longrightarrow> shown_inv (a, ts) \<Longrightarrow> shown_inv (a', ts')"
proof (induction evs arbitrary: a us)
  case (Cons e es)
  obtain a1 u where p: "applyPush active uid a e = (a1, u)" by (cases "applyPush active uid a e")
  show ?case
    using Cons.IH [of a1] Cons.prems shown_push [OF p Cons.prems(2,3), of ts] p by (auto split: prod.splits option.splits)
qed (simp add: shown_inv_def)

lemma shown_turn:
  assumes "listen_turn (a_active a) uid stopped a evs = (a', us)" "shown_inv (a, ts)"
  shows "shown_inv (a', ts')"
proof (cases evs)
  case None
  then show ?thesis using assms by (auto simp: listen_turn_def shown_inv_def split: if_splits)
next
  case (Some es)
  then have "applyPushes (a_active a) uid (a\<lparr>a_push := PushListening\<rparr>) es = (a', us)"
    using assms(1) by (simp add: listen_turn_def)
  moreover have "shown_inv (a\<lparr>a_push := PushListening\<rparr>, ts)" using assms(2) by (simp add: shown_inv_def)
  ultimately show ?thesis using shown_pushes by fastforce
qed

text \<open>The listener a push meets has been registered for the group that is open.\<close>

definition fresh_listener :: "app \<Rightarrow> listener \<Rightarrow> bool" where
  "fresh_listener a l \<longleftrightarrow> li_group l = a_active a"

lemma shown_settle:
  assumes "task_settles (\<lambda>a t ans. honest t ans \<and> still_open a t) fresh_listener a t (a', new)" "shown_inv (a, ts)"
  shows "shown_inv (a', ts')"
  using assms(1)
proof cases
  case (refresh_answer q ans k)
  then have "a_messages a' = a_messages a \<and> a_active a' = a_active a"
    by (cases k; cases ans) (auto simp: refresh_settle_def joinGroup_failed_def joinGroup_refreshed_def
          openGroup_start_def Let_def refreshGroups_done_def fail_def split: option.splits)
  then show ?thesis using shown_keep assms(2) by blast
next
  case (open_answer q1 ans1 q2 ans2 gid k res)
  show ?thesis
  proof (cases res)
    case (Inl e)
    then have "a_messages a' = a_messages a \<and> a_active a' = a_active a"
      using open_answer by (auto simp: open_settle_def openGroup_done_def joinGroup_done_def fail_def split: after_open.split)
    then show ?thesis using shown_keep assms(2) by blast
  next
    case (Inr p)
    then obtain r1 r2 where "ans1 = Inr r1" "res = Inr (r1, r2)" using open_answer by (cases p) (auto simp: both_def)
    then show ?thesis
      using open_answer by (auto simp: open_settle_def openGroup_done_def joinGroup_done_def shown_inv_def honest_def
          split: after_open.splits)
  qed
next
  case (create_answer q ans)
  then show ?thesis
    using assms(2) by (cases ans) (auto simp: createGroup_done_def fail_def shown_inv_def split: option.splits)
next
  case (join_answer q ans cap)
  then have "a_messages a' = a_messages a \<and> a_active a' = a_active a"
    by (cases ans) (auto simp: join_settle_def joinGroup_failed_def fail_def)
  then show ?thesis using shown_keep assms(2) by blast
next
  case (send_answer q ans body)
  then show ?thesis
    using assms(2) by (auto simp: sendMessage_done_def fail_def shown_inv_def honest_def still_open_def
        split: sum.splits option.splits dest!: merge_one)
next
  case (connected am res n)
  then have "a_messages a' = a_messages a \<and> a_active a' = a_active a"
    by (cases res) (auto simp: authenticate_connected_def authenticate_failed_def fail_def)
  then show ?thesis using shown_keep assms(2) by blast
next
  case (polled stopped l evs us)
  then show ?thesis using shown_turn assms(2) by (auto simp: fresh_listener_def)
qed (use assms(2) in \<open>force simp: shown_inv_def quiet_shown logout_done_def\<close>)+

lemma shown_step:
  assumes "app_step (\<lambda>a t ans. honest t ans \<and> still_open a t) fresh_listener (a, ts) (a', ts')" "shown_inv (a, ts)"
  shows "shown_inv (a', ts')"
  using assms(1)
proof cases
  case (settle t new)
  then show ?thesis using shown_settle assms(2) by blast
next
  case (effect_push new)
  then have "a_messages a' = a_messages a \<and> a_active a' = a_active a"
    using quiet_shown(7,8) [of a] by simp
  then show ?thesis using shown_keep assms(2) by blast
next
  case (push l ev u)
  then have "applyPush (a_active a) (li_user l) a ev = (a', u)" by (simp add: fresh_listener_def)
  then show ?thesis using shown_push assms(2) by blast
next
  case (logout new)
  then have "a_messages a' = [] \<or> a_messages a' = a_messages a \<and> a_active a' = a_active a"
    by (auto simp: logout_start_def logout_done_def split: if_splits option.splits)
  then show ?thesis using shown_keep assms(2) by blast
next
  case (auth t)
  then have "a_messages a' = a_messages a \<and> a_active a' = a_active a"
    by (auto simp: authenticate_start_def wss_close_def Let_def quiet_shown split: if_splits)
  then show ?thesis using shown_keep assms(2) by blast
next
  case (send t)
  then have "a_messages a' = a_messages a \<and> a_active a' = a_active a"
    by (auto simp: sendMessage_start_def Let_def split: if_splits option.splits)
  then show ?thesis using shown_keep assms(2) by blast
next
  case (typing_timer now sent)
  then show ?thesis using assms(2) by (auto simp: typing_tick_def shown_inv_def split: if_splits)
qed (use assms(2) in \<open>force simp: shown_inv_def quiet_shown openGroup_start_def createGroup_start_def
      joinGroup_start_def\<close>)+

lemma app_start_shown: "shown_inv (app_start saved mode)"
  by (auto simp: shown_inv_def app_start_def restore_start_def app_new_def split: option.splits)

text \<open>C22: Every message the page shows belongs to the group that is open, under three conditions: the back
  end is honest (a history holds messages of the group asked for, and a sent message is answered with a message
  of the group it was sent to); a sent message is answered while its group is still open; and no push
  arrives between a change of the open group and the run of the effect that registers the new listener.\<close>

theorem shown_messages_of_open_group:
  assumes "app_reach (\<lambda>a t ans. honest t ans \<and> still_open a t) fresh_listener (app_start saved mode) (a, ts)"
  shows "\<forall>m \<in> set (a_messages a). a_active a = Some (m_group m)"
  using app_reach_invariant [OF assms app_start_shown shown_step] by (simp add: shown_inv_def)

text \<open>Honest answers along the run above.\<close>

lemma demo_honest:
  "\<forall>text q. t \<noteq> TSend text q \<Longrightarrow> honest t (Inr demo_reply) \<and> still_open a t"
  "\<forall>text q. t \<noteq> TSend text q \<Longrightarrow> \<forall>gid q1 q2 k. t \<noteq> TOpen gid q1 q2 k \<Longrightarrow> honest t ans \<and> still_open a t"
  by (auto simp: honest_def still_open_def demo_reply_def some_list_def split: task.split sum.split)

lemma demo_sent_group: "sent_group (Inr (CallWss 0 (SendMessage 1 ''x''))) = Some 1"
  by (simp add: sent_group_def)

theorem shown_messages_of_open_group_witness:
  "\<exists>a. app_reach (\<lambda>a t ans. honest t ans \<and> still_open a t) fresh_listener (app_start None None) (a, [])
     \<and> a_messages a = [demo_message] \<and> list_all (\<lambda>m. a_active a = Some (m_group m)) (a_messages a)"
proof -
  let ?R = "\<lambda>a t ans. honest t ans \<and> still_open a t"
  let ?ans = "Inr (demo_reply\<lparr>r_message := Some demo_message\<rparr>)"
  let ?a = "sendMessage_done demo_sending ''x'' ?ans"
  have "app_reach ?R fresh_listener (app_start None None) (demo_draft, [])"
    by (rule demo_typed) (use demo_honest in blast)+
  then have "app_reach ?R fresh_listener (app_start None None) (demo_sending, [demo_send])"
    using app_step.send [of demo_draft demo_sending demo_send ?R fresh_listener "[]"] demo_sends by (auto intro: app_trans)
  moreover have "task_settles ?R fresh_listener demo_sending demo_send (?a, [])"
    using wss_answer demo_sent_group
    by (intro send_answer) (auto simp: honest_def still_open_def demo_message_def demo_open_def)
  ultimately have r: "app_reach ?R fresh_listener (app_start None None) (?a, [])" by (rule settle_only)
  have m: "a_messages ?a = [demo_message]"
    by (simp add: sendMessage_done_def demo_open_def mergeMessages_def)
  show ?thesis using r m shown_messages_of_open_group [OF r] unfolding list_all_iff by blast
qed

subsection \<open>Where the conditions fail\<close>

lemma app_reach_append: "app_reach R P w' w'' \<Longrightarrow> app_reach R P w w' \<Longrightarrow> app_reach R P w w''"
  by (induction rule: app_reach.induct) (auto intro: app_trans)

text \<open>A message is sent to the group that is open.\<close>

lemma sendMessage_start_group:
  assumes "sendMessage_start a = Some (a', TSend text (Inr call))"
  shows "sent_group (Inr call) = a_active a"
  using assms
  by (auto simp: sendMessage_start_def activeGroup_def command_call_def sent_group_def Let_def
      split: option.splits if_splits dest!: find_Some_iff)

text \<open>C23: The second of these conditions is needed, and it is not in the user's hands: whoever sends a message in
  one group and has another group open when the answer comes, however he got there and with a back end that answers
  honestly all the time, sees the message of the first group in the second.\<close>

theorem late_answer_shown_in_wrong_group:
  assumes "app_reach (\<lambda>a. honest) push_ok (app_start saved mode) (a0, ts0)" "a_active a0 = Some g"
    and "can_send a0" "sendMessage_start a0 = Some (a1, TSend body (Inr call))"
    and "app_reach (\<lambda>a. honest) push_ok (a1, ts0 @ [TSend body (Inr call)]) (a, ts)" "TSend body (Inr call) \<in> set ts"
    and "a_active a = Some h" "h \<noteq> g"
    and "answers (Inr call) (Inr r)" "r_message r = Some m" "m_group m = g"
  shows "app_reach (\<lambda>a. honest) push_ok (app_start saved mode)
      (sendMessage_done a body (Inr r), remove1 (TSend body (Inr call)) ts)
    \<and> m \<in> set (a_messages (sendMessage_done a body (Inr r)))
    \<and> a_active (sendMessage_done a body (Inr r)) = Some h \<and> m_group m \<noteq> h"
proof -
  let ?t = "TSend body (Inr call)"
  have "app_step (\<lambda>a. honest) push_ok (a0, ts0) (a1, ts0 @ [?t])" by (rule app_step.send [OF assms(3,4)])
  then have reach: "app_reach (\<lambda>a. honest) push_ok (app_start saved mode) (a, ts)"
    by (rule app_reach_append [OF assms(5) app_trans [OF assms(1)]])
  have "honest ?t (Inr r)"
    using sendMessage_start_group [OF assms(4)] assms(2,10,11) by (simp add: honest_def)
  then have "task_settles (\<lambda>a. honest) push_ok a ?t (sendMessage_done a body (Inr r), [])"
    using assms(9) by (rule send_answer [rotated])
  from app_step.settle [OF assms(6) this] have "app_reach (\<lambda>a. honest) push_ok (app_start saved mode)
      (sendMessage_done a body (Inr r), remove1 ?t ts)"
    using app_trans [OF reach] by simp
  then show ?thesis
    using assms(7,8,10,11) by (simp add: sendMessage_done_def mergeMessages_mem latest_snoc)
qed

theorem late_answer_shown_in_wrong_group_witness:
  "\<exists>a. app_reach (\<lambda>a. honest) (\<lambda>a l. True) (app_start None None) (a, [])
     \<and> demo_message \<in> set (a_messages a) \<and> a_active a = Some 2 \<and> m_group demo_message \<noteq> 2"
proof -
  let ?P = "\<lambda>(a :: app) (l :: listener). True"
  let ?r = "demo_reply\<lparr>r_message := Some demo_message\<rparr>"
  have "app_reach (\<lambda>a. honest) ?P (app_start None None) (demo_draft, [])"
    by (rule demo_typed) (use demo_honest in blast)+
  moreover have "app_reach (\<lambda>a. honest) ?P (demo_sending, [demo_send]) (demo_sent, [demo_send])"
    by (rule demo_late) (use demo_honest in blast)
  ultimately show ?thesis
    using late_answer_shown_in_wrong_group [where push_ok = ?P and saved = None and mode = None and ?a0.0 = demo_draft
        and ?ts0.0 = "[]" and g = 1 and ?a1.0 = demo_sending and body = "''x''" and h = 2 and r = ?r and m = demo_message
        and call = "CallWss 0 (SendMessage 1 ''x'')" and a = demo_sent and ts = "[demo_send]"]
demo_sends
    by (auto simp: demo_open_def demo_sent_def demo_message_def wss_answer)
qed

lemma openGroup_listens:
  "a_listener (openGroup_done a h res) = a_listener a" "a_wss_open (openGroup_done a h res) = a_wss_open a"
  "listens_wss (openGroup_done a h res) = listens_wss a"
  by (simp_all add: listens_wss_def openGroup_done_def fail_def split: sum.split prod.split option.split)

text \<open>C20: Nor can the third condition be left out: the callback of a push closes over the group of the render
  whose effect registered it. If the answer to a click on another group arrives and then a push for the old group,
  before the effect has run again, the message is merged into the list of the group that was just opened,
  also with an honest back end.\<close>

theorem stale_push_shown_in_wrong_group:
  assumes "app_reach (\<lambda>a. honest) (\<lambda>a l. True) (app_start saved mode) (a, ts)"
    and "a_listener a = Some l" "li_group l = Some g" "listens_wss a" "a_wss_open a"
    and "TOpen h q1 q2 OpenOnly \<in> set ts" "h \<noteq> g"
    and "answers q1 (Inr r1)" "answers q2 (Inr r2)" "\<forall>x \<in> set (some_list (r_messages r1)). m_group x = h"
    and "r_type (ev_payload ev) = ''message''" "r_message (ev_payload ev) = Some m" "m_group m = g"
  shows "\<exists>a' ts'. app_reach (\<lambda>a. honest) (\<lambda>a l. True) (app_start saved mode) (a', ts')
    \<and> a_active a' = Some h \<and> m \<in> set (a_messages a')
    \<and> fst (applyPush (li_group l) (li_user l) (openGroup_done a h (Inr (r1, r2))) ev) = a'"
proof -
  let ?P = "\<lambda>(a :: app) (l :: listener). True" and ?t = "TOpen h q1 q2 OpenOnly"
  let ?b = "openGroup_done a h (Inr (r1, r2))"
  have "both (Inr r1) (Inr r2) (Inr (r1, r2))" by (simp add: both_def)
  moreover have "honest ?t (Inr r1)" using assms(10) by (simp add: honest_def)
  ultimately have "task_settles (\<lambda>a. honest) ?P a ?t (open_settle a h OpenOnly (Inr (r1, r2)), [])"
    using assms(8,9) by (intro open_answer)
  then have "task_settles (\<lambda>a. honest) ?P a ?t (?b, [])" by (simp add: open_settle_def)
  from app_trans [OF assms(1) app_step.settle [OF assms(6) this]]
  have reach: "app_reach (\<lambda>a. honest) ?P (app_start saved mode) (?b, remove1 ?t ts @ [])" .
  obtain a' u where p: "applyPush (li_group l) (li_user l) ?b ev = (a', u)" by fastforce
  have "a_listener ?b = Some l" "listens_wss ?b" "a_wss_open ?b"
    using assms(2,4,5) by (simp_all add: openGroup_listens)
  from app_trans [OF reach app_step.push [OF this TrueI p]]
  have "app_reach (\<lambda>a. honest) ?P (app_start saved mode) (a', (remove1 ?t ts @ []) @ timers (opt_list u))" .
  moreover have "a_active a' = Some h \<and> m \<in> set (a_messages a')"
    using p assms(3,11-13) by (auto simp: applyPush_def Let_def openGroup_done_def mergeMessages_mem latest_snoc
        split: option.splits if_splits)
  ultimately show ?thesis using p by auto
qed

theorem stale_push_shown_in_wrong_group_witness:
  "\<exists>a' ts'. app_reach (\<lambda>a. honest) (\<lambda>a l. True) (app_start None None) (a', ts')
     \<and> a_active a' = Some 2 \<and> demo_message \<in> set (a_messages a') \<and> m_group demo_message = 1"
proof -
  let ?P = "\<lambda>(a :: app) (l :: listener). True"
  let ?ev = "\<lparr>ev_seq = 1, ev_received_at = [], ev_targets = [42],
    ev_payload = demo_reply\<lparr>r_type := ''message'', r_message := Some demo_message\<rparr>\<rparr>"
  have "app_reach (\<lambda>a. honest) ?P (app_start None None) (demo_listening, [])"
    by (rule demo_listens) (use demo_honest in blast)+
  then have r: "app_reach (\<lambda>a. honest) ?P (app_start None None) (demo_listening\<lparr>a_busy := Some BusyHistory\<rparr>, [demo_opening 2])"
    using demo_clicks [of demo_listening 2 "\<lambda>a. honest" ?P "app_start None None" "[]"] demo_wss_home
    by (simp add: demo_open_def authenticated_def)
  show ?thesis
    using stale_push_shown_in_wrong_group [OF r, where l = "\<lparr>li_group = Some 1, li_user = Some 7, li_wss = Some 0\<rparr>"
        and g = 1 and h = 2 and ?q1.0 = "Inr (CallWss 0 (History 2))" and ?q2.0 = "Inr (CallWss 0 (PresenceOf 2))"
        and ?r1.0 = demo_reply and ?r2.0 = demo_reply and ev = ?ev and m = demo_message]
      wss_answer demo_wss_home
    by (auto simp: demo_open_def listens_wss_def demo_message_def demo_reply_def some_list_def)
qed

end
