(* ===== verification/Ws_Framing.thy ===== *)
theory Ws_Framing
  imports Wire_Interfaces
begin

section \<open>RFC 6455 framing at the gateway (\<open>src/wss/websocket.zig\<close>)\<close>

text \<open>
  The server side of WebSocket framing: parsing and unmasking one client frame from the front of the
  TCP buffer, writing a server header, and reassembling a fragmented binary message between which
  control frames may appear. \<open>usize\<close> is 64 bits wide, so a length read from the wire always fits it.
\<close>

subsection \<open>Client frames\<close>

datatype opcode = OpContinuation | OpBinary | OpClose | OpPing | OpPong

fun opcode_code :: "opcode \<Rightarrow> byte" where
  "opcode_code OpContinuation = 0x0"
| "opcode_code OpBinary = 0x2"
| "opcode_code OpClose = 0x8"
| "opcode_code OpPing = 0x9"
| "opcode_code OpPong = 0xA"

definition opcode_decode :: "byte \<Rightarrow> opcode option" where
  "opcode_decode b =
    (if b = 0x0 then Some OpContinuation else if b = 0x2 then Some OpBinary
     else if b = 0x8 then Some OpClose else if b = 0x9 then Some OpPing
     else if b = 0xA then Some OpPong else None)"

definition isControl :: "opcode \<Rightarrow> bool" where
  "isControl oc \<longleftrightarrow> 0x8 \<le> opcode_code oc"

record ws_frame =
  w_opcode :: opcode
  w_fin :: bool
  w_payload :: bytes

datatype ws_error =
    WsNeedMore | WsReservedBitsSet | WsUnsupportedOpcode | WsClientFrameNotMasked | WsNonCanonicalLength
  | WsPayloadTooLarge | WsFragmentedControlFrame | WsInvalidControlPayload

definition unmask :: "bytes \<Rightarrow> bytes \<Rightarrow> bytes" where
  "unmask mk payload = map (\<lambda>i. payload ! i XOR mk ! (i mod 4)) [0..<length payload]"

text \<open>The length field: the payload length and the offset after it.\<close>

definition ws_length :: "bytes \<Rightarrow> ws_error + nat \<times> nat" where
  "ws_length input =
    (let len7 = unat (input ! 1 AND 0x7F) in
     if len7 = 126 then
       (if length input < 4 then Inl WsNeedMore
        else let n = be_dec (seg 2 2 input) in
          if n < 126 then Inl WsNonCanonicalLength else Inr (n, 4))
     else if len7 = 127 then
       (if length input < 10 then Inl WsNeedMore
        else let n = be_dec (seg 2 8 input) in
          if n \<le> 65535 \<or> n div 2 ^ 63 \<noteq> 0 then Inl WsNonCanonicalLength else Inr (n, 10))
     else Inr (len7, 2))"

definition parseClientFrame :: "bytes \<Rightarrow> nat \<Rightarrow> ws_error + ws_frame \<times> nat" where
  "parseClientFrame input max_payload =
    (if length input < 2 then Inl WsNeedMore
     else let first = input ! 0; second = input ! 1; fin = (first AND 0x80 \<noteq> 0) in
       if first AND 0x70 \<noteq> 0 then Inl WsReservedBitsSet
       else case opcode_decode (first AND 0x0F) of None \<Rightarrow> Inl WsUnsupportedOpcode
       | Some oc \<Rightarrow>
         if second AND 0x80 = 0 then Inl WsClientFrameNotMasked
         else (case ws_length input of Inl e \<Rightarrow> Inl e
         | Inr (payload_len, offset) \<Rightarrow>
           if max_payload < payload_len then Inl WsPayloadTooLarge
           else if isControl oc \<and> \<not> fin then Inl WsFragmentedControlFrame
           else if isControl oc \<and> (125 < payload_len \<or> (oc = OpClose \<and> payload_len = 1))
             then Inl WsInvalidControlPayload
           else if length input < offset + 4 then Inl WsNeedMore
           else let mk = seg offset 4 input; offset2 = offset + 4 in
             if length input < offset2 + payload_len then Inl WsNeedMore
             else Inr (\<lparr>w_opcode = oc, w_fin = fin, w_payload = unmask mk (seg offset2 payload_len input)\<rparr>,
                       offset2 + payload_len)))"

definition encodeServerHeader :: "opcode \<Rightarrow> bool \<Rightarrow> nat \<Rightarrow> ws_error + bytes" where
  "encodeServerHeader oc fin payload_len =
    (if isControl oc \<and> (\<not> fin \<or> 125 < payload_len) then Inl WsInvalidControlPayload
     else let b0 = (if fin then 0x80 else 0) OR opcode_code oc in
       if payload_len \<le> 125 then Inr [b0, of_nat payload_len]
       else if payload_len \<le> 65535 then Inr ([b0, 126] @ be_enc 2 payload_len)
       else Inr ([b0, 127] @ be_enc 8 payload_len))"

subsection \<open>Message reassembly\<close>

datatype ws_message = MBinary bytes | MClose bytes | MPing bytes | MPong bytes | MIncomplete

datatype message_error = UnexpectedContinuation | InterleavedDataMessage | MessageTooLarge

record assembler =
  scratch_cap :: nat
  scratch :: bytes
  fragmented :: bool

definition assembler_init :: "nat \<Rightarrow> assembler" where
  "assembler_init cap = \<lparr>scratch_cap = cap, scratch = [], fragmented = False\<rparr>"

definition asm_append :: "assembler \<Rightarrow> bytes \<Rightarrow> message_error + assembler" where
  "asm_append a bs =
    (if scratch_cap a - length (scratch a) < length bs then Inl MessageTooLarge
     else Inr (a\<lparr>scratch := scratch a @ bs\<rparr>))"

definition asm_accept :: "assembler \<Rightarrow> ws_frame \<Rightarrow> message_error + ws_message \<times> assembler" where
  "asm_accept a f = (case w_opcode f of
      OpBinary \<Rightarrow>
        if fragmented a then Inl InterleavedDataMessage
        else if w_fin f then Inr (MBinary (w_payload f), a)
        else (case asm_append (a\<lparr>fragmented := True, scratch := []\<rparr>) (w_payload f) of
                Inl e \<Rightarrow> Inl e | Inr a1 \<Rightarrow> Inr (MIncomplete, a1))
    | OpContinuation \<Rightarrow>
        if \<not> fragmented a then Inl UnexpectedContinuation
        else (case asm_append a (w_payload f) of Inl e \<Rightarrow> Inl e
        | Inr a1 \<Rightarrow>
            if \<not> w_fin f then Inr (MIncomplete, a1)
            else Inr (MBinary (scratch a1), a1\<lparr>fragmented := False, scratch := []\<rparr>))
    | OpClose \<Rightarrow> Inr (MClose (w_payload f), a)
    | OpPing \<Rightarrow> Inr (MPing (w_payload f), a)
    | OpPong \<Rightarrow> Inr (MPong (w_payload f), a))"

fun asm_run :: "assembler \<Rightarrow> ws_frame list \<Rightarrow> message_error + ws_message list \<times> assembler" where
  "asm_run a [] = Inr ([], a)"
| "asm_run a (f # fs) = (case asm_accept a f of Inl e \<Rightarrow> Inl e
     | Inr (m, a1) \<Rightarrow> (case asm_run a1 fs of Inl e \<Rightarrow> Inl e
        | Inr (ms, a2) \<Rightarrow> Inr (m # ms, a2)))"

definition asm_inv :: "assembler \<Rightarrow> bool" where
  "asm_inv a \<longleftrightarrow> length (scratch a) \<le> scratch_cap a \<and> (\<not> fragmented a \<longrightarrow> scratch a = [])"

lemma asm_inv_init [inv_intros]: "asm_inv (assembler_init cap)"
  by (simp add: asm_inv_def assembler_init_def)

lemma asm_accept_inv [inv_intros]:
  "asm_inv a \<Longrightarrow> asm_accept a f = Inr (m, a') \<Longrightarrow> asm_inv a' \<and> scratch_cap a' = scratch_cap a"
  by (auto simp: asm_inv_def asm_accept_def asm_append_def split: opcode.splits if_splits sum.splits)

lemma asm_accept_bound:
  "asm_inv a \<Longrightarrow> asm_accept a f = Inr (MBinary bs, a') \<Longrightarrow>
    length bs \<le> max (scratch_cap a) (length (w_payload f))"
  by (auto simp: asm_inv_def asm_accept_def asm_append_def split: opcode.splits if_splits sum.splits)

text \<open>The message a control frame is answered with, and the fragments of one data message.\<close>

fun control_message :: "ws_frame \<Rightarrow> ws_message" where
  "control_message f = (case w_opcode f of OpClose \<Rightarrow> MClose (w_payload f)
     | OpPing \<Rightarrow> MPing (w_payload f) | _ \<Rightarrow> MPong (w_payload f))"

definition middle_ok :: "ws_frame \<Rightarrow> bool" where
  "middle_ok f \<longleftrightarrow> isControl (w_opcode f) \<or> (w_opcode f = OpContinuation \<and> \<not> w_fin f)"

definition middle_message :: "ws_frame \<Rightarrow> ws_message" where
  "middle_message f = (if isControl (w_opcode f) then control_message f else MIncomplete)"

definition data_of :: "ws_frame list \<Rightarrow> bytes" where
  "data_of fs = concat (map w_payload (filter (\<lambda>f. \<not> isControl (w_opcode f)) fs))"

lemma isControl_simps [simp]:
  "isControl OpClose" "isControl OpPing" "isControl OpPong" "\<not> isControl OpBinary" "\<not> isControl OpContinuation"
  by (simp_all add: isControl_def)

lemma asm_run_middle:
  "fragmented a \<Longrightarrow> (\<forall>f \<in> set fs. middle_ok f) \<Longrightarrow>
    length (scratch a) + length (data_of fs) \<le> scratch_cap a \<Longrightarrow>
    asm_run a fs = Inr (map middle_message fs, a\<lparr>scratch := scratch a @ data_of fs\<rparr>)"
proof (induction fs arbitrary: a)
  case Nil
  then show ?case by (simp add: data_of_def)
next
  case (Cons f fs)
  show ?case
  proof (cases "isControl (w_opcode f)")
    case True
    then show ?thesis
      using Cons.prems Cons.IH [of a]
      by (cases "w_opcode f") (simp_all add: asm_accept_def middle_message_def data_of_def)
  next
    case False
    then have f: "w_opcode f = OpContinuation" "\<not> w_fin f"
      using Cons.prems(2) by (auto simp: middle_ok_def)
    have d: "data_of (f # fs) = w_payload f @ data_of fs"
      using False by (simp add: data_of_def)
    show ?thesis
      using Cons.prems f False Cons.IH [of "a\<lparr>scratch := scratch a @ w_payload f\<rparr>"] d
      by (simp add: asm_accept_def asm_append_def middle_message_def)
  qed
qed

subsection \<open>The parser is incremental\<close>

definition ws_parser :: "nat \<Rightarrow> (byte, ws_error, ws_frame) parser" where
  "ws_parser m bs = (case parseClientFrame bs m of
     Inl e \<Rightarrow> if e = WsNeedMore then Inr None else Inl e
   | Inr (f, n) \<Rightarrow> Inr (Some (f, n)))"

lemma ws_length_append:
  assumes "2 \<le> length bs" and "ws_length bs \<noteq> Inl WsNeedMore"
  shows "ws_length (bs @ cs) = ws_length bs"
  using assms by (auto simp: ws_length_def Let_def nth_append seg_append split: if_splits)

lemma parseClientFrame_append:
  assumes "parseClientFrame bs m \<noteq> Inl WsNeedMore"
  shows "parseClientFrame (bs @ cs) m = parseClientFrame bs m"
proof -
  have len: "2 \<le> length bs"
    using assms by (auto simp: parseClientFrame_def split: if_splits)
  have n: "(bs @ cs) ! 0 = bs ! 0" "(bs @ cs) ! 1 = bs ! 1"
    using len by (auto simp: nth_append)
  show ?thesis
  proof (cases "bs ! 0 AND 0x70 \<noteq> 0 \<or> opcode_decode (bs ! 0 AND 0x0F) = None \<or> bs ! 1 AND 0x80 = 0")
    case True
    then show ?thesis
      using len n by (auto simp: parseClientFrame_def Let_def split: option.splits)
  next
    case False
    then have wl: "ws_length bs \<noteq> Inl WsNeedMore"
      using assms len by (auto simp: parseClientFrame_def Let_def)
    note wla = ws_length_append [OF len wl]
    from False obtain oc where oc: "opcode_decode (bs ! 0 AND 0x0F) = Some oc" by auto
    show ?thesis
    proof (cases "ws_length bs")
      case (Inl e)
      then show ?thesis using len n wla False oc by (simp add: parseClientFrame_def Let_def)
    next
      case (Inr r)
      then obtain pl off where r: "ws_length bs = Inr (pl, off)" by (cases r) auto
      have "off + 4 \<le> length bs \<longrightarrow> seg off 4 (bs @ cs) = seg off 4 bs"
        "off + 4 + pl \<le> length bs \<longrightarrow> seg (off + 4) pl (bs @ cs) = seg (off + 4) pl bs"
        by (simp_all add: seg_append)
      then show ?thesis
        using len n wla False oc r assms
        by (auto simp: parseClientFrame_def Let_def split: if_splits)
    qed
  qed
qed

lemma ws_length_offset: "ws_length bs = Inr (n, off) \<Longrightarrow> 2 \<le> off"
  by (auto simp: ws_length_def Let_def split: if_splits)

lemma parseClientFrame_used:
  assumes "parseClientFrame bs m = Inr (f, n)"
  shows "6 \<le> n \<and> n \<le> length bs \<and> length (w_payload f) \<le> m"
proof -
  from assms obtain pl off where "ws_length bs = Inr (pl, off)" "pl \<le> m" "n = off + 4 + pl"
    "off + 4 + pl \<le> length bs" "length (w_payload f) = pl"
    by (auto simp: parseClientFrame_def Let_def unmask_def split: if_splits option.splits sum.splits)
  then show ?thesis using ws_length_offset by fastforce
qed

interpretation ws_stream: incremental_parser "ws_parser m" for m
proof unfold_locales
  show "ws_parser m [] = Inr None" by (simp add: ws_parser_def parseClientFrame_def)
next
  fix bs f n
  assume "ws_parser m bs = Inr (Some (f, n))"
  then show "0 < n \<and> n \<le> length bs"
    by (auto simp: ws_parser_def split: sum.splits if_splits dest!: parseClientFrame_used)
next
  fix bs f n cs
  assume "ws_parser m bs = Inr (Some (f, n))"
  then show "ws_parser m (bs @ cs) = Inr (Some (f, n))"
    by (auto simp: ws_parser_def parseClientFrame_append split: sum.splits if_splits)
next
  fix bs e cs
  assume "ws_parser m bs = Inl e"
  then show "ws_parser m (bs @ cs) = Inl e"
    by (auto simp: ws_parser_def parseClientFrame_append split: sum.splits if_splits)
qed

subsection \<open>Parsing a masked frame\<close>

definition ws_len7 :: "nat \<Rightarrow> byte" where
  "ws_len7 n = (if n \<le> 125 then of_nat n else if n \<le> 65535 then 126 else 127)"

definition ws_len_ext :: "nat \<Rightarrow> bytes" where
  "ws_len_ext n = (if n \<le> 125 then [] else if n \<le> 65535 then be_enc 2 n else be_enc 8 n)"

lemma byte_and_7F: "n < 128 \<Longrightarrow> unat ((0x80 OR of_nat n) AND 0x7F :: byte) = n"
proof -
  assume n: "n < 128"
  have "(0x80 OR of_nat n) AND 0x7F = (of_nat n :: byte) AND 0x7F"
    by (simp add: bit.conj_disj_distrib2)
  moreover have "(0x7F :: byte) = mask 7" by (simp add: mask_eq_exp_minus_1)
  ultimately have "unat ((0x80 OR of_nat n) AND 0x7F :: byte) = unat (take_bit 7 (of_nat n :: byte))"
    by (simp add: take_bit_eq_mask)
  also have "\<dots> = take_bit 7 (unat (of_nat n :: byte))"
    by (rule unsigned_take_bit_eq)
  also have "\<dots> = n"
    using n by (simp add: unsigned_of_nat take_bit_eq_mod)
  finally show ?thesis .
qed

lemma byte_or_80: "(0x80 OR b :: byte) AND 0x80 \<noteq> 0"
proof -
  have "(0x80 OR b) AND 0x80 = (0x80 :: byte)"
    by (rule bit_word_eqI) (auto simp: bit_simps)
  then show ?thesis by simp
qed

lemma ws_length_masked:
  assumes "n < 2 ^ 63"
  shows "ws_length ([first, 0x80 OR ws_len7 n] @ ws_len_ext n @ rest) = Inr (n, 2 + length (ws_len_ext n))"
proof -
  consider "n \<le> 125" | "125 < n" "n \<le> 65535" | "65535 < n" by linarith
  then show ?thesis
  proof cases
    case 1
    then show ?thesis
      using byte_and_7F [of n] by (simp add: ws_length_def ws_len7_def ws_len_ext_def Let_def)
  next
    case 2
    then show ?thesis
      by (simp add: ws_length_def ws_len7_def ws_len_ext_def Let_def seg_def)
  next
    case 3
    then show ?thesis
      using assms by (simp add: ws_length_def ws_len7_def ws_len_ext_def Let_def seg_def)
  qed
qed

lemma parseClientFrame_masked:
  assumes "n < 2 ^ 63" "n \<le> m" "length mk = 4" "length body = n"
    and first: "first AND 0x70 = 0" "opcode_decode (first AND 0x0F) = Some oc"
    and ctl: "isControl oc \<Longrightarrow> first AND 0x80 \<noteq> 0 \<and> n \<le> 125 \<and> (oc = OpClose \<longrightarrow> n \<noteq> 1)"
  shows "parseClientFrame ([first, 0x80 OR ws_len7 n] @ ws_len_ext n @ mk @ body @ rest) m =
    Inr (\<lparr>w_opcode = oc, w_fin = (first AND 0x80 \<noteq> 0), w_payload = unmask mk body\<rparr>,
         2 + length (ws_len_ext n) + 4 + n)"
proof -
  let ?in = "[first, 0x80 OR ws_len7 n] @ ws_len_ext n @ mk @ body @ rest"
  let ?o = "2 + length (ws_len_ext n)"
  have "seg ?o 4 ?in = mk"
    using assms seg_append_mid [of "[first, 0x80 OR ws_len7 n] @ ws_len_ext n" ?o mk 4 "body @ rest"] by simp
  moreover have "seg (?o + 4) n ?in = body"
    using assms seg_append_mid [of "[first, 0x80 OR ws_len7 n] @ ws_len_ext n @ mk" "?o + 4" body n rest] by simp
  moreover have "ws_length ?in = Inr (n, ?o)"
    using ws_length_masked [OF assms(1), of first "mk @ body @ rest"] by simp
  ultimately show ?thesis
    using assms byte_or_80 [of "ws_len7 n"] by (auto simp: parseClientFrame_def Let_def)
qed

lemma length_unmask [simp]: "length (unmask mk p) = length p"
  by (simp add: unmask_def)

lemma unmask_unmask [simp]: "unmask mk (unmask mk p) = p"
  by (rule nth_equalityI) (simp_all add: unmask_def xor.assoc)

end
