(* ===== verification/Smoke_Wire.thy ===== *)
theory Smoke_Wire
  imports Web_Client_Wire Ws_Framing
begin

section \<open>Wire formats of the validation client (\<open>validation/wss-smoke.mjs\<close>)\<close>

text \<open>
  The Node client frames and masks WebSocket messages itself. \<open>Buffer\<close> writes of 16, 32 and 64 bits
  throw a \<open>RangeError\<close> on a value that does not fit, where a byte store reduces it. A stream id is a
  \<open>bigint\<close>, here a \<open>nat\<close>. The random mask of \<open>maskedFrame\<close> is a parameter.
\<close>

datatype smoke_error =
    RangeError | ResponseTruncated | UnknownFrame | LengthMismatch | NotOneOpen
  | ServerMasked | UnexpectedServerFrame | InvalidEnvelope | EnvelopeLengthMismatch
  | InvalidPush | PushListTruncated | InvalidPayload | InvalidControlRecord

definition openBytesFrame :: "nat \<Rightarrow> nat \<Rightarrow> nat \<Rightarrow> nat \<Rightarrow> bytes \<Rightarrow> bool \<Rightarrow> smoke_error + bytes" where
  "openBytesFrame dest grp route responseMode payload eof =
    (let b0 = replicate (8 + length payload) 0;
         b1 = blit b0 0 [0];
         b2 = blit b1 1 [if eof then 1 else 0]
     in if 65535 < length payload then Inl RangeError
        else let b3 = blit b2 2 (be_enc 2 (length payload));
                 b4 = blit b3 4 [of_nat dest];
                 b5 = blit b4 5 [of_nat responseMode];
                 b6 = blit b5 6 [of_nat grp];
                 b7 = blit b6 7 [of_nat route]
             in Inr (blit b7 8 payload))"

definition openFrame :: "('j \<Rightarrow> bytes) \<Rightarrow> nat \<Rightarrow> nat \<Rightarrow> nat \<Rightarrow> nat \<Rightarrow> 'j \<Rightarrow> bool \<Rightarrow> smoke_error + bytes" where
  "openFrame stringify dest grp route responseMode body eof =
     openBytesFrame dest grp route responseMode (stringify body) eof"

definition dataFrame :: "bytes \<Rightarrow> bool \<Rightarrow> smoke_error + bytes" where
  "dataFrame payload eof =
    (let b0 = replicate (4 + length payload) 0;
         b1 = blit b0 0 [1];
         b2 = blit b1 1 [if eof then 1 else 0]
     in if 65535 < length payload then Inl RangeError
        else let b3 = blit b2 2 (be_enc 2 (length payload)) in Inr (blit b3 4 payload))"

definition smoke_encodeEnvelope :: "nat \<Rightarrow> bytes \<Rightarrow> bool \<Rightarrow> nat \<Rightarrow> nat \<Rightarrow> smoke_error + bytes" where
  "smoke_encodeEnvelope streamID pl fin recordType appError =
    (let b0 = replicate (envelopeHeaderSize + length pl) 0;
         b1 = blit b0 0 [1];
         b2 = blit b1 1 [of_nat recordType];
         b3 = blit b2 2 [if fin then 1 else 0]
     in if 256 ^ 8 \<le> streamID then Inl RangeError
        else let b4 = blit b3 4 (be_enc 8 streamID)
     in if 256 ^ 4 \<le> appError then Inl RangeError
        else let b5 = blit b4 12 (be_enc 4 appError)
     in if 256 ^ 4 \<le> length pl then Inl RangeError
        else let b6 = blit b5 16 (be_enc 4 (length pl))
     in Inr (blit b6 envelopeHeaderSize pl))"

text \<open>\<open>(fin ? 0x80 : 0) | opcode\<close> and \<open>0x80 | payload.length\<close> are stored as bytes.\<close>

definition maskedFrame :: "bytes \<Rightarrow> bytes \<Rightarrow> nat \<Rightarrow> bool \<Rightarrow> bytes" where
  "maskedFrame mk pl opcode fin =
    (let b0 = (if fin then 0x80 else 0) OR of_nat opcode;
         header = (if length pl \<le> 125 then [b0, 0x80 OR of_nat (length pl)]
                   else if length pl \<le> 65535 then [b0, 0x80 OR 126] @ be_enc 2 (length pl)
                   else [b0, 0x80 OR 127] @ be_enc 8 (length pl));
         body = map (\<lambda>index. pl ! index XOR mk ! (index mod 4)) [0..<length pl]
     in header @ mk @ body)"

definition smoke_frame_at :: "bytes \<Rightarrow> nat \<Rightarrow> smoke_error + js_frame \<times> nat" where
  "smoke_frame_at bs offset =
    (if length bs - offset < 4 then Inl ResponseTruncated
     else let ty = unat (bs ! offset);
              headerLength = (if ty = 0 then 8 else if ty = 1 then 4 else 0)
          in if headerLength = 0 \<or> length bs - offset < headerLength then Inl UnknownFrame
             else let bodyLength = be_dec (seg (offset + 2) 2 bs);
                      fin = offset + headerLength + bodyLength
                  in if length bs < fin then Inl LengthMismatch
                     else Inr (\<lparr>jf_type = ty, jf_flags = unat (bs ! (offset + 1)),
                       jf_dest = (if ty = 0 then unat (bs ! (offset + 4)) else 0),
                       jf_response = (if ty = 0 then unat (bs ! (offset + 5)) else 0),
                       jf_group = (if ty = 0 then unat (bs ! (offset + 6)) else 0),
                       jf_route = (if ty = 0 then unat (bs ! (offset + 7)) else 0),
                       jf_body = seg (offset + headerLength) bodyLength bs\<rparr>, fin))"

text \<open>The two decoders take the same frame where either takes one.\<close>

lemma smoke_frame_at_Inr:
  "offset < length bs \<Longrightarrow>
    smoke_frame_at bs offset = Inr (f, fin) \<longleftrightarrow> offset \<le> fin \<and> js_frame_at bs offset = Inr (f, fin - offset)"
  by (auto simp: smoke_frame_at_def js_frame_at_def js_constants Let_def split: if_splits)

lemma smoke_frame_at_Inl:
  "offset < length bs \<Longrightarrow> (\<exists>e. smoke_frame_at bs offset = Inl e) \<longleftrightarrow> (\<exists>e. js_frame_at bs offset = Inl e)"
  by (auto simp: smoke_frame_at_def js_frame_at_def js_constants Let_def split: if_splits)

lemma smoke_frame_at_size: "smoke_frame_at bs offset = Inr (f, fin) \<Longrightarrow> offset < fin \<and> fin \<le> length bs"
  by (auto simp: smoke_frame_at_def Let_def split: if_splits)

function smoke_decodeFrames_loop :: "bytes \<Rightarrow> nat \<Rightarrow> js_frame list \<Rightarrow> smoke_error + js_frame list" where
  "smoke_decodeFrames_loop bs offset frames =
    (if offset < length bs then
       (case smoke_frame_at bs offset of Inl e \<Rightarrow> Inl e
        | Inr (f, fin) \<Rightarrow> smoke_decodeFrames_loop bs fin (frames @ [f]))
     else Inr frames)"
  by pat_completeness auto
termination
  by (relation "measure (\<lambda>(bs, offset, frames). length bs - offset)") (auto dest!: smoke_frame_at_size)

declare smoke_decodeFrames_loop.simps [simp del]

definition smoke_decodeFrames :: "bytes \<Rightarrow> smoke_error + js_frame list" where
  "smoke_decodeFrames bs = smoke_decodeFrames_loop bs 0 []"

definition smoke_decodeFrame :: "bytes \<Rightarrow> smoke_error + js_frame" where
  "smoke_decodeFrame bs =
    (if length bs < 8 then Inl ResponseTruncated
     else case smoke_decodeFrames bs of Inl e \<Rightarrow> Inl e
     | Inr frames \<Rightarrow>
       if length frames \<noteq> 1 \<or> jf_type (frames ! 0) \<noteq> 0 then Inl NotOneOpen else Inr (frames ! 0))"

lemma smoke_loop_agrees:
  "(case smoke_decodeFrames_loop bs offset acc of Inl e \<Rightarrow> None | Inr fs \<Rightarrow> Some fs) =
   (case js_decodeFrames_loop bs offset acc of Inl e \<Rightarrow> None | Inr fs \<Rightarrow> Some fs)"
proof (induction bs offset acc rule: smoke_decodeFrames_loop.induct)
  case (1 bs offset acc)
  show ?case
  proof (cases "offset < length bs")
    case True
    show ?thesis
    proof (cases "smoke_frame_at bs offset")
      case (Inl e)
      then obtain e' where "js_frame_at bs offset = Inl e'" using smoke_frame_at_Inl [OF True] by blast
      then show ?thesis
        using Inl True by (simp add: smoke_decodeFrames_loop.simps [of bs offset] js_decodeFrames_loop.simps [of bs offset])
    next
      case (Inr r)
      then obtain f fin where r: "smoke_frame_at bs offset = Inr (f, fin)" by (cases r) auto
      then have "js_frame_at bs offset = Inr (f, fin - offset)" "offset \<le> fin"
        using smoke_frame_at_Inr [OF True] by blast+
      then show ?thesis
        using 1 [OF True r refl] r True
        by (simp add: smoke_decodeFrames_loop.simps [of bs offset] js_decodeFrames_loop.simps [of bs offset])
    qed
  next
    case False
    then show ?thesis by (simp add: smoke_decodeFrames_loop.simps [of bs] js_decodeFrames_loop.simps [of bs])
  qed
qed

subsection \<open>Server frames\<close>

text \<open>
  One turn of the loop of \<open>drainWebSocket\<close> up to the dispatch: the first byte, the payload and the
  bytes used. A 64-bit length goes through \<open>Number\<close>, which is exact below \<open>2 ^ 53\<close>; a longer message
  does not fit any buffer and is waited for in vain either way.
\<close>

definition serverFrame :: "(byte, smoke_error, byte \<times> bytes) parser" where
  "serverFrame input =
    (if length input < 2 then Inr None
     else let first = input ! 0; second = input ! 1 in
       if second AND 0x80 \<noteq> 0 then Inl ServerMasked
       else let len7 = unat (second AND 0x7f) in
         if len7 = 126 \<and> length input < 4 \<or> len7 = 127 \<and> length input < 10 then Inr None
         else let (len, offset) = (if len7 = 126 then (be_dec (seg 2 2 input), 4)
                                   else if len7 = 127 then (be_dec (seg 2 8 input), 10) else (len7, 2))
              in if length input < offset + len then Inr None
                 else Inr (Some ((first, seg offset len input), offset + len)))"

lemma serverFrame_append:
  assumes "serverFrame bs \<noteq> Inr None"
  shows "serverFrame (bs @ cs) = serverFrame bs"
proof -
  have len: "2 \<le> length bs" using assms by (auto simp: serverFrame_def split: if_splits)
  have n: "(bs @ cs) ! 0 = bs ! 0" "(bs @ cs) ! 1 = bs ! 1" using len by (auto simp: nth_append)
  consider (masked) "bs ! 1 AND 0x80 \<noteq> 0" | (l126) "bs ! 1 AND 0x80 = 0" "unat (bs ! 1 AND 0x7f) = 126"
    | (l127) "bs ! 1 AND 0x80 = 0" "unat (bs ! 1 AND 0x7f) = 127"
    | (short) "bs ! 1 AND 0x80 = 0" "unat (bs ! 1 AND 0x7f) \<noteq> 126" "unat (bs ! 1 AND 0x7f) \<noteq> 127"
    by blast
  then show ?thesis
  proof cases
    case masked
    then show ?thesis using len n by (simp add: serverFrame_def Let_def)
  next
    case l126
    then show ?thesis using len n assms by (auto simp: serverFrame_def Let_def seg_append split: if_splits)
  next
    case l127
    then show ?thesis using len n assms by (auto simp: serverFrame_def Let_def seg_append split: if_splits)
  next
    case short
    then show ?thesis using len n assms by (auto simp: serverFrame_def Let_def seg_append split: if_splits)
  qed
qed

lemma serverFrame_used: "serverFrame bs = Inr (Some (x, n)) \<Longrightarrow> 2 \<le> n \<and> n \<le> length bs"
  by (auto simp: serverFrame_def Let_def split: if_splits)

interpretation server_stream: incremental_parser serverFrame
proof unfold_locales
  show "serverFrame [] = Inr None" by (simp add: serverFrame_def)
next
  fix bs x n
  assume "serverFrame bs = Inr (Some (x, n))"
  then show "0 < n \<and> n \<le> length bs" using serverFrame_used by fastforce
next
  fix bs x n cs
  assume "serverFrame bs = Inr (Some (x, n))"
  then show "serverFrame (bs @ cs) = Inr (Some (x, n))" using serverFrame_append [of bs cs] by simp
next
  fix bs e cs
  assume "serverFrame bs = Inl e"
  then show "serverFrame (bs @ cs) = Inl e" using serverFrame_append [of bs cs] by simp
qed

end
