(* ===== verification/Smoke_Client.thy ===== *)
theory Smoke_Client
  imports Smoke_Wire Web_Client_Session
begin

section \<open>The validation client (\<open>validation/wss-smoke.mjs\<close>, class \<open>WssValidationClient\<close>)\<close>

text \<open>
  The client object as a record, each method with the effects it has. As in the browser session an
  exchange's promise is named by its stream id; a waiter of \<open>waitForPush\<close> has a number of its own.
  \<open>SMasked pl\<close> is \<open>socket.write(maskedFrame(pl))\<close> under a fresh random mask. An error that a method
  throws out of the socket's data handler is returned beside the state.
\<close>

record push_note =
  pn_targets :: "nat list"
  pn_payload :: jsval

datatype smoke_result = NoBody | RawBytes bytes | OneFrame js_frame
datatype smoke_reject = TimedOut | CanceledByGateway | UnexpectedBytes | WssClosed | ClosedBeforeUpgrade

datatype smoke_effect =
    SMasked bytes | SRaw bytes | SEnd | SSetTimer nat | SClearTimer nat | SChunk nat bytes bool
  | SResolve nat smoke_result | SReject nat smoke_reject
  | WSetTimer nat | WClearTimer nat | WResolve nat push_note | WReject nat smoke_reject

record smoke_pending =
  sp_chunks :: "bytes list"
  sp_noResponse :: bool
  sp_rawResponse :: bool
  sp_onChunk :: bool

record smoke_client =
  sc_input :: bytes
  sc_upgraded :: bool
  sc_nextStreamID :: nat
  sc_pending :: "(nat \<times> smoke_pending) list"
  sc_pushes :: "(nat \<times> bytes list) list"
  sc_events :: "push_note list"
  sc_waiters :: "(nat \<times> (push_note \<Rightarrow> bool)) list"
  sc_nextWaiter :: nat
  sc_closeCode :: "nat option"

type_synonym smoke_outcome = "smoke_error option \<times> smoke_client \<times> smoke_effect list"

definition smoke_new :: smoke_client where
  "smoke_new = \<lparr>sc_input = [], sc_upgraded = False, sc_nextStreamID = 0, sc_pending = [], sc_pushes = [],
     sc_events = [], sc_waiters = [], sc_nextWaiter = 0, sc_closeCode = None\<rparr>"

subsection \<open>Sending\<close>

definition beginExchange :: "smoke_client \<Rightarrow> bool \<Rightarrow> bool \<Rightarrow> bool \<Rightarrow> nat \<times> smoke_client \<times> smoke_effect list" where
  "beginExchange c noResponse rawResponse onChunk =
    (let streamID = sc_nextStreamID c in
     (streamID,
      c\<lparr>sc_nextStreamID := streamID + 4,
        sc_pending := AList.update streamID
          \<lparr>sp_chunks = [], sp_noResponse = noResponse, sp_rawResponse = rawResponse, sp_onChunk = onChunk\<rparr>
          (sc_pending c)\<rparr>,
      [SSetTimer streamID]))"

definition beginExchange_timeout :: "smoke_client \<Rightarrow> nat \<Rightarrow> smoke_client \<times> smoke_effect list" where
  "beginExchange_timeout c streamID =
     (c\<lparr>sc_pending := AList.delete streamID (sc_pending c)\<rparr>, [SReject streamID TimedOut])"

definition sendStreamRecord :: "nat \<Rightarrow> bytes \<Rightarrow> bool \<Rightarrow> smoke_error + smoke_effect list" where
  "sendStreamRecord streamID pl fin = (case smoke_encodeEnvelope streamID pl fin 1 0 of
     Inl e \<Rightarrow> Inl e | Inr bs \<Rightarrow> Inr [SMasked bs])"

definition sendControlRecord :: "nat \<Rightarrow> nat \<Rightarrow> nat \<Rightarrow> smoke_error + smoke_effect list" where
  "sendControlRecord recordType streamID appError =
    (if recordType \<noteq> 2 \<and> recordType \<noteq> 3 then Inl InvalidControlRecord
     else case smoke_encodeEnvelope streamID [] False recordType appError of
       Inl e \<Rightarrow> Inl e | Inr bs \<Rightarrow> Inr [SMasked bs])"

definition smoke_exchange :: "smoke_client \<Rightarrow> bytes \<Rightarrow> bool \<Rightarrow> smoke_outcome" where
  "smoke_exchange c frame noResponse = (case beginExchange c noResponse False False of
     (streamID, c1, effs) \<Rightarrow> (case sendStreamRecord streamID frame True of
        Inl e \<Rightarrow> (Some e, c1, effs) | Inr effs2 \<Rightarrow> (None, c1, effs @ effs2)))"

subsection \<open>Waiting for a push\<close>

text \<open>The promise of \<open>waitForPush\<close> is resolved at once (\<open>Inl\<close>) or waits under a number (\<open>Inr\<close>).\<close>

definition waitForPush :: "smoke_client \<Rightarrow> (push_note \<Rightarrow> bool) \<Rightarrow> (push_note + nat) \<times> smoke_client \<times> smoke_effect list" where
  "waitForPush c predicate = (case find predicate (sc_events c) of
      Some event \<Rightarrow> (Inl event, c, [])
    | None \<Rightarrow> (Inr (sc_nextWaiter c),
        c\<lparr>sc_waiters := sc_waiters c @ [(sc_nextWaiter c, predicate)], sc_nextWaiter := sc_nextWaiter c + 1\<rparr>,
        [WSetTimer (sc_nextWaiter c)]))"

definition waiter_timeout :: "smoke_client \<Rightarrow> nat \<Rightarrow> smoke_client \<times> smoke_effect list" where
  "waiter_timeout c w =
     (c\<lparr>sc_waiters := filter (\<lambda>(k, p). k \<noteq> w) (sc_waiters c)\<rparr>, [WReject w TimedOut])"

text \<open>The loop over a copy of \<open>eventWaiters\<close>; each match is taken out of the list.\<close>

fun settle_waiters :: "push_note \<Rightarrow> (nat \<times> (push_note \<Rightarrow> bool)) list \<Rightarrow> (nat \<times> (push_note \<Rightarrow> bool)) list
    \<Rightarrow> (nat \<times> (push_note \<Rightarrow> bool)) list \<times> smoke_effect list" where
  "settle_waiters event [] waiters = (waiters, [])"
| "settle_waiters event ((w, predicate) # ws) waiters =
    (if \<not> predicate event then settle_waiters event ws waiters
     else case settle_waiters event ws (filter (\<lambda>(k, p). k \<noteq> w) waiters) of
       (waiters1, effs) \<Rightarrow> (waiters1, WClearTimer w # WResolve w event # effs))"

subsection \<open>Receiving\<close>

fun read_targets :: "bytes \<Rightarrow> nat \<Rightarrow> nat \<Rightarrow> nat list" where
  "read_targets body index 0 = []"
| "read_targets body index (Suc k) = be_dec (seg (2 + index * 8) 8 body) # read_targets body (index + 1) k"

definition smoke_handlePush :: "(bytes \<Rightarrow> string option) \<Rightarrow> (string \<Rightarrow> jsval option) \<Rightarrow> smoke_client \<Rightarrow> nat
    \<Rightarrow> bytes \<Rightarrow> smoke_outcome" where
  "smoke_handlePush utf8 json c streamID env =
    (let chunks0 = (case map_of (sc_pushes c) streamID of None \<Rightarrow> [] | Some cs \<Rightarrow> cs);
         pl = drop envelopeHeaderSize env;
         chunks = (if 0 < length pl then chunks0 @ [pl] else chunks0)
     in if env ! 2 AND 1 = 0 then (None, c\<lparr>sc_pushes := AList.update streamID chunks (sc_pushes c)\<rparr>, [])
        else let c1 = c\<lparr>sc_pushes := AList.delete streamID (sc_pushes c)\<rparr> in
          (case smoke_decodeFrame (js_concat chunks) of
             Inl e \<Rightarrow> (Some e, c1, [])
           | Inr f \<Rightarrow>
             if jf_type f \<noteq> 0 \<or> jf_dest f \<noteq> 2 \<or> of_nat (jf_flags f) AND (1 :: byte) = 0 \<or> length (jf_body f) < 2
             then (Some InvalidPush, c1, [])
             else let count = be_dec (seg 0 2 (jf_body f)); pre = 2 + count * 8 in
               if length (jf_body f) < pre then (Some PushListTruncated, c1, [])
               else (case jsonBody utf8 json (drop pre (jf_body f)) of
                   Inl e \<Rightarrow> (Some InvalidPayload, c1, [])
                 | Inr v \<Rightarrow>
                   let event = \<lparr>pn_targets = read_targets (jf_body f) 0 count, pn_payload = v\<rparr>;
                       c2 = c1\<lparr>sc_events := sc_events c1 @ [event]\<rparr>
                   in (case settle_waiters event (sc_waiters c2) (sc_waiters c2) of
                      (waiters, effs) \<Rightarrow>
                        let c3 = c2\<lparr>sc_waiters := waiters\<rparr> in
                        (case sendStreamRecord streamID [] True of
                           Inl e \<Rightarrow> (Some e, c3, effs)
                         | Inr effs2 \<Rightarrow> (None, c3, effs @ effs2))))))"

definition handleEnvelope :: "(bytes \<Rightarrow> string option) \<Rightarrow> (string \<Rightarrow> jsval option) \<Rightarrow> smoke_client
    \<Rightarrow> bytes \<Rightarrow> smoke_outcome" where
  "handleEnvelope utf8 json c env =
    (if length env < envelopeHeaderSize \<or> env ! 0 \<noteq> 1 then (Some InvalidEnvelope, c, [])
     else if length env \<noteq> envelopeHeaderSize + be_dec (seg 16 4 env) then (Some EnvelopeLengthMismatch, c, [])
     else let ty = env ! 1; sid = be_dec (seg 4 8 env); fin = (env ! 2 AND 1 \<noteq> 0) in
       (case map_of (sc_pending c) sid of
          None \<Rightarrow> if sid mod 4 = 1 \<and> ty = 1 then smoke_handlePush utf8 json c sid env else (None, c, [])
        | Some p \<Rightarrow>
          if ty = 2 \<or> ty = 3 then
            (None, c\<lparr>sc_pending := AList.delete sid (sc_pending c)\<rparr>, [SClearTimer sid, SReject sid CanceledByGateway])
          else if ty \<noteq> 1 then (None, c, [])
          else let pl = drop envelopeHeaderSize env;
                   p1 = (if 0 < length pl then p\<lparr>sp_chunks := sp_chunks p @ [pl]\<rparr> else p);
                   effs1 = (if 0 < length pl \<and> sp_onChunk p then [SChunk sid pl fin] else [])
               in if \<not> fin then (None, c\<lparr>sc_pending := AList.update sid p1 (sc_pending c)\<rparr>, effs1)
                  else let c1 = c\<lparr>sc_pending := AList.delete sid (sc_pending c)\<rparr>;
                           response = js_concat (sp_chunks p1);
                           effs2 = effs1 @ [SClearTimer sid]
                       in if sp_noResponse p1 then
                            (if length response = 0 then (None, c1, effs2 @ [SResolve sid NoBody])
                             else (None, c1, effs2 @ [SReject sid UnexpectedBytes]))
                          else if sp_rawResponse p1 then (None, c1, effs2 @ [SResolve sid (RawBytes response)])
                          else (case smoke_decodeFrame response of
                              Inl e \<Rightarrow> (Some e, c1, effs2)
                            | Inr f \<Rightarrow> (None, c1, effs2 @ [SResolve sid (OneFrame f)]))))"

text \<open>Dispatching an envelope neither reads nor changes the input buffer.\<close>

lemma handlePush_input:
  "smoke_handlePush utf8 json (c\<lparr>sc_input := x\<rparr>) sid env =
    (case smoke_handlePush utf8 json c sid env of (e, c', effs) \<Rightarrow> (e, c'\<lparr>sc_input := x\<rparr>, effs))"
  "smoke_handlePush utf8 json c sid env = (e, c', effs) \<Longrightarrow> sc_input c' = sc_input c \<and> sc_upgraded c' = sc_upgraded c"
  by (auto simp: smoke_handlePush_def Let_def split: sum.split sum.splits prod.split prod.splits if_splits)

lemma handleEnvelope_input:
  "handleEnvelope utf8 json (c\<lparr>sc_input := x\<rparr>) env =
    (case handleEnvelope utf8 json c env of (e, c', effs) \<Rightarrow> (e, c'\<lparr>sc_input := x\<rparr>, effs))"
  "handleEnvelope utf8 json c env = (e, c', effs) \<Longrightarrow> sc_input c' = sc_input c \<and> sc_upgraded c' = sc_upgraded c"
  using handlePush_input
  by (auto simp: handleEnvelope_def Let_def split: option.split option.splits sum.split sum.splits if_splits)

text \<open>The body of the loop of \<open>drainWebSocket\<close> after a frame was cut off the input, and the loop.\<close>

definition dispatchFrame :: "(bytes \<Rightarrow> string option) \<Rightarrow> (string \<Rightarrow> jsval option) \<Rightarrow> smoke_client \<Rightarrow> byte \<Rightarrow> bytes
    \<Rightarrow> smoke_outcome" where
  "dispatchFrame utf8 json c first pl =
    (let oc = first AND 0x0f in
     if oc = 0x8 then
       (None, c\<lparr>sc_closeCode := Some (if 2 \<le> length pl then be_dec (seg 0 2 pl) else 1005)\<rparr>, [SEnd])
     else if oc = 0x9 \<or> oc = 0xA then (None, c, [])
     else if oc \<noteq> 0x2 \<or> first AND 0x80 = 0 then (Some UnexpectedServerFrame, c, [])
     else handleEnvelope utf8 json c pl)"

lemma dispatchFrame_input:
  "dispatchFrame utf8 json (c\<lparr>sc_input := x\<rparr>) first pl =
    (case dispatchFrame utf8 json c first pl of (e, c', effs) \<Rightarrow> (e, c'\<lparr>sc_input := x\<rparr>, effs))"
  "dispatchFrame utf8 json c first pl = (e, c', effs) \<Longrightarrow> sc_input c' = sc_input c \<and> sc_upgraded c' = sc_upgraded c"
  using handleEnvelope_input by (auto simp: dispatchFrame_def Let_def split: if_splits)

function drainWebSocket :: "(bytes \<Rightarrow> string option) \<Rightarrow> (string \<Rightarrow> jsval option) \<Rightarrow> smoke_client \<Rightarrow> smoke_outcome" where
  "drainWebSocket utf8 json c =
    (if \<not> sc_upgraded c then (None, c, [])
     else case serverFrame (sc_input c) of
       Inl e \<Rightarrow> (Some e, c, [])
     | Inr None \<Rightarrow> (None, c, [])
     | Inr (Some ((first, pl), n)) \<Rightarrow>
       (case dispatchFrame utf8 json (c\<lparr>sc_input := drop n (sc_input c)\<rparr>) first pl of
          (Some e, c1, effs) \<Rightarrow> (Some e, c1, effs)
        | (None, c1, effs) \<Rightarrow> (case drainWebSocket utf8 json c1 of (e, c2, effs2) \<Rightarrow> (e, c2, effs @ effs2))))"
  by pat_completeness auto
termination
  by (relation "measure (\<lambda>(utf8, json, c). length (sc_input c))")
    (auto dest!: serverFrame_used dispatchFrame_input(2) [OF sym])

declare drainWebSocket.simps [simp del]

lemma drain_item:
  "sc_upgraded c \<Longrightarrow> serverFrame (sc_input c) = Inr (Some ((first, pl), n)) \<Longrightarrow>
    drainWebSocket utf8 json c =
      (case dispatchFrame utf8 json (c\<lparr>sc_input := drop n (sc_input c)\<rparr>) first pl of
          (Some e, c1, effs) \<Rightarrow> (Some e, c1, effs)
        | (None, c1, effs) \<Rightarrow> (case drainWebSocket utf8 json c1 of (e, c2, effs2) \<Rightarrow> (e, c2, effs @ effs2)))"
  by (subst drainWebSocket.simps) simp

lemma drain_error: "sc_upgraded c \<Longrightarrow> serverFrame (sc_input c) = Inl e \<Longrightarrow> drainWebSocket utf8 json c = (Some e, c, [])"
  by (subst drainWebSocket.simps) simp

lemma drain_idle: "sc_upgraded c \<Longrightarrow> serverFrame (sc_input c) = Inr None \<Longrightarrow> drainWebSocket utf8 json c = (None, c, [])"
  by (subst drainWebSocket.simps) simp

lemma drain_not_upgraded: "\<not> sc_upgraded c \<Longrightarrow> drainWebSocket utf8 json c = (None, c, [])"
  by (subst drainWebSocket.simps) simp

text \<open>The socket's \<open>data\<close> handler after the Upgrade, its \<open>close\<close> handler, and \<open>close\<close> itself.\<close>

definition smoke_data :: "(bytes \<Rightarrow> string option) \<Rightarrow> (string \<Rightarrow> jsval option) \<Rightarrow> smoke_client \<Rightarrow> bytes \<Rightarrow> smoke_outcome" where
  "smoke_data utf8 json c chunk = drainWebSocket utf8 json (c\<lparr>sc_input := sc_input c @ chunk\<rparr>)"

definition smoke_socket_closed :: "smoke_client \<Rightarrow> smoke_client \<times> smoke_effect list" where
  "smoke_socket_closed c =
     (c\<lparr>sc_pending := [], sc_waiters := []\<rparr>,
      map (\<lambda>(k, p). SReject k WssClosed) (sc_pending c) @ map (\<lambda>(w, p). WReject w WssClosed) (sc_waiters c))"

subsection \<open>Authentication and commands\<close>

datatype smoke_app_error =
    AuthRejected nat bytes | AuthSessionInvalid | ServiceResponseInvalid | ServiceRefused jsval
  | SmokeBadJson session_error | SmokeNotAnObject

definition smoke_authenticate_frame :: "(jsval \<Rightarrow> bytes) \<Rightarrow> string \<Rightarrow> string \<Rightarrow> string \<Rightarrow> smoke_error + bytes" where
  "smoke_authenticate_frame stringify username password action =
     openFrame stringify 0 0 0x10 0
       (JObj [(''action'', JStr action), (''username'', JStr username), (''password'', JStr password)]) True"

definition smoke_authenticate_response :: "(bytes \<Rightarrow> string option) \<Rightarrow> (string \<Rightarrow> jsval option) \<Rightarrow> js_frame
    \<Rightarrow> smoke_app_error + nat \<times> nat \<times> jsval" where
  "smoke_authenticate_response utf8 json f =
    (if jf_type f \<noteq> 0 \<or> jf_dest f \<noteq> 0 \<or> jf_route f \<noteq> 0x11 \<or> length (jf_body f) < 12
     then Inl (AuthRejected (jf_route f) (jf_body f))
     else let destID = be_dec (seg 0 8 (jf_body f)); ttl = be_dec (seg 8 4 (jf_body f)) in
       (case jsonBody utf8 json (drop 12 (jf_body f)) of Inl e \<Rightarrow> Inl (SmokeBadJson e)
        | Inr session \<Rightarrow> (case (js_get session ''ok'', js_get session ''token'') of
            (Some ok, Some tk) \<Rightarrow>
              if \<not> js_truthy ok \<or> \<not> js_truthy tk then Inl AuthSessionInvalid else Inr (destID, ttl, session)
          | _ \<Rightarrow> Inl SmokeNotAnObject)))"

definition smoke_command_frame :: "(jsval \<Rightarrow> bytes) \<Rightarrow> jsval \<Rightarrow> (string \<times> jsval) list \<Rightarrow> (smoke_error + bytes) \<times> bool" where
  "smoke_command_frame stringify tk request =
    (let noResponse = (map_of request ''type'' = Some (JStr ''typing'')) in
     (openFrame stringify 1 1 2 (if noResponse then 1 else 0) (JObj (AList.update ''token'' tk request)) True,
      noResponse))"

definition smoke_command_response :: "(bytes \<Rightarrow> string option) \<Rightarrow> (string \<Rightarrow> jsval option) \<Rightarrow> js_frame
    \<Rightarrow> smoke_app_error + jsval" where
  "smoke_command_response utf8 json f =
    (if jf_type f \<noteq> 0 \<or> jf_dest f \<noteq> 1 then Inl ServiceResponseInvalid
     else case jsonBody utf8 json (jf_body f) of Inl e \<Rightarrow> Inl (SmokeBadJson e)
     | Inr result \<Rightarrow> (case js_get result ''ok'' of None \<Rightarrow> Inl SmokeNotAnObject
        | Some ok \<Rightarrow> if \<not> js_truthy ok then
            Inl (ServiceRefused (case js_get result ''error'' of None \<Rightarrow> JUndefined
              | Some v \<Rightarrow> if v = JNull then JUndefined else v))
          else Inr result))"

subsection \<open>Properties\<close>

lemma drain_more:
  "smoke_data utf8 json c b = (case drainWebSocket utf8 json c of
      (Some e, c1, effs) \<Rightarrow> (Some e, c1\<lparr>sc_input := sc_input c1 @ b\<rparr>, effs)
    | (None, c1, effs) \<Rightarrow> (case smoke_data utf8 json c1 b of (e, c2, effs2) \<Rightarrow> (e, c2, effs @ effs2)))"
proof (induction "length (sc_input c)" arbitrary: c rule: less_induct)
  case less
  let ?cb = "c\<lparr>sc_input := sc_input c @ b\<rparr>"
  show ?case
  proof (cases "sc_upgraded c")
    case False
    then show ?thesis by (simp add: drain_not_upgraded smoke_data_def)
  next
    case up: True
    then have upb: "sc_upgraded ?cb" by simp
    show ?thesis
    proof (cases "serverFrame (sc_input c)")
      case (Inl e)
      have "serverFrame (sc_input ?cb) = Inl e" using server_stream.error_stable [OF Inl, of b] by simp
      then show ?thesis using drain_error [OF up Inl] drain_error [OF upb] by (simp add: smoke_data_def)
    next
      case (Inr r)
      show ?thesis
      proof (cases r)
        case None
        then show ?thesis using drain_idle [OF up] Inr by (simp split: prod.splits)
      next
        case (Some it)
        then obtain first pl n where x: "serverFrame (sc_input c) = Inr (Some ((first, pl), n))"
          using Inr by (cases it) auto
        note used = serverFrame_used [OF x]
        have x': "serverFrame (sc_input ?cb) = Inr (Some ((first, pl), n))"
          using server_stream.item_stable [OF x, of b] by simp
        let ?c1 = "c\<lparr>sc_input := drop n (sc_input c)\<rparr>"
        obtain e c2 effs where d: "dispatchFrame utf8 json ?c1 first pl = (e, c2, effs)"
          by (cases "dispatchFrame utf8 json ?c1 first pl") auto
        have in2: "sc_input c2 = drop n (sc_input c)" using dispatchFrame_input(2) [OF d] by simp
        have d': "dispatchFrame utf8 json (?cb\<lparr>sc_input := drop n (sc_input ?cb)\<rparr>) first pl
            = (e, c2\<lparr>sc_input := sc_input c2 @ b\<rparr>, effs)"
          using dispatchFrame_input(1) [where c = ?c1 and x = "drop n (sc_input c) @ b", of utf8 json first pl] d used in2 by simp
        note D = drain_item [OF up x, of utf8 json, unfolded d]
        note D' = drain_item [OF upb x', of utf8 json, unfolded d']
        show ?thesis
        proof (cases e)
          case None
          have "smoke_data utf8 json c2 b = (case drainWebSocket utf8 json c2 of
              (Some e, c1, effs) \<Rightarrow> (Some e, c1\<lparr>sc_input := sc_input c1 @ b\<rparr>, effs)
            | (None, c1, effs) \<Rightarrow> (case smoke_data utf8 json c1 b of (e, c2, effs2) \<Rightarrow> (e, c2, effs @ effs2)))"
            using used in2 by (intro less) (simp, linarith)
          then show ?thesis
            using D D' None by (simp add: smoke_data_def split: prod.splits option.splits)
        next
          case (Some err)
          then show ?thesis using D D' by (simp add: smoke_data_def)
        qed
      qed
    qed
  qed
qed

lemma smoke_data_split:
  "smoke_data utf8 json c (a @ b) = (case smoke_data utf8 json c a of
      (Some e, c1, effs) \<Rightarrow> (Some e, c1\<lparr>sc_input := sc_input c1 @ b\<rparr>, effs)
    | (None, c1, effs) \<Rightarrow> (case smoke_data utf8 json c1 b of (e, c2, effs2) \<Rightarrow> (e, c2, effs @ effs2)))"
  using drain_more [of utf8 json "c\<lparr>sc_input := sc_input c @ a\<rparr>" b]
  by (simp add: smoke_data_def)

text \<open>C8: How the gateway's bytes arrive makes no difference to the validation client: two chunks do
  what their concatenation does, message by message, also when a frame or its header is cut between them.\<close>

theorem smoke_data_chunks:
  "smoke_data utf8 json c (a @ b) = (case smoke_data utf8 json c a of
      (Some e, c1, effs) \<Rightarrow> (Some e, c1\<lparr>sc_input := sc_input c1 @ b\<rparr>, effs)
    | (None, c1, effs) \<Rightarrow> (case smoke_data utf8 json c1 b of (e, c2, effs2) \<Rightarrow> (e, c2, effs @ effs2)))"
  by (rule smoke_data_split)

text \<open>The Node client and the browser client take the same frames from the same bytes, and refuse the
  same byte strings.\<close>

theorem decoders_agree:
  "(case smoke_decodeFrames bs of Inl e \<Rightarrow> None | Inr fs \<Rightarrow> Some fs) =
   (case js_decodeFrames bs of Inl e \<Rightarrow> None | Inr fs \<Rightarrow> Some fs)"
  by (simp add: smoke_decodeFrames_def js_decodeFrames_def smoke_loop_agrees)

text \<open>A push settles exactly the waiters whose predicate it meets, each once and in the order they
  were registered; the others keep waiting.\<close>

theorem push_settles_matching_waiters:
  assumes "distinct (map fst ws)"
  shows "settle_waiters event ws ws =
    (filter (\<lambda>(w, p). \<not> p event) ws,
     concat (map (\<lambda>(w, p). if p event then [WClearTimer w, WResolve w event] else []) ws))"
proof -
  have gen: "settle_waiters event ws rest =
    (filter (\<lambda>(k, q). \<forall>(w, p) \<in> set ws. p event \<longrightarrow> k \<noteq> w) rest,
     concat (map (\<lambda>(w, p). if p event then [WClearTimer w, WResolve w event] else []) ws))" for ws rest
  proof (induction ws arbitrary: rest)
    case Nil
    then show ?case by simp
  next
    case (Cons a ws)
    obtain w p where a: "a = (w, p)" by (cases a) auto
    show ?case
    proof (cases "p event")
      case True
      have "filter (\<lambda>(k, q). \<forall>(w, p) \<in> set ws. p event \<longrightarrow> k \<noteq> w) (filter (\<lambda>(k, q). k \<noteq> w) rest)
          = filter (\<lambda>(k, q). \<forall>(w, p) \<in> set (a # ws). p event \<longrightarrow> k \<noteq> w) rest"
        using True a by (simp add: case_prod_unfold)
      then show ?thesis using Cons.IH True a by simp
    next
      case False
      then have "filter (\<lambda>(k, q). \<forall>(w, p) \<in> set ws. p event \<longrightarrow> k \<noteq> w) rest
          = filter (\<lambda>(k, q). \<forall>(w, p) \<in> set (a # ws). p event \<longrightarrow> k \<noteq> w) rest"
        using a by (simp add: case_prod_unfold)
      then show ?thesis using Cons.IH False a by simp
    qed
  qed
  have "filter (\<lambda>(k, q). \<forall>(w, p) \<in> set ws. p event \<longrightarrow> k \<noteq> w) ws = filter (\<lambda>(w, p). \<not> p event) ws"
  proof (rule filter_cong)
    fix x assume x: "x \<in> set ws"
    then show "(case x of (k, q) \<Rightarrow> \<forall>(w, p) \<in> set ws. p event \<longrightarrow> k \<noteq> w) = (case x of (w, p) \<Rightarrow> \<not> p event)"
    proof -
      obtain k q where Pair: "x = (k, q)" by (cases x)
      have mem: "(k, q) \<in> set ws" using x Pair by simp
      have uniq: "p = q" if "(k, p) \<in> set ws" for p
        by (rule eq_key_imp_eq_value [OF assms that mem])
      have "(\<forall>(w, p) \<in> set ws. p event \<longrightarrow> k \<noteq> w) = (\<not> q event)"
        using mem uniq by blast
      then show ?thesis using Pair by simp
    qed
  qed simp
  then show ?thesis by (simp only: gen)
qed

theorem push_settles_matching_waiters_witness:
  "settle_waiters \<lparr>pn_targets = [7], pn_payload = JNull\<rparr>
     [(0, \<lambda>e. pn_targets e = [7]), (1, \<lambda>e. pn_targets e = [8])]
     [(0, \<lambda>e. pn_targets e = [7]), (1, \<lambda>e. pn_targets e = [8])] =
   ([(1, \<lambda>e. pn_targets e = [8])],
    [WClearTimer 0, WResolve 0 \<lparr>pn_targets = [7], pn_payload = JNull\<rparr>])"
  using push_settles_matching_waiters [of "[(0, \<lambda>e. pn_targets e = [7]), (1, \<lambda>e. pn_targets e = [8])]"
      "\<lparr>pn_targets = [7], pn_payload = JNull\<rparr>"] by simp

end

