(* ===== verification/Wss_Upgrade.thy ===== *)
theory Wss_Upgrade
  imports Gw_Prelude "HOL-Library.Char_ord"
begin

section \<open>The HTTP Upgrade (\<open>src/wss/websocket.zig\<close>)\<close>

text \<open>
  The parser of the Upgrade request, the Origin policy, the check of the Host against the TLS server
  name and the 101 response. Bytes are bytes; \<open>ascii\<close> gives those of a literal. SHA-1 followed by
  base64 is a parameter, \<open>digest\<close>.
\<close>

definition ascii :: "string \<Rightarrow> bytes" where
  "ascii s = map of_char s"

definition crlf :: bytes where "crlf = [13, 10]"

definition ws_path :: bytes where "ws_path = ascii ''/lyune/v2''"
definition ws_subprotocol :: bytes where "ws_subprotocol = ascii ''lyune.v2''"
definition max_http_head_size :: nat where "max_http_head_size = 8 * 1024"
definition websocket_guid :: bytes where "websocket_guid = ascii ''258EAFA5-E914-47DA-95CA-C5AB0DC85B11''"

subsection \<open>Byte strings\<close>

text \<open>\<open>std.mem.indexOf\<close>, \<open>splitScalar\<close> and \<open>splitSequence\<close> on CRLF.\<close>

fun index_of :: "'a list \<Rightarrow> 'a list \<Rightarrow> nat option" where
  "index_of pat [] = (if pat = [] then Some 0 else None)"
| "index_of pat (x # xs) =
    (if take (length pat) (x # xs) = pat then Some 0 else map_option Suc (index_of pat xs))"

fun split_on :: "'a \<Rightarrow> 'a list \<Rightarrow> 'a list list" where
  "split_on d [] = [[]]"
| "split_on d (x # xs) = (if x = d then [] # split_on d xs
     else case split_on d xs of [] \<Rightarrow> [[x]] | h # t \<Rightarrow> (x # h) # t)"

fun split_crlf :: "bytes \<Rightarrow> bytes list" where
  "split_crlf [] = [[]]"
| "split_crlf [x] = [[x]]"
| "split_crlf (x # y # r) = (if x = 13 \<and> y = 10 then [] # split_crlf r
     else case split_crlf (y # r) of [] \<Rightarrow> [[x]] | h # t \<Rightarrow> (x # h) # t)"

definition trimOws :: "bytes \<Rightarrow> bytes" where
  "trimOws v = rev (dropWhile (\<lambda>b. b = 32 \<or> b = 9) (rev (dropWhile (\<lambda>b. b = 32 \<or> b = 9) v)))"

definition lower :: "byte \<Rightarrow> byte" where
  "lower b = (if 65 \<le> b \<and> b \<le> 90 then b + 32 else b)"

definition eqlIgnoreCase :: "bytes \<Rightarrow> bytes \<Rightarrow> bool" where
  "eqlIgnoreCase a b \<longleftrightarrow> map lower a = map lower b"

definition isDigit :: "byte \<Rightarrow> bool" where "isDigit b \<longleftrightarrow> 48 \<le> b \<and> b \<le> 57"

definition isAlphanumeric :: "byte \<Rightarrow> bool" where
  "isAlphanumeric b \<longleftrightarrow> isDigit b \<or> (65 \<le> b \<and> b \<le> 90) \<or> (97 \<le> b \<and> b \<le> 122)"

definition containsToken :: "bytes \<Rightarrow> bytes \<Rightarrow> bool" where
  "containsToken v expected \<longleftrightarrow> list_ex (\<lambda>raw. eqlIgnoreCase (trimOws raw) expected) (split_on 44 v)"

definition header_marks :: bytes where
  "header_marks = ascii ''!#$%&'' @ [39] @ ascii ''*+-.^_`|~''"

definition validHeaderName :: "bytes \<Rightarrow> bool" where
  "validHeaderName name \<longleftrightarrow> name \<noteq> [] \<and> list_all (\<lambda>b. isAlphanumeric b \<or> b \<in> set header_marks) name"

definition validHeaderValue :: "bytes \<Rightarrow> bool" where
  "validHeaderValue v \<longleftrightarrow> list_all (\<lambda>b. \<not> (b = 0 \<or> b = 13 \<or> b = 10 \<or> (b < 0x20 \<and> b \<noteq> 9))) v"

text \<open>
  The standard base64 decoder takes a key of 16 bytes exactly if it is 22 characters of the alphabet,
  the last with four zero bits at its end, and two \<open>=\<close>.
\<close>

definition base64_value :: "byte \<Rightarrow> nat option" where
  "base64_value b =
    (if 65 \<le> b \<and> b \<le> 90 then Some (unat b - 65) else if 97 \<le> b \<and> b \<le> 122 then Some (unat b - 71)
     else if isDigit b then Some (unat b + 4) else if b = 43 then Some 62 else if b = 47 then Some 63 else None)"

definition validKey :: "bytes \<Rightarrow> bool" where
  "validKey key \<longleftrightarrow> length key = 24 \<and> drop 22 key = [61, 61]
     \<and> list_all (\<lambda>b. base64_value b \<noteq> None) (take 22 key)
     \<and> (case base64_value (key ! 21) of None \<Rightarrow> False | Some v \<Rightarrow> v mod 16 = 0)"

subsection \<open>The parser\<close>

datatype upgrade_error =
    NeedMore | HeaderTooLarge | MalformedRequest | WrongMethodOrVersion | WrongPath | MissingHost
  | DuplicateHost | MissingUpgrade | MissingConnectionUpgrade | MissingWebSocketKey
  | DuplicateWebSocketKey | InvalidWebSocketKey | WrongWebSocketVersion | DuplicateWebSocketVersion
  | MissingSubprotocol | DuplicateOrigin

record upgrade_request =
  ur_key :: bytes
  ur_origin :: "bytes option"
  ur_host :: bytes
  ur_consumed :: nat

text \<open>The local variables of the loop over the header lines.\<close>

record upgrade_vars =
  uv_host :: "bytes option"
  uv_key :: "bytes option"
  uv_origin :: "bytes option"
  uv_upgrade :: bool
  uv_connection :: bool
  uv_version13 :: bool
  uv_versionSeen :: bool
  uv_protocol :: bool

definition upgrade_vars0 :: upgrade_vars where
  "upgrade_vars0 = \<lparr>uv_host = None, uv_key = None, uv_origin = None, uv_upgrade = False,
     uv_connection = False, uv_version13 = False, uv_versionSeen = False, uv_protocol = False\<rparr>"

definition header_field :: "upgrade_vars \<Rightarrow> bytes \<Rightarrow> bytes \<Rightarrow> upgrade_error + upgrade_vars" where
  "header_field v name val =
    (if eqlIgnoreCase name (ascii ''host'') then
       (if uv_host v \<noteq> None then Inl DuplicateHost else Inr (v\<lparr>uv_host := Some val\<rparr>))
     else if eqlIgnoreCase name (ascii ''upgrade'') then
       Inr (v\<lparr>uv_upgrade := uv_upgrade v \<or> containsToken val (ascii ''websocket'')\<rparr>)
     else if eqlIgnoreCase name (ascii ''connection'') then
       Inr (v\<lparr>uv_connection := uv_connection v \<or> containsToken val (ascii ''upgrade'')\<rparr>)
     else if eqlIgnoreCase name (ascii ''sec-websocket-key'') then
       (if uv_key v \<noteq> None then Inl DuplicateWebSocketKey else Inr (v\<lparr>uv_key := Some val\<rparr>))
     else if eqlIgnoreCase name (ascii ''sec-websocket-version'') then
       (if uv_versionSeen v then Inl DuplicateWebSocketVersion
        else Inr (v\<lparr>uv_versionSeen := True, uv_version13 := (val = ascii ''13'')\<rparr>))
     else if eqlIgnoreCase name (ascii ''sec-websocket-protocol'') then
       Inr (v\<lparr>uv_protocol := uv_protocol v \<or> containsToken val ws_subprotocol\<rparr>)
     else if eqlIgnoreCase name (ascii ''origin'') then
       (if uv_origin v \<noteq> None then Inl DuplicateOrigin else Inr (v\<lparr>uv_origin := Some val\<rparr>))
     else Inr v)"

definition header_line :: "upgrade_vars \<Rightarrow> bytes \<Rightarrow> upgrade_error + upgrade_vars" where
  "header_line v line =
    (if line = [] \<or> line ! 0 = 32 \<or> line ! 0 = 9 then Inl MalformedRequest
     else case index_of [58] line of None \<Rightarrow> Inl MalformedRequest
     | Some colon \<Rightarrow>
       let name = take colon line; val = trimOws (drop (colon + 1) line) in
       if \<not> validHeaderName name \<or> \<not> validHeaderValue val then Inl MalformedRequest
       else header_field v name val)"

fun header_lines :: "upgrade_vars \<Rightarrow> bytes list \<Rightarrow> upgrade_error + upgrade_vars" where
  "header_lines v [] = Inr v"
| "header_lines v (l # ls) = (case header_line v l of Inl e \<Rightarrow> Inl e | Inr v1 \<Rightarrow> header_lines v1 ls)"

definition upgrade_checks :: "upgrade_vars \<Rightarrow> nat \<Rightarrow> upgrade_error + upgrade_request" where
  "upgrade_checks v consumed = (case uv_host v of None \<Rightarrow> Inl MissingHost
   | Some host \<Rightarrow>
     if host = [] then Inl MissingHost
     else if \<not> uv_upgrade v then Inl MissingUpgrade
     else if \<not> uv_connection v then Inl MissingConnectionUpgrade
     else case uv_key v of None \<Rightarrow> Inl MissingWebSocketKey
     | Some key \<Rightarrow>
       if \<not> validKey key then Inl InvalidWebSocketKey
       else if \<not> uv_version13 v then Inl WrongWebSocketVersion
       else if \<not> uv_protocol v then Inl MissingSubprotocol
       else Inr \<lparr>ur_key = key, ur_origin = uv_origin v, ur_host = host, ur_consumed = consumed\<rparr>)"

definition request_line :: "bytes \<Rightarrow> upgrade_error + unit" where
  "request_line line = (case split_on 32 line of
      [meth, target, http_version] \<Rightarrow>
        if meth \<noteq> ascii ''GET'' \<or> http_version \<noteq> ascii ''HTTP/1.1'' then Inl WrongMethodOrVersion
        else if target \<noteq> ws_path then Inl WrongPath else Inr ()
    | _ \<Rightarrow> Inl MalformedRequest)"

definition upgrade_lines :: "bytes \<Rightarrow> bytes list \<Rightarrow> nat \<Rightarrow> upgrade_error + upgrade_request" where
  "upgrade_lines line ls consumed = (case request_line line of Inl e \<Rightarrow> Inl e
   | Inr _ \<Rightarrow> (case header_lines upgrade_vars0 ls of Inl e \<Rightarrow> Inl e | Inr v \<Rightarrow> upgrade_checks v consumed))"

definition parseUpgrade :: "bytes \<Rightarrow> upgrade_error + upgrade_request" where
  "parseUpgrade input = (case index_of (crlf @ crlf) input of
      None \<Rightarrow> Inl (if max_http_head_size < length input then HeaderTooLarge else NeedMore)
    | Some end_pos \<Rightarrow>
      let consumed = end_pos + 4 in
      if max_http_head_size < consumed then Inl HeaderTooLarge
      else let head = take end_pos input in
        (case index_of crlf head of None \<Rightarrow> Inl MalformedRequest
         | Some first_end \<Rightarrow> upgrade_lines (take first_end head) (split_crlf (drop (first_end + 2) head)) consumed))"

subsection \<open>Policy and response\<close>

record origin_policy =
  op_allowed :: "bytes list"
  op_allow_missing :: bool

definition origin_allows :: "origin_policy \<Rightarrow> bytes option \<Rightarrow> bool" where
  "origin_allows p origin = (case origin of None \<Rightarrow> op_allow_missing p | Some v \<Rightarrow> v \<in> set (op_allowed p))"

definition dec_value :: "bytes \<Rightarrow> nat" where
  "dec_value ds = foldl (\<lambda>n d. n * 10 + (unat d - 48)) 0 ds"

definition hostMatchesServerName :: "bytes \<Rightarrow> bytes option \<Rightarrow> bool" where
  "hostMatchesServerName host server_name = (case server_name of None \<Rightarrow> False
   | Some expected \<Rightarrow>
     if eqlIgnoreCase host expected then True
     else if length host \<le> length expected + 1 \<or> host ! length expected \<noteq> 58 then False
     else if \<not> eqlIgnoreCase (take (length expected) host) expected then False
     else let port_text = drop (length expected + 1) host in
       if \<not> list_all isDigit port_text then False
       else if 65535 < dec_value port_text then False else dec_value port_text \<noteq> 0)"

text \<open>The response is printed into a buffer of the given size.\<close>

definition upgrade_response :: "bytes \<Rightarrow> bytes" where
  "upgrade_response accept = ascii ''HTTP/1.1 101 Switching Protocols'' @ crlf
     @ ascii ''Upgrade: websocket'' @ crlf @ ascii ''Connection: Upgrade'' @ crlf
     @ ascii ''Sec-WebSocket-Accept: '' @ accept @ crlf
     @ ascii ''Sec-WebSocket-Protocol: '' @ ws_subprotocol @ crlf @ crlf"

datatype response_error = ResponseKeyInvalid | NoSpaceLeft

definition buildUpgradeResponse :: "(bytes \<Rightarrow> bytes) \<Rightarrow> nat \<Rightarrow> bytes \<Rightarrow> response_error + bytes" where
  "buildUpgradeResponse digest out_size key =
    (if \<not> validKey key then Inl ResponseKeyInvalid
     else let r = upgrade_response (digest (key @ websocket_guid)) in
       if out_size < length r then Inl NoSpaceLeft else Inr r)"

subsection \<open>What the parser reads\<close>

lemma index_of_skip:
  "d \<notin> set l \<Longrightarrow> index_of (d # pat) (l @ s) = map_option (\<lambda>n. length l + n) (index_of (d # pat) s)"
proof (induction l)
  case Nil
  then show ?case by (cases "index_of (d # pat) s") auto
next
  case (Cons x l)
  then show ?case by (cases "index_of (d # pat) s") auto
qed

lemma index_of_here: "pat \<noteq> [] \<Longrightarrow> index_of pat (pat @ s) = Some 0"
  by (cases pat) auto

lemma split_on_skip: "d \<notin> set l \<Longrightarrow> split_on d (l @ d # s) = l # split_on d s"
  by (induction l) auto

lemma split_on_last: "d \<notin> set l \<Longrightarrow> split_on d l = [l]"
  by (induction l) auto

lemma split_crlf_skip: "13 \<notin> set l \<Longrightarrow> split_crlf (l @ 13 # 10 # s) = l # split_crlf s"
proof (induction l rule: induct_list012)
  case (3 x y zs)
  then show ?case by (auto split: list.split)
qed (auto split: list.split)

lemma split_crlf_last: "13 \<notin> set l \<Longrightarrow> split_crlf l = [l]"
  by (induction l rule: induct_list012) auto

text \<open>A request as its lines: none is empty or holds a CR.\<close>

definition plain_lines :: "bytes list \<Rightarrow> bool" where
  "plain_lines ls \<longleftrightarrow> (\<forall>l \<in> set ls. l \<noteq> [] \<and> 13 \<notin> set l)"

definition with_crlf :: "bytes list \<Rightarrow> bytes" where
  "with_crlf ls = concat (map (\<lambda>l. l @ crlf) ls)"

fun joined :: "bytes list \<Rightarrow> bytes" where
  "joined [] = []"
| "joined [l] = l"
| "joined (l # m # ls) = l @ crlf @ joined (m # ls)"

lemma with_crlf_joined: "ls \<noteq> [] \<Longrightarrow> with_crlf ls = joined ls @ crlf"
  by (induction ls rule: joined.induct) (auto simp: with_crlf_def)

lemma split_joined: "plain_lines ls \<Longrightarrow> ls \<noteq> [] \<Longrightarrow> split_crlf (joined ls) = ls"
  by (induction ls rule: joined.induct) (auto simp: plain_lines_def crlf_def split_crlf_skip split_crlf_last)

lemma head_end:
  "plain_lines ls \<Longrightarrow> ls \<noteq> [] \<Longrightarrow> index_of (crlf @ crlf) (joined ls @ crlf @ crlf @ rest) = Some (length (joined ls))"
proof (induction ls rule: joined.induct)
  case (2 l)
  then show ?case
    using index_of_skip [of 13 l "[10, 13, 10]" "crlf @ crlf @ rest"] by (simp add: plain_lines_def crlf_def)
next
  case (3 l m ls)
  then obtain c m' where m: "m = c # m'" "c \<noteq> 13" by (cases m) (auto simp: plain_lines_def)
  obtain j where j: "joined (m # ls) = c # j"
    using m by (cases ls) auto
  have "index_of (crlf @ crlf) (13 # 10 # joined (m # ls) @ crlf @ crlf @ rest) =
      map_option (\<lambda>n. n + 2) (index_of (crlf @ crlf) (joined (m # ls) @ crlf @ crlf @ rest))"
    using m(2) j by (simp add: crlf_def option.map_comp comp_def)
  also have "\<dots> = Some (length (joined (m # ls)) + 2)"
    using 3 by (simp add: plain_lines_def)
  finally show ?case
    using 3(2) index_of_skip [of 13 l "[10, 13, 10]" "13 # 10 # joined (m # ls) @ crlf @ crlf @ rest"]
    by (simp add: plain_lines_def crlf_def)
qed simp

text \<open>The parser takes a complete request apart into exactly its lines.\<close>

lemma parseUpgrade_lines:
  assumes "plain_lines (l # ls)" "ls \<noteq> []"
  shows "parseUpgrade (with_crlf (l # ls) @ crlf @ rest) =
    (if max_http_head_size < length (with_crlf (l # ls)) + 2 then Inl HeaderTooLarge
     else upgrade_lines l ls (length (with_crlf (l # ls)) + 2))"
proof -
  let ?j = "joined (l # ls)"
  have w: "with_crlf (l # ls) = ?j @ crlf" by (rule with_crlf_joined) simp
  have e: "index_of (crlf @ crlf) (?j @ crlf @ crlf @ rest) = Some (length ?j)"
    by (rule head_end [OF assms(1)]) simp
  obtain m ms where ls: "ls = m # ms" using assms(2) by (cases ls) auto
  have first: "index_of crlf ?j = Some (length l)"
    using assms(1) index_of_skip [of 13 l "[10]" "crlf @ joined ls"] ls by (simp add: plain_lines_def crlf_def)
  have rest: "drop (length l + 2) ?j = joined ls" "take (length l) ?j = l"
    using ls by (simp_all add: crlf_def)
  have "split_crlf (joined ls) = ls"
    by (rule split_joined) (use assms in \<open>simp_all add: plain_lines_def\<close>)
  then show ?thesis
    using e first rest by (simp add: parseUpgrade_def w crlf_def eval_nat_numeral)
qed

text \<open>A header line as a name and a value.\<close>

lemma ascii_simps [simp]: "ascii [] = []" "ascii (c # cs) = of_char c # ascii cs" "length (ascii s) = length s"
  by (simp_all add: ascii_def)

lemma ascii_append: "ascii (s @ t) = ascii s @ ascii t"
  by (simp add: ascii_def)

lemma validHeaderName_plain:
  assumes "validHeaderName n"
  shows "n \<noteq> []" "58 \<notin> set n" "13 \<notin> set n" "n ! 0 \<noteq> 32" "n ! 0 \<noteq> 9"
proof -
  have ok: "isAlphanumeric b \<or> b \<in> set header_marks" if "b \<in> set n" for b
    using assms that by (auto simp: validHeaderName_def list_all_iff)
  have bad: "\<not> (isAlphanumeric b \<or> b \<in> set header_marks)" if "b \<in> {58, 13, 32, 9}" for b :: byte
    using that by (auto simp: isAlphanumeric_def isDigit_def header_marks_def)
  show ne: "n \<noteq> []" using assms by (simp add: validHeaderName_def)
  show "58 \<notin> set n" "13 \<notin> set n" using ok bad by blast+
  have "n ! 0 \<in> set n" using ne by simp
  then show "n ! 0 \<noteq> 32" "n ! 0 \<noteq> 9" using ok bad by (metis insertCI)+
qed

definition header_text :: "bytes \<Rightarrow> bytes \<Rightarrow> bytes" where
  "header_text name val = name @ [58, 32] @ val"

lemma header_line_text:
  assumes "validHeaderName n" "validHeaderValue (trimOws (32 # x))"
  shows "header_line v (header_text n x) = header_field v n (trimOws (32 # x))"
proof -
  note n = validHeaderName_plain [OF assms(1)]
  have "index_of [58] (n @ 58 # 32 # x) = Some (length n)"
    using index_of_skip [OF n(2), of "[]" "58 # 32 # x"] by simp
  moreover have "(n @ 58 # 32 # x) ! 0 = n ! 0" using n(1) by (simp add: nth_append)
  ultimately show ?thesis
    using n assms by (simp add: header_line_def header_text_def Let_def)
qed

lemma trimOws_lead: "trimOws (32 # x) = trimOws x"
  by (simp add: trimOws_def)

lemma trimOws_id:
  assumes "x \<noteq> []" "hd x \<notin> {32, 9}" "last x \<notin> {32, 9}"
  shows "trimOws x = x"
proof -
  have "dropWhile (\<lambda>b. b = 32 \<or> b = 9) x = x" using assms by (simp add: dropWhile_eq_self_iff)
  moreover have "dropWhile (\<lambda>b. b = 32 \<or> b = 9) (rev x) = rev x"
    using assms by (simp add: dropWhile_eq_self_iff hd_rev)
  ultimately show ?thesis by (simp add: trimOws_def)
qed

lemma length_upgrade_response: "length (upgrade_response accept) = 135 + length accept"
  by (simp add: upgrade_response_def crlf_def ws_subprotocol_def)

end
