(* ===== verification/Smoke_Connect.thy ===== *)
theory Smoke_Connect
  imports Smoke_Client Wss_Upgrade
begin

section \<open>Connecting the validation client (\<open>validation/wss-smoke.mjs\<close>, \<open>connect\<close> and \<open>waitForClose\<close>)\<close>

text \<open>
  \<open>connect\<close> as the events its listeners handle: the TLS connection, data, the timer, an error, the
  close. The link is the client with its socket: whether the socket is destroyed, whether the connect
  timer is armed, and the promise of \<open>connect\<close> (\<open>None\<close> while open). What is written to the socket is
  an effect.
\<close>

datatype connect_error = ConnectTimeoutError | TlsFailed | UpgradeRejected | InvalidAccept | ClosedEarly

record smoke_link =
  sl_client :: smoke_client
  sl_key :: bytes
  sl_timer :: bool
  sl_destroyed :: bool
  sl_promise :: "(connect_error + unit) option"

definition smoke_host :: bytes where "smoke_host = ascii ''localhost:8444''"
definition smoke_origin :: bytes where "smoke_origin = ascii ''http://127.0.0.1:5173''"

definition smoke_upgrade_request :: "bytes \<Rightarrow> bytes" where
  "smoke_upgrade_request key =
     ascii ''GET /lyune/v2 HTTP/1.1'' @ crlf
     @ ascii ''Host: '' @ smoke_host @ crlf
     @ ascii ''Origin: '' @ smoke_origin @ crlf
     @ ascii ''Upgrade: websocket'' @ crlf
     @ ascii ''Connection: Upgrade'' @ crlf
     @ ascii ''Sec-WebSocket-Version: 13'' @ crlf
     @ ascii ''Sec-WebSocket-Key: '' @ key @ crlf
     @ ascii ''Sec-WebSocket-Protocol: lyune.v2'' @ crlf @ crlf"

definition connect_start :: "bytes \<Rightarrow> smoke_link" where
  "connect_start key = \<lparr>sl_client = smoke_new, sl_key = key, sl_timer = True, sl_destroyed = False, sl_promise = None\<rparr>"

text \<open>A promise keeps its first outcome.\<close>

definition settle_link :: "smoke_link \<Rightarrow> connect_error + unit \<Rightarrow> smoke_link" where
  "settle_link l res = (case sl_promise l of None \<Rightarrow> l\<lparr>sl_promise := Some res\<rparr> | Some r \<Rightarrow> l)"

definition connect_secure :: "smoke_link \<Rightarrow> smoke_link \<times> smoke_effect list" where
  "connect_secure l = (l, [SRaw (smoke_upgrade_request (sl_key l))])"

definition connect_timeout :: "smoke_link \<Rightarrow> smoke_link" where
  "connect_timeout l = settle_link (l\<lparr>sl_timer := False, sl_destroyed := True\<rparr>) (Inl ConnectTimeoutError)"

definition connect_error :: "smoke_link \<Rightarrow> smoke_link" where
  "connect_error l = settle_link l (Inl TlsFailed)"

text \<open>The tests on the response head; \<open>toString('ascii')\<close> clears the top bit of each byte.\<close>

fun any_suffix :: "('a list \<Rightarrow> bool) \<Rightarrow> 'a list \<Rightarrow> bool" where
  "any_suffix p [] = p []"
| "any_suffix p (x # xs) = (p (x # xs) \<or> any_suffix p xs)"

definition js_blank :: "byte \<Rightarrow> bool" where "js_blank b \<longleftrightarrow> b = 32 \<or> (9 \<le> b \<and> b \<le> 13)"

definition starts_with :: "bytes \<Rightarrow> bytes \<Rightarrow> bool" where
  "starts_with pat s \<longleftrightarrow> take (length pat) s = pat"

text \<open>\<open>/Sec-WebSocket-Protocol:\s*lyune\.v2/i\<close>, on a head in lower case.\<close>

definition protocol_confirmed :: "bytes \<Rightarrow> bool" where
  "protocol_confirmed low = any_suffix (\<lambda>s. starts_with (ascii ''sec-websocket-protocol:'') s
     \<and> starts_with ws_subprotocol (dropWhile js_blank (drop 23 s))) low"

definition ascii_head :: "bytes \<Rightarrow> bytes" where "ascii_head bs = map (\<lambda>b. b AND 0x7f) bs"

definition head_accepted :: "(bytes \<Rightarrow> bytes) \<Rightarrow> bytes \<Rightarrow> bytes \<Rightarrow> connect_error + unit" where
  "head_accepted digest key head =
    (if \<not> starts_with (ascii ''HTTP/1.1 101 '') head \<or> \<not> protocol_confirmed (map lower head) then Inl UpgradeRejected
     else if index_of (map lower (ascii ''sec-websocket-accept: '' @ digest (key @ websocket_guid))) (map lower head) = None
     then Inl InvalidAccept else Inr ())"

definition connect_data :: "(bytes \<Rightarrow> bytes) \<Rightarrow> (bytes \<Rightarrow> string option) \<Rightarrow> (string \<Rightarrow> jsval option)
    \<Rightarrow> smoke_link \<Rightarrow> bytes \<Rightarrow> smoke_error option \<times> smoke_link \<times> smoke_effect list" where
  "connect_data digest utf8 json l chunk =
    (let c = (sl_client l)\<lparr>sc_input := sc_input (sl_client l) @ chunk\<rparr> in
     if \<not> sc_upgraded c then
       (case index_of (crlf @ crlf) (sc_input c) of
          None \<Rightarrow> (None, l\<lparr>sl_client := c\<rparr>, [])
        | Some end_pos \<Rightarrow>
          let head = ascii_head (take (end_pos + 4) (sc_input c));
              c1 = c\<lparr>sc_input := drop (end_pos + 4) (sc_input c)\<rparr>
          in (case head_accepted digest (sl_key l) head of
                Inl e \<Rightarrow> (None, settle_link (l\<lparr>sl_client := c1, sl_destroyed := True\<rparr>) (Inl e), [])
              | Inr _ \<Rightarrow>
                (case drainWebSocket utf8 json (c1\<lparr>sc_upgraded := True\<rparr>) of
                   (err, c2, effs) \<Rightarrow> (err, settle_link (l\<lparr>sl_client := c2, sl_timer := False\<rparr>) (Inr ()), effs))))
     else (case drainWebSocket utf8 json c of (err, c1, effs) \<Rightarrow> (err, l\<lparr>sl_client := c1\<rparr>, effs)))"

definition connect_closed :: "smoke_link \<Rightarrow> smoke_link \<times> smoke_effect list" where
  "connect_closed l =
    (let l1 = l\<lparr>sl_timer := False, sl_destroyed := True\<rparr>;
         l2 = (if \<not> sc_upgraded (sl_client l) then settle_link l1 (Inl ClosedEarly) else l1)
     in (case smoke_socket_closed (sl_client l) of (c, effs) \<Rightarrow> (l2\<lparr>sl_client := c\<rparr>, effs)))"

subsection \<open>Waiting for the close\<close>

text \<open>
  The promise of \<open>waitForClose\<close>: resolved at once on a destroyed socket, else by the socket's close or
  rejected by the timer, whichever comes first.
\<close>

datatype close_wait = CloseWaiting | CloseResolved "nat option" | CloseTimedOut

definition waitForClose :: "smoke_link \<Rightarrow> close_wait" where
  "waitForClose l = (if sl_destroyed l then CloseResolved (sc_closeCode (sl_client l)) else CloseWaiting)"

definition waitForClose_closed :: "smoke_link \<Rightarrow> close_wait \<Rightarrow> close_wait" where
  "waitForClose_closed l w = (if w = CloseWaiting then CloseResolved (sc_closeCode (sl_client l)) else w)"

definition waitForClose_timeout :: "close_wait \<Rightarrow> close_wait" where
  "waitForClose_timeout w = (if w = CloseWaiting then CloseTimedOut else w)"

subsection \<open>Runs of \<open>connect\<close>\<close>

inductive connect_step :: "(bytes \<Rightarrow> bytes) \<Rightarrow> (bytes \<Rightarrow> string option) \<Rightarrow> (string \<Rightarrow> jsval option)
    \<Rightarrow> smoke_link \<Rightarrow> smoke_link \<Rightarrow> bool"
  for digest utf8 json where
  link_secure: "\<not> sl_destroyed l \<Longrightarrow> connect_step digest utf8 json l (fst (connect_secure l))"
| link_data: "\<not> sl_destroyed l \<Longrightarrow> connect_data digest utf8 json l chunk = (err, l', effs) \<Longrightarrow>
    connect_step digest utf8 json l l'"
| link_timeout: "sl_timer l \<Longrightarrow> connect_step digest utf8 json l (connect_timeout l)"
| link_error: "connect_step digest utf8 json l (connect_error l)"
| link_closed: "connect_closed l = (l', effs) \<Longrightarrow> connect_step digest utf8 json l l'"

inductive connect_reach :: "(bytes \<Rightarrow> bytes) \<Rightarrow> (bytes \<Rightarrow> string option) \<Rightarrow> (string \<Rightarrow> jsval option)
    \<Rightarrow> smoke_link \<Rightarrow> smoke_link \<Rightarrow> bool"
  for digest utf8 json l where
  link_refl: "connect_reach digest utf8 json l l"
| link_trans: "connect_reach digest utf8 json l l' \<Longrightarrow> connect_step digest utf8 json l' l'' \<Longrightarrow> connect_reach digest utf8 json l l''"

text \<open>The promise is open only while the socket lives, the timer runs and the upgrade is not done.\<close>

definition link_inv :: "smoke_link \<Rightarrow> bool" where
  "link_inv l \<longleftrightarrow> (sl_promise l = None \<longrightarrow> \<not> sl_destroyed l \<and> sl_timer l \<and> \<not> sc_upgraded (sl_client l))
     \<and> (sl_promise l = Some (Inr ()) \<longrightarrow> sc_upgraded (sl_client l))"

lemma drain_upgraded: "drainWebSocket utf8 json c = (err, c', effs) \<Longrightarrow> sc_upgraded c' = sc_upgraded c"
proof (induction utf8 json c arbitrary: err c' effs rule: drainWebSocket.induct)
  case (1 utf8 json c)
  show ?case
  proof (cases "sc_upgraded c")
    case up: True
    show ?thesis
    proof (cases "serverFrame (sc_input c)")
      case (Inl e)
      then show ?thesis using 1(2) up by (simp add: drain_error)
    next
      case (Inr r)
      show ?thesis
      proof (cases r)
        case None
        then show ?thesis using 1(2) up Inr by (simp add: drain_idle)
      next
        case (Some p)
        then obtain first pl n where p: "serverFrame (sc_input c) = Inr (Some ((first, pl), n))"
          using Inr by (cases p) auto
        obtain e1 c1 effs1 where d: "dispatchFrame utf8 json (c\<lparr>sc_input := drop n (sc_input c)\<rparr>) first pl = (e1, c1, effs1)"
          by (cases "dispatchFrame utf8 json (c\<lparr>sc_input := drop n (sc_input c)\<rparr>) first pl") auto
        have u1: "sc_upgraded c1 = sc_upgraded c" using dispatchFrame_input(2) [OF d] by simp
        obtain e2 c2 effs2 where r2: "drainWebSocket utf8 json c1 = (e2, c2, effs2)"
          by (cases "drainWebSocket utf8 json c1") auto
        show ?thesis
        proof (cases e1)
          case None
          then have "sc_upgraded c2 = sc_upgraded c1" using 1(1) up p d r2 by fastforce
          then show ?thesis using 1(2) u1 None d r2 by (simp add: drain_item [OF up p])
        next
          case (Some e)
          then show ?thesis using 1(2) u1 d by (simp add: drain_item [OF up p])
        qed
      qed
    qed
  next
    case False
    then show ?thesis using 1(2) by (simp add: drain_not_upgraded)
  qed
qed

lemma link_inv_step: "link_inv l \<Longrightarrow> connect_step digest utf8 json l l' \<Longrightarrow> link_inv l'"
proof (erule connect_step.cases)
  fix l1 chunk err l1' effs
  assume "link_inv l" "l = l1" "l' = l1'" "connect_data digest utf8 json l1 chunk = (err, l1', effs)"
  then show "link_inv l'"
    by (auto simp: link_inv_def connect_data_def settle_link_def Let_def dest!: drain_upgraded
        split: if_splits option.splits sum.splits prod.splits)
qed (auto simp: link_inv_def connect_secure_def connect_timeout_def connect_error_def connect_closed_def
    settle_link_def smoke_socket_closed_def Let_def split: option.splits if_splits)

lemma connect_reach_inv: "connect_reach digest utf8 json l l' \<Longrightarrow> link_inv l \<Longrightarrow> link_inv l'"
  by (induction rule: connect_reach.induct) (auto intro: link_inv_step)

text \<open>C24: The promise of \<open>connect\<close> is never left open: while it is, the socket lives and the timer is
  running; once the timer has fired or the socket is closed it is settled. It is resolved only after
  the upgrade was accepted, and what it was settled with stays.\<close>

theorem connect_always_settles:
  assumes "connect_reach digest utf8 json (connect_start key) l"
  shows "(sl_promise l = None \<longrightarrow> \<not> sl_destroyed l \<and> sl_timer l)
    \<and> sl_promise (connect_timeout l) \<noteq> None \<and> sl_promise (fst (connect_closed l)) \<noteq> None
    \<and> (sl_promise l = Some (Inr ()) \<longrightarrow> sc_upgraded (sl_client l))
    \<and> (\<forall>l' r. connect_reach digest utf8 json l l' \<longrightarrow> sl_promise l = Some r \<longrightarrow> sl_promise l' = Some r)"
proof -
  have inv: "link_inv l"
    by (rule connect_reach_inv [OF assms]) (simp add: link_inv_def connect_start_def smoke_new_def)
  have keep: "sl_promise l'' = Some r" if "connect_step digest utf8 json l' l''" "sl_promise l' = Some r" for l' l'' r
    using that by (cases rule: connect_step.cases)
      (auto simp: connect_secure_def connect_timeout_def connect_error_def connect_closed_def connect_data_def
        settle_link_def Let_def split: option.splits if_splits sum.splits prod.splits)
  have stays: "sl_promise l' = Some r" if "connect_reach digest utf8 json l l'" "sl_promise l = Some r" for l' r
    using that by induction (auto intro: keep)
  show ?thesis
    using inv stays by (auto simp: link_inv_def connect_timeout_def connect_closed_def settle_link_def Let_def
        split: option.splits prod.splits)
qed

theorem connect_always_settles_witness:
  "sl_promise (connect_timeout (connect_start (ascii ''k''))) = Some (Inl ConnectTimeoutError)
   \<and> sl_promise (fst (connect_closed (connect_start (ascii ''k'')))) \<noteq> None"
  using connect_always_settles [OF link_refl [of "\<lambda>_. []" "\<lambda>_. None" "\<lambda>_. None" "connect_start (ascii ''k'')"]]
  by (simp add: connect_timeout_def settle_link_def connect_start_def)

end
