(* ===== verification/Script.thy ===== *)
theory Script
  imports Smoke_Connect
begin

section \<open>Asynchronous scripts\<close>

text \<open>
  The validation scripts (\<open>validation/*.mjs\<close>) are sequential \<open>async\<close> code: they start calls of their
  clients, \<open>await\<close> the promises, read the clock, and throw. A script is the tree of what it asks its
  environment next and how it goes on with the answer. The environment is everything else: the clients
  and the gateway behind them, the clock, the processes. A run is the list of questions with the
  answers they got, and \<open>play\<close> checks that a list is a run and computes its outcome. Mutable variables
  that a \<open>finally\<close> reads are the record \<open>'v\<close>. Loops that wait carry fuel; to run out of it is the
  outcome \<open>OutOfFuel\<close>, which no code catches.

  A run is what the script does until it returns or throws. Node can end a process from elsewhere, without the
  script's \<open>finally\<close>: when a promise rejects to which no handler is attached, or when a listener of a socket
  throws. Such an end is a run that stops short, with no outcome here; \<open>Script_Rejections\<close> says when the first
  can happen.
\<close>

subsection \<open>JavaScript values and errors\<close>

datatype script_error = Err string | ErrJson string jsval | TypeErr | RangeErr

text \<open>\<open>ErrJson\<close> is a message that ends in \<open>JSON.stringify\<close> of the value. \<open>String(error)\<close>, without that text:\<close>

fun error_text :: "script_error \<Rightarrow> string" where
  "error_text (Err m) = ''Error: '' @ m"
| "error_text (ErrJson m j) = ''Error: '' @ m"
| "error_text TypeErr = ''TypeError''"
| "error_text RangeErr = ''RangeError''"

fun nullish :: "jsval \<Rightarrow> bool" where
  "nullish JUndefined = True"
| "nullish JNull = True"
| "nullish _ = False"

text \<open>\<open>===\<close> of values from different JSON texts: objects and arrays are never the same.\<close>

fun js_same :: "jsval \<Rightarrow> jsval \<Rightarrow> bool" where
  "js_same JUndefined JUndefined = True"
| "js_same JNull JNull = True"
| "js_same (JBool a) (JBool b) = (a = b)"
| "js_same (JNum a) (JNum b) = (a = b)"
| "js_same (JStr a) (JStr b) = (a = b)"
| "js_same _ _ = False"

text \<open>A chain of property reads; an optional one ends the chain on \<open>null\<close> and \<open>undefined\<close>.\<close>

datatype js_read = Dot string | Opt string

fun js_path :: "jsval \<Rightarrow> js_read list \<Rightarrow> jsval option" where
  "js_path v [] = Some v"
| "js_path v (Dot k # ks) = (case js_get v k of None \<Rightarrow> None | Some w \<Rightarrow> js_path w ks)"
| "js_path v (Opt k # ks) =
    (if nullish v then Some JUndefined
     else (case js_get v k of None \<Rightarrow> None | Some w \<Rightarrow> js_path w ks))"

declare js_path.simps [simp del]

text \<open>Conditions; \<open>None\<close> is a \<open>TypeError\<close>.\<close>

definition falsy :: "jsval option \<Rightarrow> bool option" where
  "falsy v = map_option (\<lambda>x. \<not> js_truthy x) v"

definition differ :: "jsval option \<Rightarrow> jsval option \<Rightarrow> bool option" where
  "differ a b = (case (a, b) of (Some x, Some y) \<Rightarrow> Some (\<not> js_same x y) | _ \<Rightarrow> None)"

definition js_or :: "bool option \<Rightarrow> bool option \<Rightarrow> bool option" where
  "js_or a b = (case a of None \<Rightarrow> None | Some x \<Rightarrow> if x then Some True else b)"

lemma falsy_False [simp]: "falsy v = Some False \<longleftrightarrow> (\<exists>x. v = Some x \<and> js_truthy x)"
  by (cases v) (auto simp: falsy_def)

lemma differ_False [simp]:
  "differ a b = Some False \<longleftrightarrow> (\<exists>x y. a = Some x \<and> b = Some y \<and> js_same x y)"
  by (auto simp: differ_def split: option.splits)

lemma js_or_False [simp]: "js_or a b = Some False \<longleftrightarrow> a = Some False \<and> b = Some False"
  by (auto simp: js_or_def split: option.splits)

fun show_nat :: "nat \<Rightarrow> string" where
  "show_nat n = (if n < 10 then [char_of (48 + n)] else show_nat (n div 10) @ [char_of (48 + n mod 10)])"

declare show_nat.simps [simp del]

lemma show_nat_digits: "c \<in> set (show_nat n) \<Longrightarrow> 48 \<le> (of_char c :: nat) \<and> (of_char c :: nat) \<le> 57"
proof (induction n rule: show_nat.induct)
  case (1 n)
  show ?case
  proof (cases "n < 10")
    case True
    then show ?thesis using "1.prems" by (subst (asm) show_nat.simps) simp
  next
    case False
    have "n mod 10 < 10" by simp
    moreover from False "1.prems" have "c \<in> set (show_nat (n div 10)) \<or> c = char_of (48 + n mod 10)"
      by (subst (asm) show_nat.simps) auto
    ultimately show ?thesis using "1.IH" [OF False] by auto
  qed
qed

definition show_int :: "int \<Rightarrow> string" where
  "show_int i = (if i < 0 then ''-'' @ show_nat (nat (- i)) else show_nat (nat i))"

text \<open>\<open>toString()\<close> and \<open>String\<close>.\<close>

fun join_with :: "string \<Rightarrow> string list \<Rightarrow> string" where
  "join_with sep [] = []"
| "join_with sep [s] = s"
| "join_with sep (s # t # ts) = s @ sep @ join_with sep (t # ts)"

fun js_text :: "jsval \<Rightarrow> string" where
  "js_text JUndefined = ''undefined''"
| "js_text JNull = ''null''"
| "js_text (JBool b) = (if b then ''true'' else ''false'')"
| "js_text (JNum n) = show_int n"
| "js_text (JStr s) = s"
| "js_text (JArr xs) = join_with '','' (map (\<lambda>x. if nullish x then [] else js_text x) xs)"
| "js_text (JObj fs) = ''[object Object]''"

definition js_toString :: "jsval \<Rightarrow> jsval option" where
  "js_toString v = (if nullish v then None else Some (JStr (js_text v)))"

subsection \<open>Questions and answers\<close>

text \<open>
  A call returns a promise at once. \<open>Fails p\<close> is \<open>p.then(() => false, () => true)\<close>, \<open>Outcome p\<close> a promise of
  how and when \<open>p\<close> was settled, \<open>ChunkSeen p n\<close> the
  promise a chunk callback resolves at its \<open>n\<close>-th call, \<open>Timer ms m\<close> one that rejects. \<open>Agent\<close> and \<open>RawPush\<close> are
  the asynchronous functions \<open>agent\<close> and \<open>waitRawPush\<close> of \<open>wss-mixed-im.mjs\<close>: the mixed gate starts them
  beside its own steps and awaits their promise, and what they do until it settles is the scripts of \<open>Gate_Agent\<close>;
  \<open>ExpectRejected\<close> is \<open>expectUpgradeRejected\<close> of \<open>wss-negative.mjs\<close>, modelled in \<open>Negative_Upgrades\<close>.
\<close>

datatype client_call =
    Connect
  | Authenticate string string string
  | Command jsval "(string \<times> jsval) list"
  | Exchange bytes bool
  | BeginExchange bool nat bool
  | WaitForPush string
  | WaitForClose nat

datatype call =
    Client nat client_call
  | Fails nat
  | ChunkSeen nat nat
  | Timer nat string
  | Fetch string "jsval option"
  | ReadBody nat
  | Agent string "jsval option"
  | RawPush jsval string
  | Outcome nat
  | ExpectRejected bytes string

datatype program = Reactor | Gateway

datatype question =
    Start call
  | Await nat | AwaitAll "nat list" | AwaitRace "nat list"
  | Now | Sleep nat | Print jsval | Complain string nat
  | Close nat | Pause nat | Resume nat
  | StreamSend nat nat bytes bool | StreamReset nat nat nat | StreamStop nat nat nat | Chunks nat | StreamID nat
  | SendRecord nat nat bytes bool | SendRaw nat bytes
  | Spawn program | ChildStatus nat | Kill nat string | AwaitExit nat nat | ReadLog program
  | Remaining "nat list" | RemoveFiles

datatype settled =
    VJson jsval | VFrame js_frame | VBytes bytes | VResponse bool nat
  | VOutcome nat "script_error + bytes"

record child_status =
  exitCode :: "int option"
  signalCode :: "string option"

datatype answer =
    APromise nat | AResult "script_error + settled" | AResults "script_error + settled list"
  | ATime nat | ADone | AText string | AChild nat | AStatus child_status | AChildren "nat list"
  | AChunks "(nat \<times> bytes) list" | AStream nat

fun fits :: "question \<Rightarrow> answer \<Rightarrow> bool" where
  "fits (Start c) a = (case a of APromise p \<Rightarrow> True | _ \<Rightarrow> False)"
| "fits (Await p) a = (case a of AResult r \<Rightarrow> True | _ \<Rightarrow> False)"
| "fits (AwaitAll ps) a =
    (case a of AResults (Inr vs) \<Rightarrow> length vs = length ps | AResults (Inl e) \<Rightarrow> True | _ \<Rightarrow> False)"
| "fits (AwaitRace ps) a = (case a of AResult r \<Rightarrow> True | _ \<Rightarrow> False)"
| "fits Now a = (case a of ATime t \<Rightarrow> True | _ \<Rightarrow> False)"
| "fits (Chunks p) a = (case a of AChunks cs \<Rightarrow> True | _ \<Rightarrow> False)"
| "fits (Spawn g) a = (case a of AChild c \<Rightarrow> True | _ \<Rightarrow> False)"
| "fits (ChildStatus c) a = (case a of AStatus s \<Rightarrow> True | _ \<Rightarrow> False)"
| "fits (AwaitExit c ms) a = (case a of AResult r \<Rightarrow> True | _ \<Rightarrow> False)"
| "fits (ReadLog g) a = (case a of AText s \<Rightarrow> True | _ \<Rightarrow> False)"
| "fits (Remaining cs) a = (case a of AChildren ds \<Rightarrow> True | _ \<Rightarrow> False)"
| "fits (StreamID p) a = (case a of AStream n \<Rightarrow> True | _ \<Rightarrow> False)"
| "fits _ a = (a = ADone)"

lemma fits_iff:
  "fits (Start c) a \<longleftrightarrow> (\<exists>p. a = APromise p)"
  "fits (Await p) a \<longleftrightarrow> (\<exists>r. a = AResult r)"
  "fits (AwaitRace ps) a \<longleftrightarrow> (\<exists>r. a = AResult r)"
  "fits (AwaitExit g ms) a \<longleftrightarrow> (\<exists>r. a = AResult r)"
  "fits Now a \<longleftrightarrow> (\<exists>t. a = ATime t)"
  "fits (Chunks p) a \<longleftrightarrow> (\<exists>cs. a = AChunks cs)"
  "fits (Spawn h) a \<longleftrightarrow> (\<exists>g. a = AChild g)"
  "fits (ChildStatus g) a \<longleftrightarrow> (\<exists>s. a = AStatus s)"
  "fits (ReadLog h) a \<longleftrightarrow> (\<exists>s. a = AText s)"
  "fits (Remaining gs) a \<longleftrightarrow> (\<exists>hs. a = AChildren hs)"
  "fits (StreamID p) a \<longleftrightarrow> (\<exists>n. a = AStream n)"
  by (cases a; simp)+

lemma fits_await_all:
  "fits (AwaitAll ps) a \<longleftrightarrow> (\<exists>r. a = AResults r \<and> (case r of Inl e \<Rightarrow> True | Inr vs \<Rightarrow> length vs = length ps))"
  by (cases a) simp_all

declare fits.simps(1-12) [simp del]
declare fits_iff [simp] fits_await_all [simp]

type_synonym observed = "question \<times> answer"

subsection \<open>Scripts and their runs\<close>

datatype 'a outcome = Returned 'a | Threw script_error | OutOfFuel

datatype ('v, 'a) script =
    Done "'a outcome"
  | Get "'v \<Rightarrow> ('v, 'a) script"
  | Put 'v "('v, 'a) script"
  | Ask question "answer \<Rightarrow> ('v, 'a) script"

primrec play :: "('v, 'a) script \<Rightarrow> 'v \<Rightarrow> observed list \<Rightarrow> ('a outcome \<times> 'v) option" where
  "play (Done r) v tr = (if tr = [] then Some (r, v) else None)"
| "play (Get k) v tr = play (k v) v tr"
| "play (Put w s) v tr = play s w tr"
| "play (Ask q k) v tr = (case tr of
      [] \<Rightarrow> None
    | (q', a) # tr' \<Rightarrow> if q' = q \<and> fits q a then play (k a) v tr' else None)"

abbreviation return :: "'a \<Rightarrow> ('v, 'a) script" where "return x \<equiv> Done (Returned x)"
abbreviation throw :: "script_error \<Rightarrow> ('v, 'a) script" where "throw e \<equiv> Done (Threw e)"

text \<open>Sequence, \<open>try\<close>/\<open>catch\<close> and \<open>try\<close>/\<open>finally\<close>.\<close>

fun settle_do :: "('a outcome \<Rightarrow> ('v, 'b) script) \<Rightarrow> 'a outcome \<Rightarrow> ('v, 'b) script" where
  "settle_do f OutOfFuel = Done OutOfFuel"
| "settle_do f r = f r"

primrec on_outcome :: "('v, 'a) script \<Rightarrow> ('a outcome \<Rightarrow> ('v, 'b) script) \<Rightarrow> ('v, 'b) script" where
  "on_outcome (Done r) f = settle_do f r"
| "on_outcome (Get k) f = Get (\<lambda>v. on_outcome (k v) f)"
| "on_outcome (Put w s) f = Put w (on_outcome s f)"
| "on_outcome (Ask q k) f = Ask q (\<lambda>a. on_outcome (k a) f)"

definition then_do :: "('v, 'a) script \<Rightarrow> ('a \<Rightarrow> ('v, 'b) script) \<Rightarrow> ('v, 'b) script" where
  "then_do m f = on_outcome m (\<lambda>r. case r of Returned x \<Rightarrow> f x | Threw e \<Rightarrow> throw e | OutOfFuel \<Rightarrow> Done OutOfFuel)"

definition catch :: "('v, 'a) script \<Rightarrow> (script_error \<Rightarrow> ('v, 'a) script) \<Rightarrow> ('v, 'a) script" where
  "catch m h = on_outcome m (\<lambda>r. case r of Threw e \<Rightarrow> h e | _ \<Rightarrow> Done r)"

definition try_finally :: "('v, 'a) script \<Rightarrow> ('v, unit) script \<Rightarrow> ('v, 'a) script" where
  "try_finally m f = on_outcome m (\<lambda>r. then_do f (\<lambda>u. Done r))"

primrec each :: "('b \<Rightarrow> ('v, unit) script) \<Rightarrow> 'b list \<Rightarrow> ('v, unit) script" where
  "each f [] = return ()"
| "each f (x # xs) = then_do (f x) (\<lambda>u. each f xs)"

primrec each_value :: "('b \<Rightarrow> ('v, 'a) script) \<Rightarrow> 'b list \<Rightarrow> ('v, 'a list) script" where
  "each_value f [] = return []"
| "each_value f (x # xs) = then_do (f x) (\<lambda>y. then_do (each_value f xs) (\<lambda>ys. return (y # ys)))"


definition start :: "call \<Rightarrow> ('v, nat) script" where
  "start c = Ask (Start c) (\<lambda>a. case a of APromise p \<Rightarrow> return p | _ \<Rightarrow> Done OutOfFuel)"

fun settled_script :: "script_error + 'a \<Rightarrow> ('v, 'a) script" where
  "settled_script (Inl e) = throw e"
| "settled_script (Inr x) = return x"

definition one_result :: "answer \<Rightarrow> ('v, settled) script" where
  "one_result a = (case a of AResult r \<Rightarrow> settled_script r | _ \<Rightarrow> Done OutOfFuel)"

definition await :: "nat \<Rightarrow> ('v, settled) script" where
  "await p = Ask (Await p) one_result"

definition await_race :: "nat list \<Rightarrow> ('v, settled) script" where
  "await_race ps = Ask (AwaitRace ps) one_result"

definition await_exit :: "nat \<Rightarrow> nat \<Rightarrow> ('v, settled) script" where
  "await_exit c ms = Ask (AwaitExit c ms) one_result"

definition await_all :: "nat list \<Rightarrow> ('v, settled list) script" where
  "await_all ps = Ask (AwaitAll ps) (\<lambda>a. case a of AResults r \<Rightarrow> settled_script r | _ \<Rightarrow> Done OutOfFuel)"

definition now :: "('v, nat) script" where
  "now = Ask Now (\<lambda>a. case a of ATime t \<Rightarrow> return t | _ \<Rightarrow> Done OutOfFuel)"

definition do_it :: "question \<Rightarrow> ('v, unit) script" where
  "do_it q = Ask q (\<lambda>a. return ())"

definition chunks_of :: "nat \<Rightarrow> ('v, (nat \<times> bytes) list) script" where
  "chunks_of p = Ask (Chunks p) (\<lambda>a. case a of AChunks cs \<Rightarrow> return cs | _ \<Rightarrow> Done OutOfFuel)"

definition stream_number :: "nat \<Rightarrow> ('v, nat) script" where
  "stream_number p = Ask (StreamID p) (\<lambda>a. case a of AStream n \<Rightarrow> return n | _ \<Rightarrow> Done OutOfFuel)"

definition spawn :: "program \<Rightarrow> ('v, nat) script" where
  "spawn g = Ask (Spawn g) (\<lambda>a. case a of AChild c \<Rightarrow> return c | _ \<Rightarrow> Done OutOfFuel)"

definition child_status :: "nat \<Rightarrow> ('v, child_status) script" where
  "child_status c = Ask (ChildStatus c) (\<lambda>a. case a of AStatus s \<Rightarrow> return s | _ \<Rightarrow> Done OutOfFuel)"

definition read_log :: "program \<Rightarrow> ('v, string) script" where
  "read_log g = Ask (ReadLog g) (\<lambda>a. case a of AText s \<Rightarrow> return s | _ \<Rightarrow> Done OutOfFuel)"

definition remaining :: "nat list \<Rightarrow> ('v, nat list) script" where
  "remaining cs = Ask (Remaining cs) (\<lambda>a. case a of AChildren ds \<Rightarrow> return ds | _ \<Rightarrow> Done OutOfFuel)"

text \<open>Guards: a value that may be a \<open>TypeError\<close>, and \<open>if (cond) throw error\<close>.\<close>

definition value_of :: "'a option \<Rightarrow> ('v, 'a) script" where
  "value_of x = (case x of None \<Rightarrow> throw TypeErr | Some y \<Rightarrow> return y)"

definition throw_if :: "bool option \<Rightarrow> script_error \<Rightarrow> ('v, unit) script" where
  "throw_if b e = (case b of None \<Rightarrow> throw TypeErr | Some x \<Rightarrow> if x then throw e else return ())"

text \<open>\<open>await client.method(...)\<close>.\<close>

definition request :: "nat \<Rightarrow> client_call \<Rightarrow> ('v, settled) script" where
  "request c k = then_do (start (Client c k)) await"

fun json :: "settled \<Rightarrow> jsval" where
  "json (VJson j) = j"
| "json _ = JUndefined"

subsection \<open>How runs divide\<close>

lemma play_on_outcome:
  "play (on_outcome m f) v tr = Some R \<longleftrightarrow>
   (\<exists>tr1 tr2 r v1. tr = tr1 @ tr2 \<and> play m v tr1 = Some (r, v1) \<and> play (settle_do f r) v1 tr2 = Some R)"
proof (induction m arbitrary: v tr)
  case (Done r)
  show ?case by auto
next
  case (Get k)
  then show ?case by simp
next
  case (Put w s)
  then show ?case by simp
next
  case (Ask q k)
  show ?case
  proof (cases tr)
    case Nil
    then show ?thesis by simp
  next
    case (Cons x tr')
    obtain q' a where x: "x = (q', a)" by (cases x)
    show ?thesis
    proof
      assume "play (on_outcome (Ask q k) f) v tr = Some R"
      then have q: "q' = q" "fits q a" and "play (on_outcome (k a) f) v tr' = Some R"
        using Cons x by (auto split: if_splits)
      then obtain tr1 tr2 r v1 where "tr' = tr1 @ tr2" "play (k a) v tr1 = Some (r, v1)"
        "play (settle_do f r) v1 tr2 = Some R" using Ask.IH by blast
      then show "\<exists>tr1 tr2 r v1. tr = tr1 @ tr2 \<and> play (Ask q k) v tr1 = Some (r, v1) \<and>
          play (settle_do f r) v1 tr2 = Some R"
        using Cons x q by (intro exI [of _ "x # tr1"] exI [of _ tr2] exI [of _ r] exI [of _ v1]) simp
    next
      assume "\<exists>tr1 tr2 r v1. tr = tr1 @ tr2 \<and> play (Ask q k) v tr1 = Some (r, v1) \<and>
          play (settle_do f r) v1 tr2 = Some R"
      then obtain tr1 tr2 r v1 where s: "tr = tr1 @ tr2" "play (Ask q k) v tr1 = Some (r, v1)"
        "play (settle_do f r) v1 tr2 = Some R" by blast
      then obtain tr1' where tr1: "tr1 = x # tr1'" "tr' = tr1' @ tr2"
        using Cons by (cases tr1) auto
      then have "play (on_outcome (k a) f) v tr' = Some R"
        using s x Ask.IH by (auto split: if_splits)
      then show "play (on_outcome (Ask q k) f) v tr = Some R"
        using s tr1 Cons x by (auto split: if_splits)
    qed
  qed
qed

lemma play_then_do:
  "play (then_do m f) v tr = Some (r, w) \<longleftrightarrow>
   (\<exists>tr1 tr2 x v1. tr = tr1 @ tr2 \<and> play m v tr1 = Some (Returned x, v1) \<and> play (f x) v1 tr2 = Some (r, w))
   \<or> (\<exists>e. play m v tr = Some (Threw e, w) \<and> r = Threw e)
   \<or> (play m v tr = Some (OutOfFuel, w) \<and> r = OutOfFuel)"
  (is "?l \<longleftrightarrow> ?r")
proof
  assume ?l
  then obtain tr1 tr2 q v1 where s: "tr = tr1 @ tr2" "play m v tr1 = Some (q, v1)"
    and t: "play (settle_do (\<lambda>r. case r of Returned x \<Rightarrow> f x | Threw e \<Rightarrow> throw e | OutOfFuel \<Rightarrow> Done OutOfFuel) q)
        v1 tr2 = Some (r, w)"
    unfolding then_do_def play_on_outcome by blast
  then show ?r by (cases q) (auto split: if_splits)
next
  let ?k = "\<lambda>r. case r of Returned x \<Rightarrow> f x | Threw e \<Rightarrow> throw e | OutOfFuel \<Rightarrow> Done OutOfFuel"
  have I: "play (then_do m f) v (tr1 @ tr2) = Some (r, w)"
    if "play m v tr1 = Some (q, v1)" "play (settle_do ?k q) v1 tr2 = Some (r, w)" for tr1 tr2 q v1
    using that unfolding then_do_def play_on_outcome by blast
  assume ?r
  then consider (ret) tr1 tr2 x v1 where "tr = tr1 @ tr2" "play m v tr1 = Some (Returned x, v1)"
      "play (f x) v1 tr2 = Some (r, w)"
    | (thr) e where "play m v tr = Some (Threw e, w)" "r = Threw e"
    | (fuel) "play m v tr = Some (OutOfFuel, w)" "r = OutOfFuel" by blast
  then show ?l
  proof cases
    case ret
    then show ?thesis using I [of tr1 "Returned x" v1 tr2] by simp
  next
    case thr
    then show ?thesis using I [of tr "Threw e" w "[]"] by simp
  next
    case fuel
    then show ?thesis using I [of tr OutOfFuel w "[]"] by simp
  qed
qed

text \<open>Sequences of primitives, one question at a time.\<close>

named_theorems run_simps \<open>how a run of a script begins\<close>

lemma then_do_simps [simp]:
  "then_do (return x) f = f x"
  "then_do (throw e) f = throw e"
  "then_do (Done OutOfFuel) f = Done OutOfFuel"
  "then_do (Get g) f = Get (\<lambda>v. then_do (g v) f)"
  "then_do (Put w m) f = Put w (then_do m f)"
  "then_do (Ask q k) f = Ask q (\<lambda>a. then_do (k a) f)"
  by (simp_all add: then_do_def)

lemma catch_simps [simp]:
  "catch (return x) h = return x"
  "catch (throw e) h = h e"
  "catch (Done OutOfFuel) h = Done OutOfFuel"
  "catch (Get g) h = Get (\<lambda>v. catch (g v) h)"
  "catch (Put w m) h = Put w (catch m h)"
  "catch (Ask q k) h = Ask q (\<lambda>a. catch (k a) h)"
  by (simp_all add: catch_def)

lemma then_do_assoc: "then_do (then_do m f) g = then_do m (\<lambda>x. then_do (f x) g)"
proof (induction m)
  case (Done r)
  then show ?case by (cases r) simp_all
qed simp_all

lemma then_do_request [simp]: "then_do (request c k) f = then_do (start (Client c k)) (\<lambda>p. then_do (await p) f)"
  by (simp add: request_def then_do_assoc)

lemma play_ask:
  "play (then_do (Ask q k) f) v tr = Some R \<longleftrightarrow>
   (\<exists>a tr'. tr = (q, a) # tr' \<and> fits q a \<and> play (then_do (k a) f) v tr' = Some R)"
  by (cases tr) (auto split: if_splits)

lemmas primitives = start_def await_def await_race_def await_exit_def await_all_def now_def do_it_def
  chunks_of_def stream_number_def spawn_def child_status_def read_log_def remaining_def one_result_def

lemma play_start [run_simps]:
  "play (then_do (start c) f) v tr = Some R \<longleftrightarrow>
   (\<exists>p tr'. tr = (Start c, APromise p) # tr' \<and> play (f p) v tr' = Some R)"
  unfolding primitives play_ask by (auto simp: fits_iff)

lemma play_now [run_simps]:
  "play (then_do now f) v tr = Some R \<longleftrightarrow> (\<exists>t tr'. tr = (Now, ATime t) # tr' \<and> play (f t) v tr' = Some R)"
  unfolding primitives play_ask by (auto simp: fits_iff)

lemma play_chunks_of [run_simps]:
  "play (then_do (chunks_of p) f) v tr = Some R \<longleftrightarrow>
   (\<exists>cs tr'. tr = (Chunks p, AChunks cs) # tr' \<and> play (f cs) v tr' = Some R)"
  unfolding primitives play_ask by (auto simp: fits_iff)

lemma play_stream_number [run_simps]:
  "play (then_do (stream_number p) f) v tr = Some R \<longleftrightarrow>
   (\<exists>n tr'. tr = (StreamID p, AStream n) # tr' \<and> play (f n) v tr' = Some R)"
  unfolding primitives play_ask by (auto simp: fits_iff)

lemma play_spawn [run_simps]:
  "play (then_do (spawn g) f) v tr = Some R \<longleftrightarrow>
   (\<exists>c tr'. tr = (Spawn g, AChild c) # tr' \<and> play (f c) v tr' = Some R)"
  unfolding primitives play_ask by (auto simp: fits_iff)

lemma play_child_status [run_simps]:
  "play (then_do (child_status c) f) v tr = Some R \<longleftrightarrow>
   (\<exists>s tr'. tr = (ChildStatus c, AStatus s) # tr' \<and> play (f s) v tr' = Some R)"
  unfolding primitives play_ask by (auto simp: fits_iff)

lemma play_read_log [run_simps]:
  "play (then_do (read_log g) f) v tr = Some R \<longleftrightarrow>
   (\<exists>s tr'. tr = (ReadLog g, AText s) # tr' \<and> play (f s) v tr' = Some R)"
  unfolding primitives play_ask by (auto simp: fits_iff)

lemma play_remaining [run_simps]:
  "play (then_do (remaining cs) f) v tr = Some R \<longleftrightarrow>
   (\<exists>ds tr'. tr = (Remaining cs, AChildren ds) # tr' \<and> play (f ds) v tr' = Some R)"
  unfolding primitives play_ask by (auto simp: fits_iff)

lemma play_do_it [run_simps]:
  "play (then_do (do_it q) f) v tr = Some R \<longleftrightarrow>
   (\<exists>a tr'. tr = (q, a) # tr' \<and> fits q a \<and> play (f ()) v tr' = Some R)"
  unfolding primitives play_ask by simp

text \<open>Awaiting splits on the outcome; in a run that returns it was fulfilled.\<close>

lemma play_one_result:
  assumes "\<And>a. fits q a = (\<exists>r. a = AResult r)"
  shows "play (then_do (Ask q one_result) f) v tr = Some R \<longleftrightarrow>
   (\<exists>r tr'. tr = (q, AResult r) # tr' \<and> play (then_do (settled_script r) f) v tr' = Some R)"
  unfolding play_ask assms one_result_def by auto

lemmas play_await = play_one_result [OF fits_iff(2), folded await_def]
lemmas play_await_race = play_one_result [OF fits_iff(3), folded await_race_def]
lemmas play_await_exit = play_one_result [OF fits_iff(4), folded await_exit_def]

lemma play_await_all:
  "play (then_do (await_all ps) f) v tr = Some R \<longleftrightarrow>
   (\<exists>r tr'. tr = (AwaitAll ps, AResults r) # tr' \<and> fits (AwaitAll ps) (AResults r) \<and>
      play (then_do (settled_script r) f) v tr' = Some R)"
  unfolding primitives play_ask by (auto simp: fits_await_all)

abbreviation runs :: "('v, 'a) script \<Rightarrow> 'v \<Rightarrow> observed list \<Rightarrow> 'a \<Rightarrow> 'v \<Rightarrow> bool" where
  "runs m v tr x w \<equiv> play m v tr = Some (Returned x, w)"

lemma runs_start_alone [run_simps]: "runs (start c) v tr p w \<longleftrightarrow> tr = [(Start c, APromise p)] \<and> w = v"
  unfolding start_def by (cases tr) (auto split: if_splits)

lemma runs_settled:
  "runs (then_do (settled_script r) f) v tr x w \<longleftrightarrow> (\<exists>y. r = Inr y \<and> runs (f y) v tr x w)"
  by (cases r) auto

lemma runs_await [run_simps]:
  "runs (then_do (await p) f) v tr x w \<longleftrightarrow>
   (\<exists>y tr'. tr = (Await p, AResult (Inr y)) # tr' \<and> runs (f y) v tr' x w)"
  unfolding play_await runs_settled by blast

lemma runs_await_race [run_simps]:
  "runs (then_do (await_race ps) f) v tr x w \<longleftrightarrow>
   (\<exists>y tr'. tr = (AwaitRace ps, AResult (Inr y)) # tr' \<and> runs (f y) v tr' x w)"
  unfolding play_await_race runs_settled by blast

lemma runs_await_exit [run_simps]:
  "runs (then_do (await_exit c ms) f) v tr x w \<longleftrightarrow>
   (\<exists>y tr'. tr = (AwaitExit c ms, AResult (Inr y)) # tr' \<and> runs (f y) v tr' x w)"
  unfolding play_await_exit runs_settled by blast

lemma runs_await_all [run_simps]:
  "runs (then_do (await_all ps) f) v tr x w \<longleftrightarrow>
   (\<exists>ys tr'. tr = (AwaitAll ps, AResults (Inr ys)) # tr' \<and> length ys = length ps \<and> runs (f ys) v tr' x w)"
  unfolding play_await_all runs_settled by auto

lemma runs_value_of [run_simps]:
  "runs (then_do (value_of y) f) v tr x w \<longleftrightarrow> (\<exists>z. y = Some z \<and> runs (f z) v tr x w)"
  by (cases y) (auto simp: value_of_def)

lemma runs_value_of_alone [run_simps]: "runs (value_of y) v tr x w \<longleftrightarrow> y = Some x \<and> tr = [] \<and> w = v"
  by (cases y) (auto simp: value_of_def)

lemma runs_throw_if [run_simps]:
  "runs (then_do (throw_if b e) f) v tr x w \<longleftrightarrow> b = Some False \<and> runs (f ()) v tr x w"
  by (auto simp: throw_if_def split: option.splits)

lemma runs_throw_if_alone [run_simps]: "runs (throw_if b e) v tr x w \<longleftrightarrow> b = Some False \<and> tr = [] \<and> w = v"
  by (auto simp: throw_if_def split: option.splits)

lemma runs_then_do:
  "runs (then_do m f) v tr y w \<longleftrightarrow>
   (\<exists>tr1 tr2 x v1. tr = tr1 @ tr2 \<and> runs m v tr1 x v1 \<and> runs (f x) v1 tr2 y w)"
  unfolding play_then_do by auto

lemma runs_throw [simp]: "\<not> runs (throw e) v tr x w"
  by simp

lemma runs_catch:
  "runs (catch m h) v tr x w \<longleftrightarrow> runs m v tr x w \<or>
   (\<exists>tr1 tr2 e v1. tr = tr1 @ tr2 \<and> play m v tr1 = Some (Threw e, v1) \<and> runs (h e) v1 tr2 x w)"
  (is "?l \<longleftrightarrow> ?r")
proof
  let ?k = "\<lambda>r. case r of Threw e \<Rightarrow> h e | _ \<Rightarrow> Done r"
  assume ?l
  then obtain tr1 tr2 q v1 where s: "tr = tr1 @ tr2" "play m v tr1 = Some (q, v1)"
    "play (settle_do ?k q) v1 tr2 = Some (Returned x, w)" unfolding catch_def play_on_outcome by blast
  then show ?r by (cases q) (auto split: if_splits)
next
  let ?k = "\<lambda>r. case r of Threw e \<Rightarrow> h e | _ \<Rightarrow> Done r"
  assume ?r
  then obtain tr1 tr2 q v1 where "tr = tr1 @ tr2" "play m v tr1 = Some (q, v1)"
    "play (settle_do ?k q) v1 tr2 = Some (Returned x, w)"
  proof (elim disjE exE conjE)
    assume "runs m v tr x w"
    then show ?thesis by (intro that [of tr "[]" "Returned x" w]) simp_all
  next
    fix tr1 tr2 e v1
    assume "tr = tr1 @ tr2" "play m v tr1 = Some (Threw e, v1)" "runs (h e) v1 tr2 x w"
    then show ?thesis by (intro that [of tr1 tr2 "Threw e" v1]) simp_all
  qed
  then show ?l unfolding catch_def play_on_outcome by blast
qed

subsection \<open>Cleaning up\<close>

text \<open>
  After \<open>try\<close>/\<open>finally\<close> the finalizer has run to its end, whatever the body's outcome.
\<close>

lemma play_try_finally:
  "play (try_finally m f) v tr = Some (r, w) \<Longrightarrow> r \<noteq> OutOfFuel \<Longrightarrow>
   \<exists>tr1 tr2 q v1 u. tr = tr1 @ tr2 \<and> play m v tr1 = Some (q, v1) \<and> q \<noteq> OutOfFuel \<and> u \<noteq> OutOfFuel \<and>
     play f v1 tr2 = Some (u, w) \<and> r = (case u of Threw e \<Rightarrow> Threw e | _ \<Rightarrow> q)"
proof -
  assume p: "play (try_finally m f) v tr = Some (r, w)" and r: "r \<noteq> OutOfFuel"
  obtain tr1 tr2 q v1 where s: "tr = tr1 @ tr2" "play m v tr1 = Some (q, v1)"
    and t: "play (settle_do (\<lambda>r. then_do f (\<lambda>u. Done r)) q) v1 tr2 = Some (r, w)"
    using p unfolding try_finally_def play_on_outcome by blast
  have q: "q \<noteq> OutOfFuel" using t r by (auto split: if_splits)
  then have "play (then_do f (\<lambda>u. Done q)) v1 tr2 = Some (r, w)" using t by (cases q) simp_all
  then have "\<exists>u. u \<noteq> OutOfFuel \<and> play f v1 tr2 = Some (u, w) \<and> r = (case u of Threw e \<Rightarrow> Threw e | _ \<Rightarrow> q)"
    unfolding play_then_do using r by (auto split: if_splits intro: exI [of _ "Returned ()"])
  then show ?thesis using s q by blast
qed

lemma runs_try_finally:
  "runs (try_finally m f) v tr x w \<longleftrightarrow>
   (\<exists>tr1 tr2 v1. tr = tr1 @ tr2 \<and> runs m v tr1 x v1 \<and> runs f v1 tr2 () w)"
proof
  assume "runs (try_finally m f) v tr x w"
  from play_try_finally [OF this] obtain tr1 tr2 q v1 u where s: "tr = tr1 @ tr2"
      "play m v tr1 = Some (q, v1)" "u \<noteq> OutOfFuel" "play f v1 tr2 = Some (u, w)"
      "Returned x = (case u of Threw e \<Rightarrow> Threw e | _ \<Rightarrow> q)" by blast
  then have "u = Returned ()" "q = Returned x" by (cases u; simp)+
  with s show "\<exists>tr1 tr2 v1. tr = tr1 @ tr2 \<and> runs m v tr1 x v1 \<and> runs f v1 tr2 () w" by blast
next
  assume "\<exists>tr1 tr2 v1. tr = tr1 @ tr2 \<and> runs m v tr1 x v1 \<and> runs f v1 tr2 () w"
  then obtain tr1 tr2 v1 where s: "tr = tr1 @ tr2" "runs m v tr1 x v1" "runs f v1 tr2 () w" by blast
  from s(3) have "play (then_do f (\<lambda>u. Done (Returned x))) v1 tr2 = Some (Returned x, w)"
    unfolding play_then_do by (metis append_Nil2 play.simps(1))
  then show "runs (try_finally m f) v tr x w"
    using s unfolding try_finally_def play_on_outcome
    by (intro exI [of _ tr1] exI [of _ tr2] exI [of _ "Returned x"] exI [of _ v1]) simp
qed

definition close_all :: "nat list \<Rightarrow> ('v, unit) script" where
  "close_all cs = each (\<lambda>c. do_it (Close c)) cs"

lemma play_close_all:
  "play (close_all cs) v tr = Some R \<longleftrightarrow> tr = map (\<lambda>c. (Close c, ADone)) cs \<and> R = (Returned (), v)"
  by (induction cs arbitrary: tr) (auto simp: close_all_def run_simps)

end
