(* ===== verification/Script_Polling.thy ===== *)
theory Script_Polling
  imports Script
begin

section \<open>Clock and polling loops\<close>

text \<open>
  The scripts wait in loops of the form \<open>while (Date.now() < deadline) { ...; await sleep(d) }\<close>. The
  clock of a run is what \<open>Date.now()\<close> answered: it never goes back, and a timer of \<open>d\<close> milliseconds
  takes \<open>d - 1\<close> at least (it may fire up to one millisecond early by that clock). Under that law a
  polling loop ends: the fuel the scripts give it is never used up.
\<close>

definition tick :: "nat \<Rightarrow> observed \<Rightarrow> nat" where
  "tick t x = (case fst x of
      Now \<Rightarrow> (case snd x of ATime n \<Rightarrow> n | _ \<Rightarrow> t)
    | Sleep d \<Rightarrow> t + (d - 1)
    | _ \<Rightarrow> t)"

lemma tick_simps [simp]:
  "tick t (Now, ATime n) = n"
  "tick t (Sleep d, a) = t + (d - 1)"
  by (simp_all add: tick_def)

primrec clock_end :: "nat \<Rightarrow> observed list \<Rightarrow> nat" where
  "clock_end t [] = t"
| "clock_end t (x # tr) = clock_end (tick t x) tr"

primrec clock_ok :: "nat \<Rightarrow> observed list \<Rightarrow> bool" where
  "clock_ok t [] = True"
| "clock_ok t (x # tr) = (t \<le> tick t x \<and> clock_ok (tick t x) tr)"

lemma clock_append [simp]:
  "clock_end t (tr @ tr') = clock_end (clock_end t tr) tr'"
  "clock_ok t (tr @ tr') \<longleftrightarrow> clock_ok t tr \<and> clock_ok (clock_end t tr) tr'"
  by (induction tr arbitrary: t) auto

lemma clock_grows: "clock_ok t tr \<Longrightarrow> t \<le> clock_end t tr"
  by (induction tr arbitrary: t) (auto intro: order_trans)

text \<open>
  One round of a loop: the round either ends the loop with a value (\<open>Inr\<close>), goes on with the state of
  the next round (\<open>Inl\<close>) or throws. What follows when the deadline has passed is \<open>expired\<close>.
\<close>

primrec poll :: "nat \<Rightarrow> nat \<Rightarrow> ('s \<Rightarrow> ('v, 's + 'a) script) \<Rightarrow> ('s \<Rightarrow> ('v, 'a) script) \<Rightarrow> 's \<Rightarrow> ('v, 'a) script" where
  "poll 0 deadline round expired s = Done OutOfFuel"
| "poll (Suc n) deadline round expired s =
    then_do now (\<lambda>t. if t < deadline
      then then_do (round s) (\<lambda>r. case r of Inr x \<Rightarrow> return x | Inl s' \<Rightarrow> poll n deadline round expired s')
      else expired s)"

text \<open>A loop that throws when its time is over returns with the value of its last round.\<close>

lemma runs_poll:
  assumes "runs (poll n deadline round expired s) v tr x w" "\<And>s v tr x w. \<not> runs (expired s) v tr x w"
  shows "\<exists>s' v' tr1 tr2. tr = tr1 @ tr2 \<and> runs (round s') v' tr2 (Inr x) w"
  using assms
proof (induction n arbitrary: s v tr)
  case (Suc n)
  from Suc.prems obtain t tr' where tr: "tr = (Now, ATime t) # tr'" and "t < deadline"
    and r: "runs (then_do (round s)
        (\<lambda>r. case r of Inr x \<Rightarrow> return x | Inl s' \<Rightarrow> poll n deadline round expired s')) v tr' x w"
    using Suc.prems(2) by (auto simp: run_simps split: if_splits)
  from r obtain tr1 tr2 q v1 where s: "tr' = tr1 @ tr2" "runs (round s) v tr1 q v1"
    "runs (case q of Inr x \<Rightarrow> return x | Inl s' \<Rightarrow> poll n deadline round expired s') v1 tr2 x w"
    unfolding runs_then_do by blast
  show ?case
  proof (cases q)
    case (Inl s')
    then have "runs (poll n deadline round expired s') v1 tr2 x w" using s(3) by simp
    from Suc.IH [OF this Suc.prems(2)] obtain s'' v' tr3 tr4 where "tr2 = tr3 @ tr4" "runs (round s'') v' tr4 (Inr x) w"
      by blast
    then show ?thesis using s(1) tr
      by (intro exI [of _ s''] exI [of _ v'] exI [of _ "(Now, ATime t) # tr1 @ tr3"] exI [of _ tr4]) simp
  next
    case (Inr y)
    with s(3) have "tr2 = []" "y = x" "v1 = w" by (auto split: if_splits)
    then show ?thesis using s(1,2) tr Inr
      by (intro exI [of _ s] exI [of _ v] exI [of _ "[(Now, ATime t)]"] exI [of _ tr1]) simp
  qed
qed (simp split: if_splits)

text \<open>
  A script ends: whatever it is answered, as long as the clock obeys its law, it does not run out of
  fuel.
\<close>

definition ends :: "('v, 'a) script \<Rightarrow> bool" where
  "ends m \<longleftrightarrow> (\<forall>t v tr w. clock_ok t tr \<longrightarrow> play m v tr \<noteq> Some (OutOfFuel, w))"

named_theorems ends_intros \<open>scripts that end\<close>

lemma endsI: "(\<And>t v tr w. clock_ok t tr \<Longrightarrow> play m v tr = Some (OutOfFuel, w) \<Longrightarrow> False) \<Longrightarrow> ends m"
  unfolding ends_def by blast

lemma endsD: "ends m \<Longrightarrow> clock_ok t tr \<Longrightarrow> play m v tr \<noteq> Some (OutOfFuel, w)"
  unfolding ends_def by blast

lemma ends_then_do [ends_intros]: "ends m \<Longrightarrow> (\<And>x. ends (f x)) \<Longrightarrow> ends (then_do m f)"
proof (rule endsI)
  fix t v tr w
  assume e: "ends m" "\<And>x. ends (f x)" and ok: "clock_ok t tr" and p: "play (then_do m f) v tr = Some (OutOfFuel, w)"
  from p consider (next_one) tr1 tr2 x v1 where "tr = tr1 @ tr2" "play (f x) v1 tr2 = Some (OutOfFuel, w)"
    | (first) "play m v tr = Some (OutOfFuel, w)" unfolding play_then_do by blast
  then show False
  proof cases
    case next_one
    then show ?thesis using endsD [OF e(2), of "clock_end t tr1" tr2] ok by auto
  next
    case first
    then show ?thesis using endsD [OF e(1) ok] by blast
  qed
qed

lemma ends_done [ends_intros]: "ends (return x)" "ends (throw e)"
  by (rule endsI; simp split: if_splits)+

lemma ends_get [ends_intros]: "(\<And>v. ends (k v)) \<Longrightarrow> ends (Get k)"
  unfolding ends_def by simp

lemma ends_put [ends_intros]: "ends m \<Longrightarrow> ends (Put x m)"
  unfolding ends_def by simp

lemma ends_ask: "(\<And>a. fits q a \<Longrightarrow> ends (k a)) \<Longrightarrow> ends (Ask q k)"
proof (rule endsI)
  fix t v tr w
  assume e: "\<And>a. fits q a \<Longrightarrow> ends (k a)" and ok: "clock_ok t tr" and p: "play (Ask q k) v tr = Some (OutOfFuel, w)"
  then obtain a tr' where "tr = (q, a) # tr'" "fits q a" "play (k a) v tr' = Some (OutOfFuel, w)"
    by (cases tr) (auto split: if_splits)
  then show False using e [of a] ok endsD [of "k a" "tick t (q, a)" tr' v w] by simp
qed

lemma ends_settled [ends_intros]: "ends (settled_script r)"
  by (cases r) (auto intro: ends_done)

lemma ends_primitives [ends_intros]:
  "ends (start c)" "ends (await p)" "ends (await_race ps)" "ends (await_exit g ms)" "ends (await_all ps)"
  "ends now" "ends (do_it q)" "ends (chunks_of p)" "ends (stream_number p)" "ends (spawn h)" "ends (child_status g)" "ends (read_log h)"
  "ends (remaining gs)"
  unfolding primitives by (rule ends_ask; auto intro: ends_intros)+

lemma ends_guards [ends_intros]: "ends (value_of x)" "ends (throw_if b e)"
  by (auto simp: value_of_def throw_if_def split: option.split intro: ends_intros)

lemma ends_let [ends_intros]: "ends (f a) \<Longrightarrow> ends (Let a f)"
  by (simp add: Let_def)

lemma ends_prod [ends_intros]: "(\<And>x y. ends (f x y)) \<Longrightarrow> ends (case_prod f p)"
  by (cases p) simp

lemma ends_if [ends_intros]: "(b \<Longrightarrow> ends m) \<Longrightarrow> (\<not> b \<Longrightarrow> ends n) \<Longrightarrow> ends (if b then m else n)"
  by simp

lemma ends_option [ends_intros]: "ends m \<Longrightarrow> (\<And>x. ends (f x)) \<Longrightarrow> ends (case_option m f y)"
  by (cases y) simp_all

lemma ends_request [ends_intros]: "ends (request c k)"
  unfolding request_def by (intro ends_intros)

lemma ends_on_outcome: "ends m \<Longrightarrow> (\<And>r. r \<noteq> OutOfFuel \<Longrightarrow> ends (f r)) \<Longrightarrow> ends (on_outcome m f)"
proof (rule endsI)
  fix t v tr w
  assume e: "ends m" "\<And>r. r \<noteq> OutOfFuel \<Longrightarrow> ends (f r)" and ok: "clock_ok t tr"
    and p: "play (on_outcome m f) v tr = Some (OutOfFuel, w)"
  from p obtain tr1 tr2 r v1 where s: "tr = tr1 @ tr2" "play m v tr1 = Some (r, v1)"
    "play (settle_do f r) v1 tr2 = Some (OutOfFuel, w)" unfolding play_on_outcome by blast
  have "r \<noteq> OutOfFuel" using endsD [OF e(1), of t tr1] s ok by auto
  then have "play (f r) v1 tr2 = Some (OutOfFuel, w)" using s(3) by (cases r) simp_all
  then show False using endsD [OF e(2) [OF \<open>r \<noteq> OutOfFuel\<close>]] s(1) ok by auto
qed

lemma ends_catch [ends_intros]: "ends m \<Longrightarrow> (\<And>e. ends (h e)) \<Longrightarrow> ends (catch m h)"
  unfolding catch_def by (rule ends_on_outcome) (auto split: outcome.split intro: ends_intros)

lemma ends_try_finally [ends_intros]: "ends m \<Longrightarrow> ends f \<Longrightarrow> ends (try_finally m f)"
  unfolding try_finally_def
proof (rule ends_on_outcome)
  fix r :: "'b outcome"
  assume "ends f" "r \<noteq> OutOfFuel"
  then show "ends (then_do f (\<lambda>u. Done r))" by (cases r) (auto intro: ends_intros)
qed

lemma ends_each [ends_intros]: "(\<And>x. ends (f x)) \<Longrightarrow> ends (each f xs)"
  by (induction xs) (auto intro: ends_intros)

lemma ends_each_value [ends_intros]: "(\<And>x. ends (f x)) \<Longrightarrow> ends (each_value f xs)"
  by (induction xs) (auto intro: ends_intros)

lemma ends_close_all [ends_intros]: "ends (close_all cs)"
  unfolding close_all_def by (intro ends_intros)

text \<open>A loop that polls for \<open>ms\<close> milliseconds from now on.\<close>

definition poll_for ::
  "nat \<Rightarrow> nat \<Rightarrow> ('s \<Rightarrow> ('v, 's + 'a) script) \<Rightarrow> ('s \<Rightarrow> ('v, 'a) script) \<Rightarrow> 's \<Rightarrow> ('v, 'a) script" where
  "poll_for fuel ms round expired s = then_do now (\<lambda>t. poll fuel (t + ms) round expired s)"

lemma runs_poll_for:
  assumes "runs (poll_for n ms round expired s) v tr x w" "\<And>s v tr x w. \<not> runs (expired s) v tr x w"
  shows "\<exists>s' v' tr1 tr2. tr = tr1 @ tr2 \<and> runs (round s') v' tr2 (Inr x) w"
proof -
  obtain t tr' where tr: "tr = (Now, ATime t) # tr'" and r: "runs (poll n (t + ms) round expired s) v tr' x w"
    using assms by (auto simp: poll_for_def run_simps)
  from runs_poll [OF r assms(2)] obtain s' v' tr1 tr2 where "tr' = tr1 @ tr2" "runs (round s') v' tr2 (Inr x) w" by blast
  then show ?thesis using tr by (metis append_Cons)
qed

text \<open>
  The contract of a round: it does not run out of fuel itself, and a round that goes on has taken \<open>d\<close>
  milliseconds at least.
\<close>

locale polling =
  fixes round :: "'s \<Rightarrow> ('v, 's + 'a) script" and d :: nat
  assumes pause: "0 < d"
    and round_ends: "ends (round s)"
    and round_takes: "runs (round s) v tr (Inl s') w \<Longrightarrow> clock_ok t tr \<Longrightarrow> t + d \<le> clock_end t tr"
begin

lemma enough_fuel:
  assumes "clock_ok t tr" "deadline \<le> t + n * d" "\<And>s. ends (expired s)"
  shows "play (poll (Suc n) deadline round expired s) v tr \<noteq> Some (OutOfFuel, w)"
  using assms
proof (induction n arbitrary: s v tr t)
  case 0
  then show ?case using endsD [OF 0(3)] by (auto simp: run_simps split: if_splits)
next
  case (Suc n)
  show ?case
  proof
    let ?next = "\<lambda>r. case r of Inr x \<Rightarrow> return x | Inl s' \<Rightarrow> poll (Suc n) deadline round expired s'"
    assume p: "play (poll (Suc (Suc n)) deadline round expired s) v tr = Some (OutOfFuel, w)"
    then obtain t1 tr' where tr: "tr = (Now, ATime t1) # tr'"
      and r: "play (if t1 < deadline then then_do (round s) ?next else expired s) v tr' = Some (OutOfFuel, w)"
      unfolding poll.simps(2) [of "Suc n"] by (auto simp: run_simps)
    have "clock_ok t1 tr'" using Suc.prems(1) tr by simp
    then have r: "play (then_do (round s) ?next) v tr' = Some (OutOfFuel, w)"
      using r endsD [OF Suc.prems(3)] by (auto split: if_splits)
    from r obtain tr1 tr2 q v1 where s: "tr' = tr1 @ tr2" "runs (round s) v tr1 q v1"
      "play (?next q) v1 tr2 = Some (OutOfFuel, w)"
      using endsD [OF round_ends, of t1 tr'] Suc.prems tr unfolding play_then_do by auto
    then obtain s' where q: "q = Inl s'" by (cases q) (auto split: if_splits)
    have ok: "t \<le> t1" "clock_ok t1 tr1" "clock_ok (clock_end t1 tr1) tr2"
      using Suc.prems tr s by auto
    have "t1 + d \<le> clock_end t1 tr1" using round_takes ok q s by blast
    then have "deadline \<le> clock_end t1 tr1 + n * d" using Suc.prems ok by simp
    from Suc.IH [OF ok(3) this Suc.prems(3)] show False using s q by simp
  qed
qed

lemma poll_for_ends:
  assumes "ms \<le> n * d" "n < fuel" "\<And>s. ends (expired s)"
  shows "ends (poll_for fuel ms round expired s)"
proof (rule endsI)
  fix t v tr w
  assume ok: "clock_ok t tr" and p: "play (poll_for fuel ms round expired s) v tr = Some (OutOfFuel, w)"
  obtain k where k: "fuel = Suc k" "n \<le> k" using assms(2) by (cases fuel) auto
  obtain t1 tr' where tr: "tr = (Now, ATime t1) # tr'"
    and r: "play (poll fuel (t1 + ms) round expired s) v tr' = Some (OutOfFuel, w)"
    using p by (auto simp: poll_for_def run_simps)
  have "n * d \<le> k * d" using k(2) by (rule mult_le_mono1)
  then have "t1 + ms \<le> t1 + k * d" using assms(1) by linarith
  then show False using enough_fuel [of t1 tr' "t1 + ms" k expired] ok tr r k(1) assms(3) by simp
qed

end

text \<open>What sleeps is a round of \<open>d - 1\<close> milliseconds.\<close>

lemma sleep_takes: "clock_ok t tr \<Longrightarrow> (Sleep d, a) \<in> set tr \<Longrightarrow> t + (d - 1) \<le> clock_end t tr"
proof (induction tr arbitrary: t)
  case (Cons x tr)
  show ?case
  proof (cases "x = (Sleep d, a)")
    case True
    then show ?thesis using Cons.prems clock_grows [of "t + (d - 1)" tr] by simp
  next
    case False
    then show ?thesis using Cons.prems Cons.IH [of "tick t x"] by auto
  qed
qed simp

end
