(* ===== verification/Script_Invariants.thy ===== *)
theory Script_Invariants
  imports Script_Polling
begin

section \<open>What holds of every run of a script\<close>

text \<open>
  A relation between the variables before a run, the run and the variables after it, that holds of the
  empty run, of a run followed by another and of each plain question, holds of every run of a script made
  of such parts, whatever its outcome. The rules follow the structure of the script. \<open>Print\<close> and \<open>Spawn\<close>
  are not plain: the scripts say what they mean for the relation.
\<close>

definition always :: "('v \<Rightarrow> observed list \<Rightarrow> 'v \<Rightarrow> bool) \<Rightarrow> ('v, 'a) script \<Rightarrow> bool" where
  "always R m \<longleftrightarrow> (\<forall>v tr r w. play m v tr = Some (r, w) \<longrightarrow> R v tr w)"

lemma alwaysI: "(\<And>v tr r w. play m v tr = Some (r, w) \<Longrightarrow> R v tr w) \<Longrightarrow> always R m"
  unfolding always_def by blast

lemma alwaysD: "always R m \<Longrightarrow> play m v tr = Some (r, w) \<Longrightarrow> R v tr w"
  unfolding always_def by blast

definition plain :: "question \<Rightarrow> bool" where
  "plain q \<longleftrightarrow> (case q of Print j \<Rightarrow> False | Spawn g \<Rightarrow> False | _ \<Rightarrow> True)"

locale run_relation =
  fixes R :: "'v \<Rightarrow> observed list \<Rightarrow> 'v \<Rightarrow> bool"
  assumes empty_run: "R v [] v"
    and sequence: "R v tr u \<Longrightarrow> R u tr' w \<Longrightarrow> R v (tr @ tr') w"
    and question: "plain q \<Longrightarrow> fits q a \<Longrightarrow> R v [(q, a)] v"
begin

lemma on_outcome:
  assumes "always R m" "\<And>r. r \<noteq> OutOfFuel \<Longrightarrow> always R (f r)"
  shows "always R (on_outcome m f)"
proof (rule alwaysI)
  fix v tr r w
  assume "play (on_outcome m f) v tr = Some (r, w)"
  then obtain tr1 tr2 q v1 where s: "tr = tr1 @ tr2" "play m v tr1 = Some (q, v1)"
    "play (settle_do f q) v1 tr2 = Some (r, w)" unfolding play_on_outcome by blast
  have "R v1 tr2 w"
  proof (cases "q = OutOfFuel")
    case True
    then show ?thesis using s(3) empty_run by (simp split: if_splits)
  next
    case False
    then have "play (f q) v1 tr2 = Some (r, w)" using s(3) by (cases q) simp_all
    then show ?thesis using alwaysD [OF assms(2) [OF False]] by blast
  qed
  then show "R v tr w" using sequence alwaysD [OF assms(1) s(2)] s(1) by blast
qed

lemma finished: "always R (Done r)"
  by (rule alwaysI) (auto simp: empty_run split: if_splits)

lemma then_do: "always R m \<Longrightarrow> (\<And>x. always R (f x)) \<Longrightarrow> always R (then_do m f)"
  unfolding then_do_def by (rule on_outcome) (auto split: outcome.split intro: finished)

lemma catch: "always R m \<Longrightarrow> (\<And>e. always R (h e)) \<Longrightarrow> always R (catch m h)"
  unfolding catch_def by (rule on_outcome) (auto split: outcome.split intro: finished)

lemma try_finally: "always R m \<Longrightarrow> always R f \<Longrightarrow> always R (try_finally m f)"
  unfolding try_finally_def by (intro on_outcome then_do finished)

lemma get: "(\<And>v. always R (k v)) \<Longrightarrow> always R (Get k)"
  unfolding always_def by simp

lemma ask:
  assumes "\<And>a v. fits q a \<Longrightarrow> R v [(q, a)] v" "\<And>a. fits q a \<Longrightarrow> always R (k a)"
  shows "always R (Ask q k)"
proof (rule alwaysI)
  fix v tr r w
  assume "play (Ask q k) v tr = Some (r, w)"
  then obtain a tr' where s: "tr = [(q, a)] @ tr'" "fits q a" "play (k a) v tr' = Some (r, w)"
    by (cases tr) (auto split: if_splits)
  show "R v tr w" unfolding s(1) by (rule sequence [OF assms(1) [OF s(2)] alwaysD [OF assms(2) [OF s(2)] s(3)]])
qed

lemma plain_ask: "plain q \<Longrightarrow> (\<And>a. fits q a \<Longrightarrow> always R (k a)) \<Longrightarrow> always R (Ask q k)"
  by (rule ask) (auto intro: question)

lemma settled: "always R (settled_script r)"
  by (cases r) (auto intro: finished)

lemma asking:
  "always R (start c)" "always R (await p)" "always R (await_race ps)" "always R (await_exit g ms)"
  "always R (await_all ps)" "always R now" "always R (chunks_of p)" "always R (stream_number p)"
  "always R (child_status g)" "always R (read_log h)" "always R (remaining gs)"
  unfolding primitives by (rule plain_ask; auto simp: plain_def intro: finished settled)+

lemma plain_do_it: "plain q \<Longrightarrow> always R (do_it q)"
  unfolding do_it_def by (rule plain_ask) (auto intro: finished)

lemma actions:
  "always R (do_it (Sleep d))" "always R (do_it (Close c))" "always R (do_it (Pause c))" "always R (do_it (Resume c))"
  "always R (do_it (StreamSend c p bs fin))" "always R (do_it (StreamReset c p code))"
  "always R (do_it (StreamStop c p code))" "always R (do_it (SendRecord c sid bs fin))" "always R (do_it (SendRaw c bs))"
  "always R (do_it (Complain msg k))" "always R (do_it (Kill g sig))" "always R (do_it RemoveFiles)"
  by (rule plain_do_it; simp add: plain_def)+

lemma guards: "always R (value_of x)" "always R (throw_if b e)"
  by (auto simp: value_of_def throw_if_def split: option.split intro: finished)

lemma request: "always R (request c k)"
  unfolding request_def by (intro then_do asking)

lemma each: "(\<And>x. always R (f x)) \<Longrightarrow> always R (each f xs)"
  by (induction xs) (auto intro: finished then_do)

lemma each_value: "(\<And>x. always R (f x)) \<Longrightarrow> always R (each_value f xs)"
  by (induction xs) (auto intro: finished then_do)

lemma close_all: "always R (close_all cs)"
  unfolding close_all_def by (intro each actions)

lemma let_in: "always R (f a) \<Longrightarrow> always R (Let a f)"
  by (simp add: Let_def)

lemma case_pair: "(\<And>x y. always R (f x y)) \<Longrightarrow> always R (case_prod f p)"
  by (cases p) simp

lemma conditional: "(b \<Longrightarrow> always R m) \<Longrightarrow> (\<not> b \<Longrightarrow> always R n) \<Longrightarrow> always R (if b then m else n)"
  by simp

lemma case_option: "always R m \<Longrightarrow> (\<And>x. always R (f x)) \<Longrightarrow> always R (case_option m f y)"
  by (cases y) simp_all

lemma poll: "(\<And>s. always R (round s)) \<Longrightarrow> (\<And>s. always R (expired s)) \<Longrightarrow> always R (poll n deadline round expired s)"
  by (induction n arbitrary: s) (auto intro!: finished then_do asking split: sum.split)

lemma poll_for: "(\<And>s. always R (round s)) \<Longrightarrow> (\<And>s. always R (expired s)) \<Longrightarrow> always R (poll_for n ms round expired s)"
  unfolding poll_for_def by (intro then_do asking poll)

lemmas rules = finished then_do catch try_finally get settled asking actions guards request each each_value close_all
  let_in case_pair conditional case_option poll poll_for

end

text \<open>A script that leaves the variables as they are.\<close>

abbreviation steady :: "('v, 'a) script \<Rightarrow> bool" where
  "steady \<equiv> always (\<lambda>v tr w. w = v)"

interpretation steady: run_relation "\<lambda>v tr w. w = v"
  by unfold_locales auto

lemmas steadyD = alwaysD [where R = "\<lambda>v tr w. w = v"]

end
