(* ===== verification/Script_Reports.thy ===== *)
theory Script_Reports
  imports Script_Invariants
begin

section \<open>Reports and clean-up\<close>

text \<open>
  A gate prints its report (\<open>console.log\<close>) as its last step and closes its clients in a \<open>finally\<close>. Both
  are shown by rules that follow the structure of a script: a quiet script prints nothing, and a script
  that reports last returns whenever it has printed.
\<close>

definition printed :: "observed list \<Rightarrow> bool" where
  "printed tr \<longleftrightarrow> (\<exists>j a. (Print j, a) \<in> set tr)"

lemma printed_simps [simp]:
  "\<not> printed []" "printed (tr @ tr') \<longleftrightarrow> printed tr \<or> printed tr'"
  "printed ((q, a) # tr) \<longleftrightarrow> (\<exists>j. q = Print j) \<or> printed tr"
  by (auto simp: printed_def)

definition unprinted :: "'v \<Rightarrow> observed list \<Rightarrow> 'v \<Rightarrow> bool" where
  "unprinted v tr w \<longleftrightarrow> \<not> printed tr"

abbreviation quiet :: "('v, 'a) script \<Rightarrow> bool" where
  "quiet \<equiv> always unprinted"

definition reports_last :: "('v, 'a) script \<Rightarrow> bool" where
  "reports_last m \<longleftrightarrow> (\<forall>v tr r w. play m v tr = Some (r, w) \<longrightarrow> printed tr \<longrightarrow> (\<exists>x. r = Returned x))"

named_theorems quiet_intros \<open>scripts that print nothing\<close>
named_theorems report_intros \<open>scripts that report last\<close>

lemma quietD: "quiet m \<Longrightarrow> play m v tr = Some R \<Longrightarrow> \<not> printed tr"
  by (cases R) (auto simp: unprinted_def dest: alwaysD)

lemma reports_lastI:
  "(\<And>v tr r w. play m v tr = Some (r, w) \<Longrightarrow> printed tr \<Longrightarrow> \<exists>x. r = Returned x) \<Longrightarrow> reports_last m"
  unfolding reports_last_def by blast

lemma reports_lastD: "reports_last m \<Longrightarrow> play m v tr = Some (r, w) \<Longrightarrow> printed tr \<Longrightarrow> \<exists>x. r = Returned x"
  unfolding reports_last_def by blast

subsection \<open>Quiet scripts\<close>

interpretation unprinted: run_relation unprinted
  by unfold_locales (auto simp: unprinted_def plain_def)

declare unprinted.rules [quiet_intros]

lemma quiet_put [quiet_intros]: "quiet m \<Longrightarrow> quiet (Put x m)"
  unfolding always_def unprinted_def by simp

lemma quiet_spawn [quiet_intros]: "quiet (spawn h)"
  unfolding spawn_def by (rule unprinted.ask) (auto simp: unprinted_def intro: quiet_intros)

subsection \<open>Reporting last\<close>

lemma reports_then_do [report_intros]:
  "quiet m \<Longrightarrow> (\<And>x. reports_last (f x)) \<Longrightarrow> reports_last (then_do m f)"
proof (rule reports_lastI)
  fix v tr r w
  assume q: "quiet m" "\<And>x. reports_last (f x)" and p: "play (then_do m f) v tr = Some (r, w)" and pr: "printed tr"
  from p consider (go) tr1 tr2 x v1 where "tr = tr1 @ tr2" "runs m v tr1 x v1" "play (f x) v1 tr2 = Some (r, w)"
    | (stop) r' where "play m v tr = Some (r', w)" unfolding play_then_do by blast
  then show "\<exists>x. r = Returned x"
  proof cases
    case go
    then show ?thesis using pr quietD [OF q(1)] reports_lastD [OF q(2)] by auto
  next
    case stop
    then show ?thesis using pr quietD [OF q(1)] by blast
  qed
qed

lemma reports_print [report_intros]:
  "reports_last (then_do (do_it (Print j)) (\<lambda>u. return x))"
  by (rule reports_lastI) (auto simp: play_do_it split: if_splits)

lemma reports_let [report_intros]: "reports_last (f a) \<Longrightarrow> reports_last (Let a f)"
  by (simp add: Let_def)

lemma reports_prod [report_intros]: "(\<And>x y. reports_last (f x y)) \<Longrightarrow> reports_last (case_prod f p)"
  by (cases p) simp

lemma reports_try_finally:
  assumes m: "reports_last m" and f: "quiet f" "\<And>v tr r w. play f v tr = Some (r, w) \<Longrightarrow> r = Returned ()"
  shows "reports_last (try_finally m f)"
proof (rule reports_lastI)
  fix v tr r w
  assume p: "play (try_finally m f) v tr = Some (r, w)" and pr: "printed tr"
  from p obtain tr1 tr2 q v1 where s: "tr = tr1 @ tr2" "play m v tr1 = Some (q, v1)"
    and t: "play (settle_do (\<lambda>r. then_do f (\<lambda>u. Done r)) q) v1 tr2 = Some (r, w)"
    unfolding try_finally_def play_on_outcome by blast
  have "\<not> printed tr2"
  proof -
    have "quiet (settle_do (\<lambda>r. then_do f (\<lambda>u. Done r)) q)"
      by (cases q) (auto intro!: quiet_intros f(1))
    then show ?thesis using t by (rule quietD)
  qed
  then have "printed tr1" using pr s by simp
  then obtain x where q: "q = Returned x" using reports_lastD [OF m s(2)] by blast
  then have "play (then_do f (\<lambda>u. Done q)) v1 tr2 = Some (r, w)" using t by simp
  then show "\<exists>x. r = Returned x" unfolding play_then_do q using f(2) by (auto split: if_splits)
qed

lemma reports_gate [report_intros]: "reports_last m \<Longrightarrow> reports_last (try_finally m (close_all cs))"
  by (rule reports_try_finally) (auto simp: play_close_all intro: quiet_intros)

subsection \<open>Gates\<close>

text \<open>
  A gate is a body that reports last and a finalizer that closes the clients there are (\<open>clients\<close>, given
  the variables), prints nothing and always returns.
\<close>

locale gate =
  fixes body finalizer :: "('v, unit) script"
    and clients :: "'v \<Rightarrow> nat list"
  assumes body_reports: "reports_last body"
    and finalizer_quiet: "quiet finalizer"
    and finalizer_returns: "play finalizer v tr = Some (r, w) \<Longrightarrow> r \<noteq> OutOfFuel \<Longrightarrow> r = Returned ()"
    and finalizer_closes:
      "play finalizer v tr = Some (r, w) \<Longrightarrow> r \<noteq> OutOfFuel \<Longrightarrow> c \<in> set (clients v) \<Longrightarrow> (Close c, ADone) \<in> set tr"
begin

lemma outcome_of_body:
  assumes "play (try_finally body finalizer) v tr = Some (r, w)" "r \<noteq> OutOfFuel"
  shows "\<exists>tr1 tr2 v1. tr = tr1 @ tr2 \<and> play body v tr1 = Some (r, v1) \<and>
     set (map (\<lambda>c. (Close c, ADone)) (clients v1)) \<subseteq> set tr2"
proof -
  obtain tr1 tr2 q v1 u where s: "tr = tr1 @ tr2" "play body v tr1 = Some (q, v1)" "u \<noteq> OutOfFuel"
    "play finalizer v1 tr2 = Some (u, w)" "r = (case u of Threw e \<Rightarrow> Threw e | _ \<Rightarrow> q)"
    using play_try_finally [OF assms] by blast
  then have "set (map (\<lambda>c. (Close c, ADone)) (clients v1)) \<subseteq> set tr2" "r = q"
    using finalizer_closes finalizer_returns [OF s(4,3)] by auto
  then show ?thesis using s by blast
qed

lemma report_means_success:
  assumes "play (try_finally body finalizer) v tr = Some (r, w)" "r \<noteq> OutOfFuel" "printed tr"
  shows "r = Returned ()"
proof -
  obtain tr1 tr2 q v1 u where s: "tr = tr1 @ tr2" "play body v tr1 = Some (q, v1)" "u \<noteq> OutOfFuel"
    "play finalizer v1 tr2 = Some (u, w)" "r = (case u of Threw e \<Rightarrow> Threw e | _ \<Rightarrow> q)"
    using play_try_finally [OF assms(1,2)] by blast
  then have "u = Returned ()" "\<not> printed tr2" using finalizer_returns quietD [OF finalizer_quiet] by blast+
  then have "\<exists>x. q = Returned x" using assms(3) s reports_lastD [OF body_reports s(2)] by simp
  then show ?thesis using s \<open>u = Returned ()\<close> by auto
qed

end

lemma gate_close_all: "reports_last body \<Longrightarrow> gate body (close_all cs) (\<lambda>v. cs)"
  by unfold_locales (auto simp: play_close_all intro: quiet_intros)

end
