(* ===== verification/Script_Calls.thy ===== *)
theory Script_Calls
  imports Script_Reports
begin

section \<open>What the scripts do with a client\<close>

text \<open>
  The steps that several scripts share: reading a field, a command with the session's token, the check
  of a created group, the pushes they wait for. A client is named by a number, in the order the script
  creates its clients.
\<close>

definition field :: "jsval \<Rightarrow> string \<Rightarrow> ('v, jsval) script" where
  "field v k = value_of (js_get v k)"

definition chain :: "jsval \<Rightarrow> js_read list \<Rightarrow> ('v, jsval) script" where
  "chain v ks = value_of (js_path v ks)"

definition authenticate :: "nat \<Rightarrow> string \<Rightarrow> string \<Rightarrow> string \<Rightarrow> ('v, jsval) script" where
  "authenticate c user pw action =
    then_do (request c (Authenticate user pw action)) (\<lambda>r. return (json r))"

text \<open>\<open>client.command(session.token, {...})\<close>, started, and awaited at once.\<close>

definition start_command :: "nat \<Rightarrow> jsval \<Rightarrow> (string \<times> jsval) list \<Rightarrow> ('v, nat) script" where
  "start_command c session body =
    then_do (field session ''token'') (\<lambda>tok. start (Client c (Command tok body)))"

definition command :: "nat \<Rightarrow> jsval \<Rightarrow> (string \<times> jsval) list \<Rightarrow> ('v, jsval) script" where
  "command c session body =
    then_do (start_command c session body) (\<lambda>p. then_do (await p) (\<lambda>r. return (json r)))"

definition group_of :: "jsval \<Rightarrow> string \<Rightarrow> ('v, jsval) script" where
  "group_of created msg =
    then_do (field created ''group'') (\<lambda>g.
    then_do (throw_if (js_or (falsy (js_path g [Opt ''id''])) (falsy (js_path g [Dot ''invite_code''])))
               (Err msg)) (\<lambda>u.
    return g))"

text \<open>\<open>const closed = c.waitForClose(); c.close(); await closed\<close>.\<close>

definition close_and_wait :: "nat \<Rightarrow> ('v, unit) script" where
  "close_and_wait c =
    then_do (start (Client c (WaitForClose 3000))) (\<lambda>p.
    then_do (do_it (Close c)) (\<lambda>u.
    then_do (await p) (\<lambda>r. return ())))"

text \<open>\<open>session.destID.toString()\<close>.\<close>

definition dest_text :: "jsval \<Rightarrow> ('v, jsval) script" where
  "dest_text session =
    then_do (field session ''destID'') (\<lambda>d. value_of (js_toString d))"

text \<open>\<open>array ?? []\<close>, and \<open>find\<close> and \<open>some\<close> on it.\<close>

fun array_or_empty :: "jsval \<Rightarrow> jsval list option" where
  "array_or_empty (JArr xs) = Some xs"
| "array_or_empty v = (if nullish v then Some [] else None)"

fun js_find :: "(jsval \<Rightarrow> bool option) \<Rightarrow> jsval list \<Rightarrow> jsval option" where
  "js_find p [] = Some JUndefined"
| "js_find p (x # xs) = (case p x of None \<Rightarrow> None | Some b \<Rightarrow> if b then Some x else js_find p xs)"

fun js_some :: "(jsval \<Rightarrow> bool option) \<Rightarrow> jsval list \<Rightarrow> bool option" where
  "js_some p [] = Some False"
| "js_some p (x # xs) = (case p x of None \<Rightarrow> None | Some b \<Rightarrow> if b then Some True else js_some p xs)"

definition same :: "jsval option \<Rightarrow> jsval option \<Rightarrow> bool option" where
  "same a b = map_option Not (differ a b)"

definition js_and :: "bool option \<Rightarrow> bool option \<Rightarrow> bool option" where
  "js_and a b = (case a of None \<Rightarrow> None | Some x \<Rightarrow> if x then b else Some False)"

lemma same_True [simp]:
  "same a b = Some True \<longleftrightarrow> (\<exists>x y. a = Some x \<and> b = Some y \<and> js_same x y)"
  by (auto simp: same_def differ_def split: option.splits)

lemma js_and_True [simp]: "js_and a b = Some True \<longleftrightarrow> a = Some True \<and> b = Some True"
  by (auto simp: js_and_def split: option.splits)

lemma js_same_literal [simp]: "js_same x (JNum n) \<longleftrightarrow> x = JNum n" "js_same x (JBool b) \<longleftrightarrow> x = JBool b"
  "js_same x (JStr s) \<longleftrightarrow> x = JStr s"
  by (cases x; auto)+

lemma js_find_found:
  "js_find p xs = Some x \<Longrightarrow> x \<noteq> JUndefined \<Longrightarrow> x \<in> set xs \<and> p x = Some True"
  by (induction xs) (auto split: option.splits if_splits)

lemma array_or_empty_in: "array_or_empty v = Some xs \<Longrightarrow> x \<in> set xs \<Longrightarrow> v = JArr xs"
  by (cases v) auto

text \<open>The predicate of the pushes the scripts wait for.\<close>

definition is_message_push :: "string \<Rightarrow> jsval \<Rightarrow> bool option" where
  "is_message_push txt event =
    js_and (same (js_path event [Dot ''payload'', Opt ''type'']) (Some (JStr ''message'')))
      (same (js_path event [Dot ''payload'', Dot ''message'', Opt ''text'']) (Some (JStr txt)))"

text \<open>The \<open>!a.message?.id || b.payload.message?.id !== a.message.id\<close> of a push against a reply.\<close>

definition reply_id :: "jsval \<Rightarrow> jsval option" where
  "reply_id r = js_path r [Dot ''message'', Opt ''id'']"

definition push_id :: "jsval \<Rightarrow> jsval option" where
  "push_id e = js_path e [Dot ''payload'', Dot ''message'', Opt ''id'']"

lemma then_do_calls [simp]:
  "then_do (field v k) f = then_do (value_of (js_get v k)) f"
  "then_do (chain v ks) f = then_do (value_of (js_path v ks)) f"
  "then_do (authenticate c user pw action) g = then_do (request c (Authenticate user pw action)) (\<lambda>r. g (json r))"
  "then_do (start_command c session body) h =
     then_do (value_of (js_get session ''token'')) (\<lambda>tok. then_do (start (Client c (Command tok body))) h)"
  "then_do (command c session body) g =
     then_do (value_of (js_get session ''token'')) (\<lambda>tok.
     then_do (start (Client c (Command tok body))) (\<lambda>p. then_do (await p) (\<lambda>r. g (json r))))"
  "then_do (group_of created msg) g =
     then_do (value_of (js_get created ''group'')) (\<lambda>x.
     then_do (throw_if (js_or (falsy (js_path x [Opt ''id''])) (falsy (js_path x [Dot ''invite_code''])))
               (Err msg)) (\<lambda>u. g x))"
  "then_do (dest_text session) g =
     then_do (value_of (js_get session ''destID'')) (\<lambda>d. then_do (value_of (js_toString d)) g)"
  by (simp_all add: dest_text_def field_def chain_def authenticate_def start_command_def command_def group_of_def then_do_assoc)

lemma ends_calls [ends_intros]:
  "ends (close_and_wait c)" "ends (dest_text session)"
  "ends (field v k)" "ends (chain v ks)" "ends (authenticate c user pw action)"
  "ends (start_command c session body)" "ends (command c session body)" "ends (group_of created msg)"
  unfolding field_def chain_def authenticate_def start_command_def command_def group_of_def
    close_and_wait_def dest_text_def
  by (intro ends_intros)+

lemma quiet_calls [quiet_intros]:
  "quiet (close_and_wait c)" "quiet (dest_text session)"
  "quiet (field v k)" "quiet (chain v ks)" "quiet (authenticate c user pw action)"
  "quiet (start_command c session body)" "quiet (command c session body)" "quiet (group_of created msg)"
  unfolding field_def chain_def authenticate_def start_command_def command_def group_of_def
    close_and_wait_def dest_text_def
  by (intro quiet_intros)+

lemma runs_close_and_waitE:
  assumes "runs (then_do (close_and_wait c) f) v tr x w"
  obtains t1 t2 t3 where "tr = t1 @ (Close c, ADone) # t2 @ t3" "runs (f ()) v t3 x w"
proof -
  obtain p r tr' where "tr = (Start (Client c (WaitForClose 3000)), APromise p) # (Close c, ADone)
      # (Await p, AResult (Inr r)) # tr'" "runs (f ()) v tr' x w"
    using assms by (auto simp: close_and_wait_def then_do_assoc run_simps)
  then show ?thesis using that [of "[(Start (Client c (WaitForClose 3000)), APromise p)]"
      "[(Await p, AResult (Inr r))]" tr'] by simp
qed

lemma runs_sleepE:
  assumes "runs (then_do (do_it (Sleep d)) f) v tr x w"
  obtains t1 where "tr = (Sleep d, ADone) # t1" "runs (f ()) v t1 x w"
  using assms by (auto simp: play_do_it)

text \<open>
  What a run shows. A call was fulfilled with a value: it was started and its promise awaited, alone or
  in a \<open>Promise.all\<close>.
\<close>

definition awaited :: "observed list \<Rightarrow> nat \<Rightarrow> settled \<Rightarrow> bool" where
  "awaited tr p y \<longleftrightarrow> (Await p, AResult (Inr y)) \<in> set tr \<or>
     (\<exists>ps ys i. (AwaitAll ps, AResults (Inr ys)) \<in> set tr \<and> i < length ps \<and> i < length ys \<and>
        ps ! i = p \<and> ys ! i = y)"

definition fulfilled :: "observed list \<Rightarrow> call \<Rightarrow> settled \<Rightarrow> bool" where
  "fulfilled tr c y \<longleftrightarrow> (\<exists>p. (Start c, APromise p) \<in> set tr \<and> awaited tr p y)"

lemma awaited_mono: "awaited tr p y \<Longrightarrow> set tr \<subseteq> set tr' \<Longrightarrow> awaited tr' p y"
  unfolding awaited_def by blast

lemma fulfilled_mono: "fulfilled tr c y \<Longrightarrow> set tr \<subseteq> set tr' \<Longrightarrow> fulfilled tr' c y"
  unfolding fulfilled_def using awaited_mono by blast

lemma fulfilled_append: "fulfilled tr c y \<Longrightarrow> fulfilled (tr @ tr') c y"
  by (erule fulfilled_mono) auto

lemma fulfilledI:
  "(Start c, APromise p) \<in> set tr \<Longrightarrow> (Await p, AResult (Inr y)) \<in> set tr \<Longrightarrow> fulfilled tr c y"
  unfolding fulfilled_def awaited_def by blast

lemma fulfilled_allI:
  "(Start c, APromise p) \<in> set tr \<Longrightarrow> (AwaitAll ps, AResults (Inr ys)) \<in> set tr \<Longrightarrow>
   i < length ps \<Longrightarrow> i < length ys \<Longrightarrow> ps ! i = p \<Longrightarrow> ys ! i = y \<Longrightarrow> fulfilled tr c y"
  unfolding fulfilled_def awaited_def by blast

text \<open>Calls started one after the other and awaited together.\<close>

lemma runs_started:
  assumes "runs (each_value (\<lambda>x. start (g x)) xs) v tr ps w"
  shows "length ps = length xs \<and> w = v \<and> (\<forall>k < length xs. (Start (g (xs ! k)), APromise (ps ! k)) \<in> set tr)"
  using assms
proof (induction xs arbitrary: tr ps)
  case (Cons c cs)
  then obtain p ps' tr2 where tr: "tr = (Start (g c), APromise p) # tr2" "ps = p # ps'"
    and r: "runs (each_value (\<lambda>x. start (g x)) cs) v tr2 ps' w"
    by (auto simp: run_simps runs_then_do [where m = "each_value f xs" for f xs] split: if_splits)
  show ?case
  proof (intro conjI allI impI)
    fix k assume "k < length (c # cs)"
    then show "(Start (g ((c # cs) ! k)), APromise (ps ! k)) \<in> set tr"
      using Cons.IH [OF r] tr by (cases k) auto
  qed (use Cons.IH [OF r] tr in auto)
qed (auto split: if_splits)

lemma runs_start_allE:
  assumes "runs (then_do (each_value (\<lambda>x. start (g x)) xs) (\<lambda>ps. then_do (await_all ps) f)) v tr y w"
  obtains t1 t2 rs where "tr = t1 @ t2" "length rs = length xs" "runs (f rs) v t2 y w"
    "\<And>k. k < length xs \<Longrightarrow> fulfilled t1 (g (xs ! k)) (rs ! k)"
proof -
  from assms obtain t1 t2 ps rs v1 where t: "tr = t1 @ (AwaitAll ps, AResults (Inr rs)) # t2"
    and r: "runs (each_value (\<lambda>x. start (g x)) xs) v t1 ps v1" "length rs = length ps" "runs (f rs) v1 t2 y w"
    by (auto simp: run_simps runs_then_do [where m = "each_value f xs" for f xs])
  note s = runs_started [OF r(1)]
  have "fulfilled (t1 @ [(AwaitAll ps, AResults (Inr rs))]) (g (xs ! k)) (rs ! k)" if "k < length xs" for k
    by (rule fulfilled_allI [of _ "ps ! k" _ ps rs k]) (use s r(2) that in auto)
  then show ?thesis using that [of "t1 @ [(AwaitAll ps, AResults (Inr rs))]" t2 rs] t r s by simp
qed

text \<open>A client created this group; another joined it with its invite code.\<close>

definition created_group :: "observed list \<Rightarrow> nat \<Rightarrow> string \<Rightarrow> jsval \<Rightarrow> bool" where
  "created_group tr c name grp \<longleftrightarrow> (\<exists>tok y.
     fulfilled tr (Client c (Command tok [(''type'', JStr ''create_group''), (''name'', JStr name)])) y \<and>
     js_get (json y) ''group'' = Some grp)"

definition joined_group :: "observed list \<Rightarrow> nat \<Rightarrow> jsval \<Rightarrow> jsval \<Rightarrow> bool" where
  "joined_group tr c tok grp \<longleftrightarrow> (\<exists>code y. js_get grp ''invite_code'' = Some code \<and>
     fulfilled tr (Client c (Command tok [(''type'', JStr ''join_group''), (''invite_code'', code)])) y)"

lemma created_group_mono: "created_group tr c name grp \<Longrightarrow> created_group (tr @ tr') c name grp"
  unfolding created_group_def using fulfilled_append by blast

lemma joined_group_mono: "joined_group tr c tok grp \<Longrightarrow> joined_group (tr @ tr') c tok grp"
  unfolding joined_group_def using fulfilled_append by blast

end
