(* ===== verification/Gate_Presence.thy ===== *)
theory Gate_Presence
  imports Script_Calls
begin

section \<open>The presence gate (\<open>validation/wss-presence.mjs\<close>)\<close>

text \<open>
  Two sessions of one user and an observer: the observer must see two sessions, one after the second
  has closed, still one after a lease renewal, and none after the last has closed. Client 0 is
  \<open>memberA\<close>, 1 \<open>memberB\<close>, 2 \<open>observer\<close>; \<open>sfx\<close> is the random suffix.
\<close>

definition member_name :: "string \<Rightarrow> string" where "member_name sfx = ''wp_member_'' @ sfx"
definition observer_name :: "string \<Rightarrow> string" where "observer_name sfx = ''wp_observer_'' @ sfx"
definition presence_group :: "string \<Rightarrow> string" where "presence_group sfx = ''WSS presence '' @ sfx"
definition presence_password :: string where "presence_password = ''Wss-presence-valid-password-2026''"

definition findPresence :: "jsval \<Rightarrow> string \<Rightarrow> jsval option" where
  "findPresence result username =
    (case js_get result ''presence'' of None \<Rightarrow> None
     | Some p \<Rightarrow> (case array_or_empty p of None \<Rightarrow> None
        | Some items \<Rightarrow>
            js_find (\<lambda>item. same (js_path item [Dot ''user'', Opt ''username'']) (Some (JStr username))) items))"

definition converged :: "jsval \<Rightarrow> nat \<Rightarrow> bool option" where
  "converged item expected =
    js_and (same (js_path item [Opt ''online_sessions'']) (Some (JNum (int expected))))
      (same (js_path item [Dot ''online'']) (Some (JBool (0 < expected))))"

definition presence_request :: "jsval \<Rightarrow> (string \<times> jsval) list" where
  "presence_request gid = [(''type'', JStr ''presence''), (''group_id'', gid)]"

text \<open>One round of the loop of \<open>waitForSessions\<close>; the state is \<open>last\<close>.\<close>

definition sessions_round ::
  "string \<Rightarrow> nat \<Rightarrow> jsval \<Rightarrow> jsval \<Rightarrow> nat \<Rightarrow> jsval \<Rightarrow> ('v, jsval + jsval) script" where
  "sessions_round username client tok gid expected prev =
    then_do (request client (Command tok (presence_request gid))) (\<lambda>r.
    then_do (value_of (findPresence (json r) username)) (\<lambda>item.
    then_do (value_of (converged item expected)) (\<lambda>ok.
    if ok then return (Inr item)
    else then_do (do_it (Sleep 50)) (\<lambda>u. return (Inl item)))))"

definition sessions_expired :: "nat \<Rightarrow> jsval \<Rightarrow> script_error" where
  "sessions_expired expected prev =
    ErrJson (''presence did not converge to '' @ show_nat expected @ '' sessions: '') prev"

definition waitForSessions ::
  "nat \<Rightarrow> string \<Rightarrow> nat \<Rightarrow> jsval \<Rightarrow> jsval \<Rightarrow> nat \<Rightarrow> ('v, jsval) script" where
  "waitForSessions fuel username client tok gid expected =
    poll_for fuel 5000 (sessions_round username client tok gid expected) (\<lambda>prev. throw (sessions_expired expected prev)) JNull"

text \<open>At least 49 of the 5000 milliseconds pass in a round.\<close>

definition sessions_fuel :: nat where "sessions_fuel = 104"

definition presence_report :: "string \<Rightarrow> jsval \<Rightarrow> jsval \<Rightarrow> jsval \<Rightarrow> jsval" where
  "presence_report sfx gid destA destB = JObj
    [(''ok'', JBool True), (''group_id'', gid),
     (''member'', JObj [(''username'', JStr (member_name sfx)), (''dest_id_a'', destA), (''dest_id_b'', destB)]),
     (''presence_sequence'', JArr [JNum 2, JNum 1, JStr ''renewed-after-16s'', JNum 0])]"

definition presence_setup :: "string \<Rightarrow> ('v, jsval \<times> jsval \<times> jsval \<times> jsval) script" where
  "presence_setup sfx =
    then_do (start (Client 0 Connect)) (\<lambda>pa.
    then_do (start (Client 1 Connect)) (\<lambda>pb.
    then_do (start (Client 2 Connect)) (\<lambda>pc.
    then_do (await_all [pa, pb, pc]) (\<lambda>rs.
    then_do (authenticate 0 (member_name sfx) presence_password ''register'') (\<lambda>sessionA.
    then_do (start (Client 1 (Authenticate (member_name sfx) presence_password ''login''))) (\<lambda>qb.
    then_do (start (Client 2 (Authenticate (observer_name sfx) presence_password ''register''))) (\<lambda>qc.
    then_do (await_all [qb, qc]) (\<lambda>ss.
    let sessionB = json (ss ! 0); sessionC = json (ss ! 1) in
    then_do (command 0 sessionA [(''type'', JStr ''create_group''), (''name'', JStr (presence_group sfx))])
      (\<lambda>created.
    then_do (group_of created ''create_group returned no group'') (\<lambda>grp.
    then_do (field grp ''invite_code'') (\<lambda>code.
    then_do (command 2 sessionC [(''type'', JStr ''join_group''), (''invite_code'', code)]) (\<lambda>joined.
    return (sessionA, sessionB, sessionC, grp)))))))))))))"

definition presence_checks ::
  "nat \<Rightarrow> string \<Rightarrow> jsval \<Rightarrow> jsval \<Rightarrow> jsval \<Rightarrow> jsval \<Rightarrow> ('v, unit) script" where
  "presence_checks fuel sfx tok gid sessionA sessionB =
    (let wait = waitForSessions fuel (member_name sfx) 2 tok gid in
    then_do (wait 2) (\<lambda>a.
    then_do (close_and_wait 1) (\<lambda>u.
    then_do (wait 1) (\<lambda>b.
    then_do (do_it (Sleep 16000)) (\<lambda>u.
    then_do (wait 1) (\<lambda>c.
    then_do (close_and_wait 0) (\<lambda>u.
    then_do (wait 0) (\<lambda>d.
    then_do (dest_text sessionA) (\<lambda>destA.
    then_do (dest_text sessionB) (\<lambda>destB.
    then_do (do_it (Print (presence_report sfx gid destA destB))) (\<lambda>u.
    return ())))))))))))"

definition presence_body :: "nat \<Rightarrow> string \<Rightarrow> ('v, unit) script" where
  "presence_body fuel sfx =
    then_do (presence_setup sfx) (\<lambda>(sessionA, sessionB, sessionC, grp).
    then_do (field sessionC ''token'') (\<lambda>tok.
    then_do (field grp ''id'') (\<lambda>gid.
    presence_checks fuel sfx tok gid sessionA sessionB)))"

definition presence_gate :: "nat \<Rightarrow> string \<Rightarrow> ('v, unit) script" where
  "presence_gate fuel sfx = try_finally (presence_body fuel sfx) (close_all [0, 1, 2])"

subsection \<open>The wait for a number of sessions\<close>

text \<open>The observer was shown this number: a presence answer of its own with the member's item.\<close>

definition shown :: "observed list \<Rightarrow> string \<Rightarrow> nat \<Rightarrow> jsval \<Rightarrow> jsval \<Rightarrow> nat \<Rightarrow> bool" where
  "shown tr username client tok gid n \<longleftrightarrow> (\<exists>y item.
     fulfilled tr (Client client (Command tok (presence_request gid))) y \<and>
     findPresence (json y) username = Some item \<and>
     js_get item ''online_sessions'' = Some (JNum (int n)) \<and> js_get item ''online'' = Some (JBool (0 < n)))"

lemma converged_True:
  assumes "converged item n = Some True"
  shows "js_get item ''online_sessions'' = Some (JNum (int n)) \<and> js_get item ''online'' = Some (JBool (0 < n))"
  using assms by (cases "js_get item ''online''"; cases "nullish item")
    (auto simp: converged_def js_path.simps split: option.splits)

lemma runs_round:
  assumes "runs (sessions_round username client tok gid n prev) v tr (Inr x) w"
  shows "shown tr username client tok gid n"
proof -
  obtain p y tr' where tr: "tr = (Start (Client client (Command tok (presence_request gid))), APromise p)
        # (Await p, AResult (Inr y)) # tr'"
    and item: "findPresence (json y) username = Some x" "converged x n = Some True"
    using assms by (auto simp: sessions_round_def run_simps split: if_splits)
  have "fulfilled tr (Client client (Command tok (presence_request gid))) y"
    using tr by (intro fulfilledI [of _ p]) simp_all
  then show ?thesis unfolding shown_def using item converged_True by blast
qed

lemma runs_waitForSessions:
  assumes "runs (waitForSessions fuel username client tok gid n) v tr x w"
  shows "shown tr username client tok gid n"
proof -
  obtain s v' tr1 tr2 where tr: "tr = tr1 @ tr2"
    and r: "runs (sessions_round username client tok gid n s) v' tr2 (Inr x) w"
    using runs_poll_for [OF assms [unfolded waitForSessions_def] runs_throw] by blast
  from runs_round [OF r] show ?thesis
    unfolding shown_def using tr fulfilled_mono [of tr2 _ _ tr] by auto
qed

interpretation sessions: polling "sessions_round username client tok gid expected" 49
  for username client tok gid expected
proof unfold_locales
  fix prev
  show "ends (sessions_round username client tok gid expected prev)"
    unfolding sessions_round_def by (intro ends_intros)
next
  fix prev v tr item w t
  assume r: "runs (sessions_round username client tok gid expected prev) v tr (Inl item) w" and ok: "clock_ok t tr"
  have "(Sleep 50, ADone) \<in> set tr"
    using r by (auto simp: sessions_round_def run_simps split: if_splits)
  from sleep_takes [OF ok this] show "t + 49 \<le> clock_end t tr" by simp
qed simp

lemma waitForSessions_ends [ends_intros]:
  "sessions_fuel \<le> fuel \<Longrightarrow> ends (waitForSessions fuel username client tok gid n)"
  unfolding waitForSessions_def sessions_fuel_def by (rule sessions.poll_for_ends [of _ 103]) (simp_all add: ends_done)

subsection \<open>The gate\<close>

lemma ends_presence_parts [ends_intros]: "ends (presence_setup sfx)"
  unfolding presence_setup_def by (intro ends_intros)

lemmas runs_parts = runs_then_do [where m = "waitForSessions f u c k g n" for f u c k g n]
  runs_then_do [where m = "presence_setup f" for f]

lemma shown_mono: "shown tr u c k g n \<Longrightarrow> set tr \<subseteq> set tr' \<Longrightarrow> shown tr' u c k g n"
  unfolding shown_def using fulfilled_mono by blast

lemma runs_waitE:
  assumes "runs (then_do (waitForSessions fuel u c k g n) f) v tr x w"
  obtains t1 t2 y v1 where "tr = t1 @ t2" "shown t1 u c k g n" "runs (f y) v1 t2 x w"
  using assms unfolding runs_then_do
  by (elim exE conjE) (rule that, assumption, rule runs_waitForSessions, assumption+)

lemma runs_checks:
  assumes "runs (presence_checks fuel sfx tok gid sA sB) v tr x w"
  shows "\<exists>t1 t2 t3 t4 t5 t6 t7 t8 t9. tr = t1 @ t2 @ (Close 1, ADone) # t3 @ t4 @ (Sleep 16000, ADone)
              # t5 @ t6 @ (Close 0, ADone) # t7 @ t8 @ t9 \<and>
    shown t1 (member_name sfx) 2 tok gid 2 \<and> shown t4 (member_name sfx) 2 tok gid 1 \<and>
    shown t5 (member_name sfx) 2 tok gid 1 \<and> shown t8 (member_name sfx) 2 tok gid 0"
  using assms unfolding presence_checks_def Let_def
  by (elim runs_waitE runs_close_and_waitE runs_sleepE) (intro exI conjI, simp only: append_assoc append_Cons)

lemma runs_setup:
  assumes "runs (presence_setup sfx) v tr (sA, sB, sC, grp) w" "js_get sC ''token'' = Some tok"
  shows "created_group tr 0 (presence_group sfx) grp \<and> joined_group tr 2 tok grp"
  using assms unfolding presence_setup_def created_group_def joined_group_def Let_def
  by (clarsimp simp: run_simps split: if_splits)
    (rule exI conjI fulfilledI list.set_intros | assumption)+

text \<open>C40: What a successful run of the presence gate has shown: in a group that one client made and the third joined,
  the member was seen with two sessions, after a client was closed with one, 16 seconds later still with
  one, and after the other was closed with none; all clients were closed at the end.\<close>

theorem presence_gate_sound:
  assumes "runs (presence_gate fuel sfx) v tr x w"
  shows "\<exists>grp gid tok t1 t2 t3 t4.
    tr = t1 @ [(Close 1, ADone)] @ t2 @ [(Sleep 16000, ADone)] @ t3 @ [(Close 0, ADone)] @ t4
           @ [(Close 0, ADone), (Close 1, ADone), (Close 2, ADone)] \<and>
    created_group t1 0 (presence_group sfx) grp \<and> joined_group t1 2 tok grp \<and> js_get grp ''id'' = Some gid \<and>
    shown t1 (member_name sfx) 2 tok gid 2 \<and> shown t2 (member_name sfx) 2 tok gid 1 \<and>
    shown t3 (member_name sfx) 2 tok gid 1 \<and> shown t4 (member_name sfx) 2 tok gid 0"
proof -
  obtain tb where tr: "tr = tb @ [(Close 0, ADone), (Close 1, ADone), (Close 2, ADone)]"
    and body: "runs (presence_body fuel sfx) v tb () w"
    using assms unfolding presence_gate_def runs_try_finally play_close_all by auto
  obtain sA sB sC grp tok gid t0 v0 tc where t0: "tb = t0 @ tc"
    and su: "runs (presence_setup sfx) v t0 (sA, sB, sC, grp) v0" "js_get sC ''token'' = Some tok"
    and gid: "js_get grp ''id'' = Some gid"
    and checks: "runs (presence_checks fuel sfx tok gid sA sB) v0 tc () w"
    using body unfolding presence_body_def by (auto simp: run_simps runs_parts)
  note group = runs_setup [OF su]
  from runs_checks [OF checks] obtain t1 t2 t3 t4 t5 t6 t7 t8 t9 where
    split: "tc = t1 @ t2 @ (Close 1, ADone) # t3 @ t4 @ (Sleep 16000, ADone)
              # t5 @ t6 @ (Close 0, ADone) # t7 @ t8 @ t9"
    and sh: "shown t1 (member_name sfx) 2 tok gid 2" "shown t4 (member_name sfx) 2 tok gid 1"
      "shown t5 (member_name sfx) 2 tok gid 1" "shown t8 (member_name sfx) 2 tok gid 0"
    by blast
  show ?thesis
  proof (intro exI conjI)
    show "tr = (t0 @ t1 @ t2) @ [(Close 1, ADone)] @ (t3 @ t4) @ [(Sleep 16000, ADone)] @ (t5 @ t6)
        @ [(Close 0, ADone)] @ (t7 @ t8 @ t9) @ [(Close 0, ADone), (Close 1, ADone), (Close 2, ADone)]"
      using tr t0 split by simp
    show "created_group (t0 @ t1 @ t2) 0 (presence_group sfx) grp"
      using group created_group_mono by simp
    show "joined_group (t0 @ t1 @ t2) 2 tok grp"
      using group joined_group_mono by simp
  qed (use sh gid in \<open>auto elim: shown_mono\<close>)
qed

lemma quiet_presence_parts [quiet_intros]:
  "quiet (presence_setup sfx)" "quiet (waitForSessions fuel u c k g n)"
  unfolding presence_setup_def waitForSessions_def sessions_round_def
  by (intro quiet_intros)+

interpretation presence: gate "presence_body fuel sfx" "close_all [0, 1, 2]" "\<lambda>v. [0, 1, 2]" for fuel sfx
  by (rule gate_close_all)
    (unfold presence_body_def presence_checks_def, intro report_intros quiet_intros)

theorem presence_gate_ends:
  "sessions_fuel \<le> fuel \<Longrightarrow> ends (presence_gate fuel sfx)"
  unfolding presence_gate_def presence_body_def presence_checks_def
  by (intro ends_intros)

end
