(* ===== verification/Script_Messages.thy ===== *)
theory Script_Messages
  imports Script_Calls
begin

section \<open>Messages of the scripts\<close>

text \<open>
  The requests of the message gates, and what a run shows of a message: that it was sent and stored,
  that a history has it, that it was pushed.
\<close>

definition send_request :: "jsval \<Rightarrow> string \<Rightarrow> (string \<times> jsval) list" where
  "send_request gid txt = [(''type'', JStr ''send_message''), (''group_id'', gid), (''text'', JStr txt)]"

definition history_request :: "jsval \<Rightarrow> (string \<times> jsval) list" where
  "history_request gid = [(''type'', JStr ''history''), (''group_id'', gid)]"

text \<open>Reading \<open>a.b\<close> gives what \<open>a?.b\<close> gave, where that was not \<open>undefined\<close>.\<close>

lemma js_path_two:
  "js_path r [Dot k, Dot l] = (case js_get r k of None \<Rightarrow> None | Some m \<Rightarrow> js_get m l)"
  by (auto simp: js_path.simps split: option.splits)

lemma opt_read: "js_path m [Opt l] = Some x \<Longrightarrow> js_truthy x \<Longrightarrow> js_get m l = Some x"
  by (auto simp: js_path.simps split: if_splits option.splits)

lemma reply_id_read: "reply_id r = Some x \<Longrightarrow> js_truthy x \<Longrightarrow> js_path r [Dot ''message'', Dot ''id''] = Some x"
  by (auto simp: reply_id_def js_path.simps split: if_splits option.splits)

text \<open>A client sent this text and its reply gave the message this id.\<close>

definition sent_message :: "observed list \<Rightarrow> nat \<Rightarrow> jsval \<Rightarrow> string \<Rightarrow> jsval \<Rightarrow> bool" where
  "sent_message tr c gid txt mid \<longleftrightarrow> (\<exists>tok y. fulfilled tr (Client c (Command tok (send_request gid txt))) y \<and>
     js_path (json y) [Dot ''message'', Dot ''id''] = Some mid \<and> js_truthy mid)"

text \<open>A client's history of the group has the text under this id.\<close>

definition in_history :: "observed list \<Rightarrow> nat \<Rightarrow> jsval \<Rightarrow> string \<Rightarrow> jsval \<Rightarrow> bool" where
  "in_history tr c gid txt mid \<longleftrightarrow> (\<exists>tok y ms m mid'. fulfilled tr (Client c (Command tok (history_request gid))) y \<and>
     js_get (json y) ''messages'' = Some (JArr ms) \<and> m \<in> set ms \<and>
     js_get m ''id'' = Some mid' \<and> js_same mid' mid \<and> js_get m ''text'' = Some (JStr txt))"

lemma in_historyI:
  "fulfilled tr (Client c (Command tok (history_request gid))) y \<Longrightarrow> js_get (json y) ''messages'' = Some (JArr ms) \<Longrightarrow>
   m \<in> set ms \<Longrightarrow> js_get m ''id'' = Some mid' \<Longrightarrow> js_same mid' mid \<Longrightarrow> js_get m ''text'' = Some (JStr txt) \<Longrightarrow>
   in_history tr c gid txt mid"
  unfolding in_history_def by blast

text \<open>A client was pushed the message with this text and id.\<close>

definition pushed :: "observed list \<Rightarrow> nat \<Rightarrow> string \<Rightarrow> jsval \<Rightarrow> bool" where
  "pushed tr c txt mid \<longleftrightarrow> (\<exists>y mid'. fulfilled tr (Client c (WaitForPush txt)) y \<and>
     push_id (json y) = Some mid' \<and> js_same mid' mid)"

lemma sent_message_mono: "sent_message tr c gid txt mid \<Longrightarrow> set tr \<subseteq> set tr' \<Longrightarrow> sent_message tr' c gid txt mid"
  unfolding sent_message_def using fulfilled_mono by meson

lemma pushed_mono: "pushed tr c txt mid \<Longrightarrow> set tr \<subseteq> set tr' \<Longrightarrow> pushed tr' c txt mid"
  unfolding pushed_def using fulfilled_mono by meson

lemma in_history_mono: "in_history tr c gid txt mid \<Longrightarrow> set tr \<subseteq> set tr' \<Longrightarrow> in_history tr' c gid txt mid"
  unfolding in_history_def using fulfilled_mono by meson

lemma pushedI:
  "fulfilled tr (Client c (WaitForPush txt)) y \<Longrightarrow> push_id (json y) = Some mid' \<Longrightarrow> js_same mid' mid \<Longrightarrow>
   pushed tr c txt mid"
  unfolding pushed_def by (intro exI conjI)

lemma sent_messageI:
  "fulfilled tr (Client c (Command tok (send_request gid txt))) y \<Longrightarrow> reply_id (json y) = Some mid \<Longrightarrow>
   js_truthy mid \<Longrightarrow> sent_message tr c gid txt mid"
  unfolding sent_message_def using reply_id_read by blast

end
