(* ===== verification/Gate_Reconnect.thy ===== *)
theory Gate_Reconnect
  imports Script_Messages
begin

section \<open>The reconnect gate (\<open>validation/wss-reconnect-im.mjs\<close>)\<close>

text \<open>
  A receiver goes away, misses a message, comes back and must find it in the history; then a live push
  must work again. Client 0 is \<open>sender\<close>, 1 \<open>receiver\<close>, 2 \<open>recovered\<close>, which the finalizer closes if it
  was made.
\<close>

record reconnect_vars =
  recovered :: bool

definition reconnect_password :: string where "reconnect_password = ''Wss-reconnect-valid-password-2026''"
definition sender_name :: "string \<Rightarrow> string" where "sender_name sfx = ''wr_s_'' @ sfx"
definition receiver_name :: "string \<Rightarrow> string" where "receiver_name sfx = ''wr_r_'' @ sfx"
definition reconnect_group :: "string \<Rightarrow> string" where "reconnect_group sfx = ''WSS reconnect '' @ sfx"
definition missed_text :: "string \<Rightarrow> string" where "missed_text sfx = ''persisted-while-offline-'' @ sfx"
definition live_text :: "string \<Rightarrow> string" where "live_text sfx = ''live-after-reconnect-'' @ sfx"

definition reconnect_setup :: "string \<Rightarrow> ('v, jsval \<times> jsval \<times> jsval) script" where
  "reconnect_setup sfx =
    then_do (start (Client 0 Connect)) (\<lambda>pa.
    then_do (start (Client 1 Connect)) (\<lambda>pb.
    then_do (await_all [pa, pb]) (\<lambda>rs.
    then_do (start (Client 0 (Authenticate (sender_name sfx) reconnect_password ''register''))) (\<lambda>qa.
    then_do (start (Client 1 (Authenticate (receiver_name sfx) reconnect_password ''register''))) (\<lambda>qb.
    then_do (await_all [qa, qb]) (\<lambda>ss.
    let senderSession = json (ss ! 0); receiverSession = json (ss ! 1) in
    then_do (command 0 senderSession [(''type'', JStr ''create_group''), (''name'', JStr (reconnect_group sfx))])
      (\<lambda>created.
    then_do (group_of created ''create_group returned no group'') (\<lambda>grp.
    then_do (field grp ''invite_code'') (\<lambda>code.
    then_do (command 1 receiverSession [(''type'', JStr ''join_group''), (''invite_code'', code)]) (\<lambda>joined.
    then_do (throw_if (differ (js_path joined [Dot ''group'', Opt ''id'']) (js_get grp ''id''))
              (Err ''receiver failed to join group'')) (\<lambda>u.
    return (senderSession, receiverSession, grp))))))))))))"

definition reconnect_missed :: "string \<Rightarrow> jsval \<Rightarrow> jsval \<Rightarrow> ('v, jsval) script" where
  "reconnect_missed sfx senderSession grp =
    then_do (close_and_wait 1) (\<lambda>u.
    then_do (do_it (Sleep 50)) (\<lambda>u.
    then_do (field grp ''id'') (\<lambda>gid.
    then_do (command 0 senderSession (send_request gid (missed_text sfx))) (\<lambda>missed.
    then_do (throw_if (falsy (reply_id missed)) (Err ''offline-window message was not persisted'')) (\<lambda>u.
    return missed)))))"

definition reconnect_history :: "string \<Rightarrow> jsval \<Rightarrow> jsval \<Rightarrow> (reconnect_vars, jsval) script" where
  "reconnect_history sfx grp missed =
    Put \<lparr>recovered = True\<rparr> (
    then_do (request 2 Connect) (\<lambda>u.
    then_do (authenticate 2 (receiver_name sfx) reconnect_password ''login'') (\<lambda>session.
    then_do (field grp ''id'') (\<lambda>gid.
    then_do (command 2 session (history_request gid)) (\<lambda>history.
    then_do (field history ''messages'') (\<lambda>ms.
    then_do (value_of (array_or_empty ms)) (\<lambda>messages.
    then_do (value_of (js_find
        (\<lambda>m. same (js_get m ''id'') (js_path missed [Dot ''message'', Dot ''id''])) messages)) (\<lambda>message.
    then_do (throw_if (differ (js_path message [Opt ''text'']) (Some (JStr (missed_text sfx))))
              (Err ''reconnected receiver did not recover SQLite history'')) (\<lambda>u.
    return session)))))))))"

definition reconnect_report :: "string \<Rightarrow> jsval \<Rightarrow> jsval \<Rightarrow> jsval \<Rightarrow> jsval \<Rightarrow> jsval \<Rightarrow> jsval" where
  "reconnect_report sfx gid destA destB missedID liveID = JObj
    [(''ok'', JBool True), (''group_id'', gid),
     (''sender'', JObj [(''username'', JStr (sender_name sfx)), (''dest_id'', destA)]),
     (''receiver'', JObj [(''username'', JStr (receiver_name sfx)), (''dest_id'', destB)]),
     (''missed_message_id'', missedID), (''recovery'', JStr ''sqlite-history''),
     (''live_message_id'', liveID), (''live_push'', JStr ''restored'')]"

definition reconnect_live :: "string \<Rightarrow> jsval \<Rightarrow> jsval \<Rightarrow> ('v, jsval) script" where
  "reconnect_live sfx grp session =
    then_do (start (Client 0 (WaitForPush (live_text sfx)))) (\<lambda>p.
    then_do (field grp ''id'') (\<lambda>gid.
    then_do (command 2 session (send_request gid (live_text sfx))) (\<lambda>live.
    then_do (await p) (\<lambda>push.
    then_do (throw_if (js_or (falsy (reply_id live))
                (differ (push_id (json push)) (js_path live [Dot ''message'', Dot ''id''])))
              (Err ''reconnected WSS session did not restore live push'')) (\<lambda>u.
    return live)))))"

definition reconnect_body :: "string \<Rightarrow> (reconnect_vars, unit) script" where
  "reconnect_body sfx =
    then_do (reconnect_setup sfx) (\<lambda>(senderSession, receiverSession, grp).
    then_do (reconnect_missed sfx senderSession grp) (\<lambda>missed.
    then_do (reconnect_history sfx grp missed) (\<lambda>session.
    then_do (reconnect_live sfx grp session) (\<lambda>live.
    then_do (field grp ''id'') (\<lambda>gid.
    then_do (dest_text senderSession) (\<lambda>destA.
    then_do (dest_text receiverSession) (\<lambda>destB.
    then_do (chain missed [Dot ''message'', Dot ''id'']) (\<lambda>missedID.
    then_do (chain live [Dot ''message'', Dot ''id'']) (\<lambda>liveID.
    then_do (do_it (Print (reconnect_report sfx gid destA destB missedID liveID))) (\<lambda>u.
    return ()))))))))))"

definition reconnect_finally :: "(reconnect_vars, unit) script" where
  "reconnect_finally =
    then_do (close_all [0, 1]) (\<lambda>u. Get (\<lambda>v. if recovered v then close_all [2] else return ()))"

definition reconnect_gate :: "string \<Rightarrow> (reconnect_vars, unit) script" where
  "reconnect_gate sfx = try_finally (reconnect_body sfx) reconnect_finally"

subsection \<open>What a run shows\<close>

lemma runs_live:
  assumes "runs (reconnect_live sfx grp session) v tr live w" "js_get grp ''id'' = Some gid"
  shows "\<exists>mid. sent_message tr 2 gid (live_text sfx) mid \<and> pushed tr 0 (live_text sfx) mid"
proof -
  obtain tok p q y push x z m where
    tr: "tr = [(Start (Client 0 (WaitForPush (live_text sfx))), APromise p),
      (Start (Client 2 (Command tok (send_request gid (live_text sfx)))), APromise q),
      (Await q, AResult (Inr y)), (Await p, AResult (Inr push))]"
    and id: "reply_id (json y) = Some x" "js_truthy x" "push_id (json push) = Some z"
      "js_path (json y) [Dot ''message'', Dot ''id''] = Some m" "js_same z m"
    using assms unfolding reconnect_live_def by (auto simp: run_simps split: if_splits)
  have f: "fulfilled tr (Client 2 (Command tok (send_request gid (live_text sfx)))) y"
    "fulfilled tr (Client 0 (WaitForPush (live_text sfx))) push"
    unfolding tr by (rule fulfilledI list.set_intros)+
  have "m = x" using id reply_id_read [OF id(1,2)] by simp
  then show ?thesis unfolding sent_message_def pushed_def using f id by blast
qed

lemma runs_missed:
  assumes "runs (reconnect_missed sfx session grp) v tr missed w" "js_get grp ''id'' = Some gid"
  shows "\<exists>t1 t2 mid. tr = t1 @ (Close 1, ADone) # t2 \<and> sent_message t2 0 gid (missed_text sfx) mid \<and>
    js_path missed [Dot ''message'', Dot ''id''] = Some mid"
proof -
  let ?q = "\<lambda>tok. Start (Client 0 (Command tok (send_request gid (missed_text sfx))))"
  from assms(1) obtain t1 t2 t3 where close: "tr = t1 @ (Close 1, ADone) # t2 @ t3"
    and r: "runs (then_do (do_it (Sleep 50)) (\<lambda>u.
    then_do (field grp ''id'') (\<lambda>gid.
    then_do (command 0 session (send_request gid (missed_text sfx))) (\<lambda>missed.
    then_do (throw_if (falsy (reply_id missed)) (Err ''offline-window message was not persisted'')) (\<lambda>u.
    return missed))))) v t3 missed w"
    unfolding reconnect_missed_def by (rule runs_close_and_waitE)
  from r assms(2) obtain tok p y x where
    t3: "t3 = [(Sleep 50, ADone), (?q tok, APromise p), (Await p, AResult (Inr y))]"
    and id: "missed = json y" "reply_id (json y) = Some x" "js_truthy x"
    by (auto simp: run_simps split: if_splits)
  have "fulfilled (t2 @ t3) (Client 0 (Command tok (send_request gid (missed_text sfx)))) y"
    by (rule fulfilledI [of _ p]) (simp_all add: t3)
  then show ?thesis unfolding sent_message_def using close id reply_id_read [OF id(2,3)] by blast
qed

lemma runs_history:
  assumes "runs (reconnect_history sfx grp missed) v tr session w" "js_get grp ''id'' = Some gid"
    "js_path missed [Dot ''message'', Dot ''id''] = Some mid"
  shows "in_history tr 2 gid (missed_text sfx) mid \<and> recovered w"
proof -
  let ?q = "\<lambda>tok. Start (Client 2 (Command tok (history_request gid)))"
  let ?p = "\<lambda>m. same (js_get m ''id'') (Some mid)"
  from assms obtain p1 y1 p2 y2 tok p y ms xs m where
    tr: "tr = [(Start (Client 2 Connect), APromise p1), (Await p1, AResult (Inr y1)),
        (Start (Client 2 (Authenticate (receiver_name sfx) reconnect_password ''login'')), APromise p2),
        (Await p2, AResult (Inr y2)), (?q tok, APromise p), (Await p, AResult (Inr y))]"
    and h: "js_get (json y) ''messages'' = Some ms" "array_or_empty ms = Some xs"
      "js_find ?p xs = Some m" "js_path m [Opt ''text''] = Some (JStr (missed_text sfx))"
    and w: "w = \<lparr>recovered = True\<rparr>"
    unfolding reconnect_history_def by (auto simp: run_simps split: if_splits)
  have "m \<noteq> JUndefined" "js_get m ''text'' = Some (JStr (missed_text sfx))"
    using h(4) by (auto simp: js_path.simps split: if_splits option.splits)
  with js_find_found [OF h(3)] have m: "m \<in> set xs" "?p m = Some True" by auto
  have "fulfilled tr (Client 2 (Command tok (history_request gid))) y"
    unfolding tr by (rule fulfilledI list.set_intros)+
  moreover obtain mid' where "js_get m ''id'' = Some mid'" "js_same mid' mid" using m(2) by auto
  moreover have "js_get (json y) ''messages'' = Some (JArr xs)"
    using h(1) array_or_empty_in [OF h(2) m(1)] by simp
  ultimately show ?thesis using m(1) w in_historyI \<open>js_get m ''text'' = _\<close> by simp
qed

text \<open>
  A run that returns: the receiver closed, then the sender's message was stored, then the receiver that
  came back found it in the history, and a live push worked.
\<close>

lemmas runs_reconnect_parts = runs_then_do [where m = "reconnect_setup f" for f]
  runs_then_do [where m = "reconnect_missed f s g" for f s g]
  runs_then_do [where m = "reconnect_history f g m" for f g m]
  runs_then_do [where m = "reconnect_live f g s" for f g s]

lemma runs_setup_reconnect:
  assumes "runs (reconnect_setup sfx) v tr (sA, sB, grp) w"
  shows "\<exists>tok gid. created_group tr 0 (reconnect_group sfx) grp \<and> joined_group tr 1 tok grp \<and>
    js_get grp ''id'' = Some gid"
  using assms unfolding reconnect_setup_def created_group_def joined_group_def Let_def
  by (clarsimp simp: run_simps split: if_splits)
    (rule exI conjI fulfilledI list.set_intros | assumption)+

text \<open>What a successful run of the reconnect gate has shown: a message sent while the member was away is in the
  history it reads after its return, and a message it then sends live reaches the other member.\<close>

theorem reconnect_gate_sound:
  assumes "runs (reconnect_gate sfx) v tr x w"
  shows "\<exists>grp gid tok mid lid t1 t2 t3 t4.
    tr = t1 @ [(Close 1, ADone)] @ t2 @ t3 @ t4 \<and> set [(Close 0, ADone), (Close 1, ADone), (Close 2, ADone)] \<subseteq> set t4 \<and>
    created_group t1 0 (reconnect_group sfx) grp \<and> joined_group t1 1 tok grp \<and> js_get grp ''id'' = Some gid \<and>
    sent_message t2 0 gid (missed_text sfx) mid \<and> in_history t3 2 gid (missed_text sfx) mid \<and>
    sent_message t3 2 gid (live_text sfx) lid \<and> pushed t3 0 (live_text sfx) lid"
proof -
  obtain tb t9 vb where tr: "tr = tb @ t9" and body: "runs (reconnect_body sfx) v tb () vb"
    and f: "runs reconnect_finally vb t9 () w"
    using assms unfolding reconnect_gate_def runs_try_finally by auto
  obtain sA sB grp missed session live gid ta va tm vm th vh tl vl tp where
    split: "tb = ta @ tm @ th @ tl @ tp"
    and parts: "runs (reconnect_setup sfx) v ta (sA, sB, grp) va" "runs (reconnect_missed sfx sA grp) va tm missed vm"
      "runs (reconnect_history sfx grp missed) vm th session vh" "runs (reconnect_live sfx grp session) vh tl live vl"
      "js_get grp ''id'' = Some gid" "vb = vl"
    using body unfolding reconnect_body_def
    by (clarsimp simp: run_simps runs_reconnect_parts split: if_splits)
  from runs_setup_reconnect [OF parts(1)] obtain tok where g: "created_group ta 0 (reconnect_group sfx) grp"
    "joined_group ta 1 tok grp" by blast
  from runs_missed [OF parts(2,5)] obtain ta' t2 mid where m: "tm = ta' @ (Close 1, ADone) # t2"
    "sent_message t2 0 gid (missed_text sfx) mid" "js_path missed [Dot ''message'', Dot ''id''] = Some mid" by blast
  note h = runs_history [OF parts(3,5) m(3)]
  from runs_live [OF parts(4,5)] obtain lid where l: "sent_message tl 2 gid (live_text sfx) lid"
    "pushed tl 0 (live_text sfx) lid" by blast
  have "vl = vh" using parts(4) unfolding reconnect_live_def by (auto simp: run_simps split: if_splits)
  then have "recovered vb" using h parts(6) by simp
  then have t9: "set [(Close 0, ADone), (Close 1, ADone), (Close 2, ADone)] \<subseteq> set t9"
    using f unfolding reconnect_finally_def runs_then_do by (auto simp: play_close_all)
  show ?thesis
  proof (intro exI conjI)
    show "tr = (ta @ ta') @ [(Close 1, ADone)] @ t2 @ (th @ tl) @ (tp @ t9)" using tr split m by simp
    show "in_history (th @ tl) 2 gid (missed_text sfx) mid"
      using h fulfilled_append unfolding in_history_def by blast
    show "pushed (th @ tl) 0 (live_text sfx) lid"
      using l(2) fulfilled_mono [of tl _ _ "th @ tl"] unfolding pushed_def by auto
  qed (use g m(2) l(1) parts(5) t9 created_group_mono joined_group_mono in \<open>auto elim: sent_message_mono\<close>)
qed

lemma quiet_reconnect_parts [quiet_intros]:
  "quiet (reconnect_setup sfx)" "quiet (reconnect_missed sfx s grp)" "quiet (reconnect_history sfx grp m)"
  "quiet (reconnect_live sfx grp s)"
  unfolding reconnect_setup_def reconnect_missed_def reconnect_history_def reconnect_live_def
  by (intro quiet_intros)+

definition reconnect_clients :: "reconnect_vars \<Rightarrow> nat list" where
  "reconnect_clients v = (if recovered v then [0, 1, 2] else [0, 1])"

interpretation reconnect: gate "reconnect_body sfx" reconnect_finally reconnect_clients for sfx
proof unfold_locales
  show "reports_last (reconnect_body sfx)"
    unfolding reconnect_body_def by (intro report_intros quiet_intros)
  show "quiet reconnect_finally"
    unfolding reconnect_finally_def by (intro quiet_intros)
next
  fix v tr r w
  assume p: "play reconnect_finally v tr = Some (r, w)"
  then show "r = Returned ()"
    unfolding reconnect_finally_def play_then_do by (auto simp: play_close_all split: if_splits)
  fix c
  assume "c \<in> set (reconnect_clients v)"
  then show "(Close c, ADone) \<in> set tr"
    using p unfolding reconnect_finally_def play_then_do
    by (auto simp: play_close_all reconnect_clients_def split: if_splits)
qed

theorem reconnect_gate_ends: "ends (reconnect_gate sfx)"
  unfolding reconnect_gate_def reconnect_body_def reconnect_finally_def reconnect_setup_def reconnect_missed_def
    reconnect_history_def reconnect_live_def
  by (intro ends_intros)

end
