(* ===== verification/Gate_Slow.thy ===== *)
theory Gate_Slow
  imports Script_Messages
begin

section \<open>The slow-consumer gate (\<open>validation/wss-slow-consumer.mjs\<close>)\<close>

text \<open>
  A member of the group stops to read its socket while the sender stores 1200 messages; the gateway must
  close the slow connection only, and the sender must go on. Client 0 is \<open>sender\<close>, 1 \<open>slow\<close>.
\<close>

definition slow_password :: string where "slow_password = ''Wss-slow-valid-password-2026''"
definition slow_sender_name :: "string \<Rightarrow> string" where "slow_sender_name sfx = ''ws_s_'' @ sfx"
definition slow_name :: "string \<Rightarrow> string" where "slow_name sfx = ''ws_c_'' @ sfx"
definition slow_group :: "string \<Rightarrow> string" where "slow_group sfx = ''WSS slow '' @ sfx"
definition final_text :: "string \<Rightarrow> string" where "final_text sfx = ''healthy-after-slow-close-'' @ sfx"
definition messageCount :: nat where "messageCount = 1200"
definition batchSize :: nat where "batchSize = 16"

definition slow_prefix :: "string \<Rightarrow> nat \<Rightarrow> string" where
  "slow_prefix sfx i = ''slow-'' @ sfx @ ''-'' @ show_nat i @ ''-''"

definition slow_text :: "string \<Rightarrow> nat \<Rightarrow> string" where
  "slow_text sfx i = slow_prefix sfx i @ replicate (1900 - length (slow_prefix sfx i)) (CHR ''x'')"

text \<open>\<open>'x'.repeat(n)\<close> throws on a negative count.\<close>

definition slow_send :: "string \<Rightarrow> jsval \<Rightarrow> jsval \<Rightarrow> nat \<Rightarrow> ('v, nat) script" where
  "slow_send sfx session grp i =
    then_do (throw_if (Some (1900 < length (slow_prefix sfx i))) RangeErr) (\<lambda>u.
    then_do (field grp ''id'') (\<lambda>gid.
    start_command 0 session (send_request gid (slow_text sfx i))))"

definition batch_starts :: "nat list" where
  "batch_starts = map (\<lambda>k. k * batchSize) [0..<(messageCount + batchSize - 1) div batchSize]"

definition batch_indices :: "nat \<Rightarrow> nat list" where
  "batch_indices first = filter (\<lambda>i. i < messageCount) [first..<first + batchSize]"

text \<open>The loop over the results; \<open>n\<close> is \<open>persisted\<close>.\<close>

fun count_persisted :: "nat \<Rightarrow> settled list \<Rightarrow> ('v, nat) script" where
  "count_persisted n [] = return n"
| "count_persisted n (r # rs) =
    then_do (throw_if (falsy (reply_id (json r))) (Err ''sender did not receive persisted message id'')) (\<lambda>u.
    count_persisted (n + 1) rs)"

fun send_batches :: "string \<Rightarrow> jsval \<Rightarrow> jsval \<Rightarrow> nat \<Rightarrow> nat list \<Rightarrow> ('v, nat) script" where
  "send_batches sfx session grp n [] = return n"
| "send_batches sfx session grp n (first # rest) =
    then_do (each_value (slow_send sfx session grp) (batch_indices first)) (\<lambda>batch.
    then_do (await_all batch) (\<lambda>results.
    then_do (count_persisted n results) (\<lambda>m.
    send_batches sfx session grp m rest)))"

definition slow_setup :: "string \<Rightarrow> ('v, jsval \<times> jsval \<times> jsval) script" where
  "slow_setup sfx =
    then_do (start (Client 0 Connect)) (\<lambda>pa.
    then_do (start (Client 1 Connect)) (\<lambda>pb.
    then_do (await_all [pa, pb]) (\<lambda>rs.
    then_do (start (Client 0 (Authenticate (slow_sender_name sfx) slow_password ''register''))) (\<lambda>qa.
    then_do (start (Client 1 (Authenticate (slow_name sfx) slow_password ''register''))) (\<lambda>qb.
    then_do (await_all [qa, qb]) (\<lambda>ss.
    let senderSession = json (ss ! 0); slowSession = json (ss ! 1) in
    then_do (command 0 senderSession [(''type'', JStr ''create_group''), (''name'', JStr (slow_group sfx))])
      (\<lambda>created.
    then_do (group_of created ''create_group returned no group'') (\<lambda>grp.
    then_do (field grp ''invite_code'') (\<lambda>code.
    then_do (command 1 slowSession [(''type'', JStr ''join_group''), (''invite_code'', code)]) (\<lambda>joined.
    return (senderSession, slowSession, grp)))))))))))"

definition slow_isolated :: "('v, jsval) script" where
  "slow_isolated =
    then_do (start (Client 1 (WaitForClose 10000))) (\<lambda>p.
    then_do (do_it (Resume 1)) (\<lambda>u.
    then_do (await p) (\<lambda>code. return (json code))))"

definition slow_health :: "string \<Rightarrow> jsval \<Rightarrow> jsval \<Rightarrow> ('v, jsval) script" where
  "slow_health sfx session grp =
    then_do (command 0 session [(''type'', JStr ''list_groups'')]) (\<lambda>health.
    then_do (field health ''groups'') (\<lambda>gs.
    then_do (value_of (array_or_empty gs)) (\<lambda>groups.
    then_do (throw_if (map_option Not (js_some (\<lambda>candidate. same (js_get candidate ''id'') (js_get grp ''id'')) groups))
              (Err ''healthy WSS session failed after slow-consumer isolation'')) (\<lambda>u.
    then_do (start (Client 0 (WaitForPush (final_text sfx)))) (\<lambda>p.
    then_do (field grp ''id'') (\<lambda>gid.
    then_do (command 0 session (send_request gid (final_text sfx))) (\<lambda>final.
    then_do (await p) (\<lambda>push.
    then_do (throw_if (js_or (falsy (reply_id final))
                (differ (push_id (json push)) (js_path final [Dot ''message'', Dot ''id''])))
              (Err ''healthy WSS live push failed after slow-consumer isolation'')) (\<lambda>u.
    chain final [Dot ''message'', Dot ''id''])))))))))"

definition slow_report :: "string \<Rightarrow> jsval \<Rightarrow> jsval \<Rightarrow> jsval \<Rightarrow> nat \<Rightarrow> jsval \<Rightarrow> jsval \<Rightarrow> jsval" where
  "slow_report sfx gid destA destB n code finalID = JObj
    [(''ok'', JBool True), (''group_id'', gid),
     (''sender'', JObj [(''username'', JStr (slow_sender_name sfx)), (''dest_id'', destA)]),
     (''slow'', JObj [(''username'', JStr (slow_name sfx)), (''dest_id'', destB)]),
     (''persisted'', JNum (int n)), (''slow_close_code'', code), (''healthy_request'', JStr ''passed''),
     (''healthy_push'', finalID)]"

definition slow_body :: "string \<Rightarrow> ('v, unit) script" where
  "slow_body sfx =
    then_do (slow_setup sfx) (\<lambda>(senderSession, slowSession, grp).
    then_do (do_it (Pause 1)) (\<lambda>u.
    then_do (send_batches sfx senderSession grp 0 batch_starts) (\<lambda>n.
    then_do slow_isolated (\<lambda>code.
    then_do (slow_health sfx senderSession grp) (\<lambda>finalID.
    then_do (field grp ''id'') (\<lambda>gid.
    then_do (dest_text senderSession) (\<lambda>destA.
    then_do (dest_text slowSession) (\<lambda>destB.
    then_do (do_it (Print (slow_report sfx gid destA destB n code finalID))) (\<lambda>u.
    return ())))))))))"

definition slow_gate :: "string \<Rightarrow> ('v, unit) script" where
  "slow_gate sfx = try_finally (slow_body sfx) (close_all [0, 1])"

subsection \<open>The batches\<close>

text \<open>The batches are the numbers below \<open>messageCount\<close>, each once.\<close>

lemma batches_of:
  "concat (map (\<lambda>k. filter (\<lambda>i. i < m) [k * b..<k * b + b]) [0..<n]) = filter (\<lambda>i. i < (m :: nat)) [0..<n * b]"
proof (induction n)
  case (Suc n)
  have "[0..<Suc n * b] = [0..<n * b] @ [n * b..<n * b + b]"
    using upt_add_eq_append [of 0 "n * b" b] by (simp add: add.commute)
  then show ?case using Suc by simp
qed simp

lemma batches_cover: "concat (map batch_indices batch_starts) = [0..<messageCount]"
proof -
  have "concat (map batch_indices batch_starts) = filter (\<lambda>i. i < messageCount) [0..<75 * batchSize]"
    using batches_of [of messageCount batchSize 75]
    by (simp add: batch_starts_def batch_indices_def messageCount_def batchSize_def o_def)
  then show ?thesis by (simp add: messageCount_def batchSize_def)
qed

lemma runs_count:
  assumes "runs (count_persisted n rs) v tr m w"
  shows "tr = [] \<and> m = n + length rs \<and> w = v \<and> (\<forall>r \<in> set rs. \<exists>mid. reply_id (json r) = Some mid \<and> js_truthy mid)"
  using assms
proof (induction rs arbitrary: n)
  case (Cons r rs)
  then obtain mid where "reply_id (json r) = Some mid" "js_truthy mid" "runs (count_persisted (n + 1) rs) v tr m w"
    by (auto simp: run_simps)
  then show ?case using Cons.IH [of "n + 1"] by auto
qed (simp split: if_splits)

lemma runs_sends:
  assumes "runs (each_value (slow_send sfx session grp) is) v tr ps w" "js_get grp ''id'' = Some gid"
  shows "length ps = length is \<and> w = v \<and> (\<forall>k < length is. \<exists>tok.
    (Start (Client 0 (Command tok (send_request gid (slow_text sfx (is ! k))))), APromise (ps ! k)) \<in> set tr)"
  using assms(1)
proof (induction "is" arbitrary: tr ps)
  case (Cons i "is")
  let ?q = "\<lambda>tok. Start (Client 0 (Command tok (send_request gid (slow_text sfx i))))"
  from Cons.prems obtain tr1 p ps' tr2 v1 where tr: "tr = tr1 @ tr2" "ps = p # ps'"
    and i: "runs (slow_send sfx session grp i) v tr1 p v1"
    and r: "runs (each_value (slow_send sfx session grp) is) v1 tr2 ps' w"
    by (auto simp: runs_then_do split: if_splits)
  from i assms(2) obtain tok where tr1: "tr1 = [(?q tok, APromise p)]" "v1 = v"
    unfolding slow_send_def start_command_def
    by (auto simp: run_simps split: if_splits)
  note IH = Cons.IH [OF r [unfolded tr1(2)]]
  show ?case
  proof (intro conjI allI impI)
    fix k assume k: "k < length (i # is)"
    show "\<exists>tok. (Start (Client 0 (Command tok (send_request gid (slow_text sfx ((i # is) ! k))))),
        APromise (ps ! k)) \<in> set tr"
    proof (cases k)
      case 0
      then show ?thesis using tr tr1 by auto
    next
      case (Suc j)
      then show ?thesis using IH k tr by simp blast
    qed
  qed (use IH tr in auto)
qed (auto split: if_splits)

lemma runs_batches:
  assumes "runs (send_batches sfx session grp n firsts) v tr m w" "js_get grp ''id'' = Some gid"
  shows "m = n + length (concat (map batch_indices firsts)) \<and> w = v \<and>
    (\<forall>i \<in> set (concat (map batch_indices firsts)). \<exists>mid. sent_message tr 0 gid (slow_text sfx i) mid)"
  using assms(1)
proof (induction firsts arbitrary: n tr)
  case (Cons first rest)
  let ?is = "batch_indices first"
  from Cons.prems obtain t1 tc t2 ps v1 vc ys n1 where tr0: "tr = t1 @ (AwaitAll ps, AResults (Inr ys)) # tc @ t2"
    and s: "runs (each_value (slow_send sfx session grp) ?is) v t1 ps v1"
    and c: "runs (count_persisted n ys) v1 tc n1 vc" and len: "length ys = length ps"
    and r: "runs (send_batches sfx session grp n1 rest) vc t2 m w"
    by (clarsimp simp: run_simps runs_then_do [where m = "each_value f xs" for f xs]
        runs_then_do [where m = "count_persisted k xs" for k xs])
  note S = runs_sends [OF s assms(2)] and C = runs_count [OF c]
  have tr: "tr = t1 @ (AwaitAll ps, AResults (Inr ys)) # t2" and vc: "vc = v" using tr0 C S by simp_all
  have "v1 = v" using S by simp
  have IH: "m = n1 + length (concat (map batch_indices rest))" "w = v1"
    "\<forall>i \<in> set (concat (map batch_indices rest)). \<exists>mid. sent_message t2 0 gid (slow_text sfx i) mid"
    using Cons.IH [OF r [unfolded vc]] \<open>v1 = v\<close> by auto
  have "\<exists>mid. sent_message tr 0 gid (slow_text sfx i) mid" if "i \<in> set ?is" for i
  proof -
    from that obtain k where k: "k < length ?is" "?is ! k = i" by (auto simp: in_set_conv_nth)
    with S obtain tok where q: "(Start (Client 0 (Command tok (send_request gid (slow_text sfx i)))), APromise (ps ! k)) \<in> set tr"
      using tr by auto
    have "fulfilled tr (Client 0 (Command tok (send_request gid (slow_text sfx i)))) (ys ! k)"
      by (rule fulfilled_allI [OF q, of ps ys k]) (use tr k S len in auto)
    moreover obtain mid where "reply_id (json (ys ! k)) = Some mid" "js_truthy mid"
      using C k S len by (metis nth_mem)
    ultimately show ?thesis using sent_messageI by blast
  qed
  moreover have "\<exists>mid. sent_message tr 0 gid (slow_text sfx i) mid"
    if "i \<in> set (concat (map batch_indices rest))" for i
  proof -
    from IH(3) that have "\<exists>mid. sent_message t2 0 gid (slow_text sfx i) mid" by (rule bspec)
    then obtain mid where "sent_message t2 0 gid (slow_text sfx i) mid" ..
    then have "sent_message tr 0 gid (slow_text sfx i) mid" by (rule sent_message_mono) (auto simp: tr)
    then show ?thesis ..
  qed
  ultimately show ?case using IH(1,2) S C len \<open>v1 = v\<close> by (simp add: ball_Un)
qed (simp split: if_splits)

lemma runs_setup_slow:
  assumes "runs (slow_setup sfx) v tr (sA, sB, grp) w"
  shows "\<exists>tok. created_group tr 0 (slow_group sfx) grp \<and> joined_group tr 1 tok grp"
  using assms unfolding slow_setup_def created_group_def joined_group_def Let_def
  by (clarsimp simp: run_simps split: if_splits)
    (rule exI conjI fulfilledI list.set_intros | assumption)+

lemma runs_isolated:
  assumes "runs slow_isolated v tr code w"
  shows "\<exists>y. fulfilled tr (Client 1 (WaitForClose 10000)) y"
  using assms unfolding slow_isolated_def
  by (clarsimp simp: run_simps split: if_splits) (rule exI fulfilledI list.set_intros)+

lemma runs_health:
  assumes "runs (slow_health sfx session grp) v tr x w" "js_get grp ''id'' = Some gid"
  shows "\<exists>mid. sent_message tr 0 gid (final_text sfx) mid \<and> pushed tr 0 (final_text sfx) mid"
proof -
  obtain tokA p0 y0 tok p q y push k z m where
    tr: "tr = [(Start (Client 0 (Command tokA [(''type'', JStr ''list_groups'')])), APromise p0),
      (Await p0, AResult (Inr y0)),
      (Start (Client 0 (WaitForPush (final_text sfx))), APromise p),
      (Start (Client 0 (Command tok (send_request gid (final_text sfx)))), APromise q),
      (Await q, AResult (Inr y)), (Await p, AResult (Inr push))]"
    and id: "reply_id (json y) = Some k" "js_truthy k" "push_id (json push) = Some z"
      "js_path (json y) [Dot ''message'', Dot ''id''] = Some m" "js_same z m"
    using assms unfolding slow_health_def chain_def by (clarsimp simp: run_simps)
  have f: "fulfilled tr (Client 0 (Command tok (send_request gid (final_text sfx)))) y"
    "fulfilled tr (Client 0 (WaitForPush (final_text sfx))) push"
    unfolding tr by (rule fulfilledI list.set_intros)+
  have "m = k" using id reply_id_read [OF id(1,2)] by simp
  then show ?thesis unfolding pushed_def using f id sent_messageI [OF f(1) id(1,2)] by blast
qed

subsection \<open>The gate\<close>

lemma slow_text_length: "length (slow_prefix sfx i) \<le> 1900 \<Longrightarrow> length (slow_text sfx i) = 1900"
  by (simp add: slow_text_def)

lemmas runs_slow_parts = runs_then_do [where m = "slow_setup f" for f]
  runs_then_do [where m = "send_batches f s g n xs" for f s g n xs]
  runs_then_do [where m = slow_isolated] runs_then_do [where m = "slow_health f s g" for f s g]

text \<open>C39: What a successful run of the slow-consumer gate has shown: with the slow member paused, each of the 1200
  messages was stored under an id; then the slow connection was closed; then the
  sender stored and received one more message; and the report has the number of messages.\<close>

theorem slow_gate_sound:
  assumes "runs (slow_gate sfx) v tr x w"
  shows "\<exists>grp gid tok y mid t1 t2 t3 t4 destA destB code finalID.
    tr = t1 @ [(Pause 1, ADone)] @ t2 @ t3 @ t4 @
      [(Print (slow_report sfx gid destA destB messageCount code finalID), ADone), (Close 0, ADone), (Close 1, ADone)] \<and>
    created_group t1 0 (slow_group sfx) grp \<and> joined_group t1 1 tok grp \<and> js_get grp ''id'' = Some gid \<and>
    (\<forall>i < messageCount. \<exists>mid. sent_message t2 0 gid (slow_text sfx i) mid) \<and>
    fulfilled t3 (Client 1 (WaitForClose 10000)) y \<and>
    sent_message t4 0 gid (final_text sfx) mid \<and> pushed t4 0 (final_text sfx) mid"
proof -
  obtain tb where tr: "tr = tb @ [(Close 0, ADone), (Close 1, ADone)]"
    and body: "runs (slow_body sfx) v tb () w"
    using assms unfolding slow_gate_def runs_try_finally play_close_all by auto
  obtain sA sB grp gid n code finalID destA destB t1 v1 t2 v2 t3 v3 t4 v4 where
    split: "tb = t1 @ (Pause 1, ADone) # t2 @ t3 @ t4 @ [(Print (slow_report sfx gid destA destB n code finalID), ADone)]"
    and parts: "runs (slow_setup sfx) v t1 (sA, sB, grp) v1" "runs (send_batches sfx sA grp 0 batch_starts) v1 t2 n v2"
      "runs slow_isolated v2 t3 code v3" "runs (slow_health sfx sA grp) v3 t4 finalID v4" "js_get grp ''id'' = Some gid"
    using body unfolding slow_body_def by (clarsimp simp: run_simps runs_slow_parts split: if_splits)
  from runs_batches [OF parts(2,5)] have b: "n = messageCount"
    "\<forall>i < messageCount. \<exists>mid. sent_message t2 0 gid (slow_text sfx i) mid"
    unfolding batches_cover by auto
  obtain tok y mid where g: "created_group t1 0 (slow_group sfx) grp" "joined_group t1 1 tok grp"
    and y: "fulfilled t3 (Client 1 (WaitForClose 10000)) y"
    and m: "sent_message t4 0 gid (final_text sfx) mid" "pushed t4 0 (final_text sfx) mid"
    using runs_setup_slow [OF parts(1)] runs_isolated [OF parts(3)] runs_health [OF parts(4,5)] by blast
  show ?thesis
  proof (intro exI conjI)
    show "tr = t1 @ [(Pause 1, ADone)] @ t2 @ t3 @ t4 @
      [(Print (slow_report sfx gid destA destB messageCount code finalID), ADone), (Close 0, ADone), (Close 1, ADone)]"
      using tr split b(1) by simp
  qed (fact g y m b(2) parts(5))+
qed

lemma quiet_count [quiet_intros]: "quiet (count_persisted n rs)"
  by (induction rs arbitrary: n) (auto intro!: quiet_intros)

lemma quiet_batches [quiet_intros]: "quiet (send_batches sfx session grp n firsts)"
proof (induction firsts arbitrary: n)
  case (Cons first rest)
  show ?case unfolding send_batches.simps slow_send_def by (intro quiet_intros Cons)
qed (simp add: quiet_intros)

lemma quiet_slow_parts [quiet_intros]:
  "quiet (slow_setup sfx)" "quiet slow_isolated" "quiet (slow_health sfx s grp)"
  unfolding slow_setup_def slow_isolated_def slow_health_def by (intro quiet_intros)+

interpretation slow: gate "slow_body sfx" "close_all [0, 1]" "\<lambda>v. [0, 1]" for sfx
  by (rule gate_close_all) (unfold slow_body_def, intro report_intros quiet_intros)

lemma ends_count [ends_intros]: "ends (count_persisted n rs)"
  by (induction rs arbitrary: n) (auto intro!: ends_intros)

lemma ends_batches [ends_intros]: "ends (send_batches sfx session grp n firsts)"
proof (induction firsts arbitrary: n)
  case (Cons first rest)
  show ?case unfolding send_batches.simps slow_send_def by (intro ends_intros Cons)
qed (simp add: ends_intros)

theorem slow_gate_ends: "ends (slow_gate sfx)"
  unfolding slow_gate_def slow_body_def slow_setup_def slow_isolated_def slow_health_def by (intro ends_intros)

end
