(* ===== verification/Gate_Agent.thy ===== *)
theory Gate_Agent
  imports Script_Messages
begin

section \<open>The agent of the mixed gate (\<open>validation/wss-mixed-im.mjs\<close>)\<close>

text \<open>
  \<open>agent\<close> calls the HTTP agent that speaks Raw QUIC; \<open>waitRawPush\<close> polls its events with a cursor.
\<close>

definition agent_failure :: "jsval \<Rightarrow> nat \<Rightarrow> script_error" where
  "agent_failure err code = Err (if nullish err then ''agent HTTP '' @ show_nat code else js_text err)"

definition agent :: "string \<Rightarrow> jsval option \<Rightarrow> ('v, jsval) script" where
  "agent path body =
    then_do (start (Fetch path body)) (\<lambda>p.
    then_do (await p) (\<lambda>response.
    then_do (start (ReadBody p)) (\<lambda>q.
    then_do (await q) (\<lambda>r.
    case response of
      VResponse ok code \<Rightarrow>
        if ok then return (json r)
        else then_do (field (json r) ''error'') (\<lambda>err. throw (agent_failure err code))
    | _ \<Rightarrow> throw TypeErr))))"

definition command_path :: string where "command_path = ''/api/im/command''"

definition raw_body :: "jsval \<Rightarrow> (string \<times> jsval) list \<Rightarrow> jsval option" where
  "raw_body sessionID cmd = Some (JObj ((''session_id'', sessionID) # cmd))"

definition rawCommand :: "jsval \<Rightarrow> (string \<times> jsval) list \<Rightarrow> ('v, jsval) script" where
  "rawCommand sessionID cmd = agent command_path (raw_body sessionID cmd)"

subsection \<open>The cursor\<close>

text \<open>\<open>encodeURIComponent\<close> on characters below 256: two UTF-8 bytes from 128 on.\<close>

definition hex_digit :: "nat \<Rightarrow> char" where
  "hex_digit n = (if n < 10 then char_of (48 + n) else char_of (55 + n))"

definition percent :: "nat \<Rightarrow> string" where
  "percent b = [CHR ''%'', hex_digit (b div 16), hex_digit (b mod 16)]"

definition uri_plain :: "nat \<Rightarrow> bool" where
  "uri_plain n \<longleftrightarrow> 48 \<le> n \<and> n \<le> 57 \<or> 65 \<le> n \<and> n \<le> 90 \<or> 97 \<le> n \<and> n \<le> 122 \<or>
     n \<in> {33, 39, 40, 41, 42, 45, 46, 95, 126}"

definition encodeURIComponent :: "string \<Rightarrow> string" where
  "encodeURIComponent s = concat (map (\<lambda>c. let n = of_char c in
     if uri_plain n then [c] else if n < 128 then percent n
     else percent (192 + n div 64) @ percent (128 + n mod 64)) s)"

text \<open>
  \<open>Math.max(after, event.seq)\<close>; \<open>None\<close> is \<open>NaN\<close>. A \<open>seq\<close> that is neither a number nor \<open>null\<close> nor a
  boolean counts as not a number (a numeric string is not told apart).
\<close>

definition js_max :: "int option \<Rightarrow> jsval \<Rightarrow> int option" where
  "js_max after sq = (case (after, sq) of
      (Some a, JNum n) \<Rightarrow> Some (max a n)
    | (Some a, JNull) \<Rightarrow> Some (max a 0)
    | (Some a, JBool b) \<Rightarrow> Some (max a (if b then 1 else 0))
    | _ \<Rightarrow> None)"

definition cursor_text :: "int option \<Rightarrow> string" where
  "cursor_text after = (case after of None \<Rightarrow> ''NaN'' | Some a \<Rightarrow> show_int a)"

definition events_path :: "jsval \<Rightarrow> int option \<Rightarrow> string" where
  "events_path sessionID after = ''/api/im/events?session_id='' @ encodeURIComponent (js_text sessionID)
     @ ''&after='' @ cursor_text after @ ''&timeout_ms=1000''"

text \<open>The loop over the events of one answer: the new cursor and the first event that matches.\<close>

fun scan_events :: "string \<Rightarrow> int option \<Rightarrow> jsval list \<Rightarrow> (int option \<times> jsval option) option" where
  "scan_events txt after [] = Some (after, None)"
| "scan_events txt after (e # es) =
    (case js_get e ''seq'' of None \<Rightarrow> None
     | Some sq \<Rightarrow> (case is_message_push txt e of None \<Rightarrow> None
        | Some b \<Rightarrow> if b then Some (js_max after sq, Some e) else scan_events txt (js_max after sq) es))"

fun array_of :: "jsval \<Rightarrow> jsval list option" where
  "array_of (JArr xs) = Some xs"
| "array_of _ = None"

definition raw_round :: "jsval \<Rightarrow> string \<Rightarrow> int option \<Rightarrow> ('v, int option + jsval) script" where
  "raw_round sessionID txt after =
    then_do (agent (events_path sessionID after) None) (\<lambda>result.
    then_do (field result ''events'') (\<lambda>ev.
    then_do (value_of (array_of ev)) (\<lambda>events.
    then_do (value_of (scan_events txt after events)) (\<lambda>(after', found).
    return (case found of None \<Rightarrow> Inl after' | Some e \<Rightarrow> Inr e)))))"

definition waitRawPush :: "nat \<Rightarrow> jsval \<Rightarrow> string \<Rightarrow> ('v, jsval) script" where
  "waitRawPush fuel sessionID txt =
    poll_for fuel 8000 (raw_round sessionID txt) (\<lambda>after. throw (Err ''Raw QUIC push timeout'')) (Some 0)"

subsection \<open>The end of the loop\<close>

text \<open>
  The loop of \<open>waitRawPush\<close> does not sleep; what takes time in a round is the agent's long poll. It ends if the
  clock moves from one reading of the deadline to the next: each round takes a millisecond or more. The
  fuel is one round for each of the 8000 milliseconds.
\<close>

definition rawpush_fuel :: nat where "rawpush_fuel = 8001"

definition reading :: "observed \<Rightarrow> nat list" where
  "reading x = (case x of (Now, ATime t) \<Rightarrow> [t] | _ \<Rightarrow> [])"

definition readings :: "observed list \<Rightarrow> nat list" where
  "readings tr = concat (map reading tr)"

lemma readings_simps [simp]:
  "readings [] = []" "readings (tr @ tr') = readings tr @ readings tr'"
  "readings ((Now, ATime t) # tr) = t # readings tr"
  by (simp_all add: readings_def reading_def)

definition ends_as_time_passes :: "('v, 'a) script \<Rightarrow> bool" where
  "ends_as_time_passes m \<longleftrightarrow> (\<forall>t v tr w. clock_ok t tr \<longrightarrow> sorted_wrt (<) (readings tr) \<longrightarrow>
     play m v tr \<noteq> Some (OutOfFuel, w))"

lemma poll_ends_as_time_passes:
  assumes "clock_ok u tr" "sorted_wrt (<) (t # readings tr)" "deadline \<le> t + n"
    and "\<And>s. ends (round s)" "\<And>s. ends (expired s)"
  shows "play (poll (Suc n) deadline round expired s) v tr \<noteq> Some (OutOfFuel, w)"
  using assms(1-3)
proof (induction n arbitrary: s v tr t u)
  case 0
  then show ?case using endsD [OF assms(5)] by (auto simp: run_simps split: if_splits)
next
  case (Suc n)
  show ?case
  proof
    let ?next = "\<lambda>r. case r of Inr x \<Rightarrow> return x | Inl s' \<Rightarrow> poll (Suc n) deadline round expired s'"
    assume "play (poll (Suc (Suc n)) deadline round expired s) v tr = Some (OutOfFuel, w)"
    then obtain t1 tr' where tr: "tr = (Now, ATime t1) # tr'"
      and r: "play (if t1 < deadline then then_do (round s) ?next else expired s) v tr' = Some (OutOfFuel, w)"
      unfolding poll.simps(2) [of "Suc n"] by (auto simp: run_simps)
    have ok: "clock_ok t1 tr'" "t < t1" "sorted_wrt (<) (t1 # readings tr')" using Suc.prems tr by auto
    have "play (then_do (round s) ?next) v tr' = Some (OutOfFuel, w)"
      using r endsD [OF assms(5) ok(1)] by (auto split: if_splits)
    then obtain tr1 tr2 q v1 where s: "tr' = tr1 @ tr2" "play (?next q) v1 tr2 = Some (OutOfFuel, w)"
      using endsD [OF assms(4) ok(1)] unfolding play_then_do by auto
    then obtain s' where q: "q = Inl s'" by (cases q) (auto split: if_splits)
    have "clock_ok (clock_end t1 tr1) tr2" "sorted_wrt (<) (t1 # readings tr2)" "deadline \<le> t1 + n"
      using ok s(1) Suc.prems(3) by (auto simp: sorted_wrt_append)
    from Suc.IH [OF this] show False using s(2) q by simp
  qed
qed

lemma agent_ends [ends_intros]: "ends (agent path body)"
  unfolding agent_def by (intro ends_intros; auto split: settled.split intro!: ends_intros simp: field_def)

lemma raw_round_ends: "ends (raw_round sid txt after)"
  unfolding raw_round_def field_def by (intro ends_intros; auto split: option.split intro: ends_intros)

lemma waitRawPush_ends: "ends_as_time_passes (waitRawPush rawpush_fuel sid txt)"
  unfolding ends_as_time_passes_def
proof (intro allI impI)
  fix t v tr w
  assume ok: "clock_ok t tr" "sorted_wrt (<) (readings tr)"
  show "play (waitRawPush rawpush_fuel sid txt) v tr \<noteq> Some (OutOfFuel, w)"
  proof
    let ?exp = "\<lambda>after :: int option. throw (Err ''Raw QUIC push timeout'')"
    assume "play (waitRawPush rawpush_fuel sid txt) v tr = Some (OutOfFuel, w)"
    then obtain t1 tr' where tr: "tr = (Now, ATime t1) # tr'"
      and r: "play (poll (Suc 8000) (t1 + 8000) (raw_round sid txt) ?exp (Some 0)) v tr' = Some (OutOfFuel, w)"
      unfolding waitRawPush_def rawpush_fuel_def poll_for_def by (auto simp: run_simps simp del: poll.simps)
    have "play (poll (Suc 8000) (t1 + 8000) (raw_round sid txt) ?exp (Some 0)) v tr' \<noteq> Some (OutOfFuel, w)"
      by (rule poll_ends_as_time_passes [of t1 tr' t1]) (use ok tr raw_round_ends in \<open>auto intro: ends_done\<close>)
    then show False using r by simp
  qed
qed

subsection \<open>What the agent promises\<close>

text \<open>A call of the agent that returns was answered with success, by the body it returns.\<close>

lemma runs_agent:
  assumes "runs (agent path body) v tr j w"
  shows "\<exists>p q r code. tr = [(Start (Fetch path body), APromise p), (Await p, AResult (Inr (VResponse True code))),
    (Start (ReadBody p), APromise q), (Await q, AResult (Inr r))] \<and> j = json r \<and> w = v"
proof -
  obtain p y q r tr' where tr: "tr = (Start (Fetch path body), APromise p) # (Await p, AResult (Inr y))
      # (Start (ReadBody p), APromise q) # (Await q, AResult (Inr r)) # tr'"
    and "runs (case y of VResponse ok code \<Rightarrow> if ok then return (json r)
        else then_do (field (json r) ''error'') (\<lambda>err. throw (agent_failure err code))
      | _ \<Rightarrow> throw TypeErr) v tr' j w"
    using assms unfolding agent_def by (clarsimp simp: run_simps)
  then show ?thesis by (cases y) (auto simp: run_simps split: if_splits)
qed

text \<open>The scan stops at the first match, and the cursor is the greatest number it has seen.\<close>

definition seqs_of :: "jsval list \<Rightarrow> int list" where
  "seqs_of es = map (\<lambda>e. case js_get e ''seq'' of Some (JNum n) \<Rightarrow> n | _ \<Rightarrow> 0) es"

definition numbered :: "jsval list \<Rightarrow> bool" where
  "numbered es \<longleftrightarrow> list_all (\<lambda>e. case js_get e ''seq'' of Some (JNum n) \<Rightarrow> True | _ \<Rightarrow> False) es"

lemma scan_events_cursor:
  assumes "scan_events txt (Some a) es = Some (after, found)" "numbered es"
  shows "\<exists>seen rest. es = seen @ rest \<and> after = Some (fold max (seqs_of seen) a) \<and>
    (case found of None \<Rightarrow> rest = [] \<and> list_all (\<lambda>e. is_message_push txt e = Some False) seen
     | Some e \<Rightarrow> seen \<noteq> [] \<and> last seen = e \<and> is_message_push txt e = Some True \<and>
         list_all (\<lambda>e. is_message_push txt e = Some False) (butlast seen))"
  using assms
proof (induction es arbitrary: a)
  case Nil
  then show ?case by (auto simp: seqs_of_def)
next
  case (Cons e es)
  then obtain n where n: "js_get e ''seq'' = Some (JNum n)" "numbered es"
    by (auto simp: numbered_def split: option.splits jsval.splits)
  then have m: "js_max (Some a) (JNum n) = Some (max a n)" by (simp add: js_max_def)
  from Cons.prems n obtain b where b: "is_message_push txt e = Some b" by (auto split: option.splits)
  show ?case
  proof (cases b)
    case True
    then have "after = Some (max a n)" "found = Some e" using Cons.prems n b m by auto
    then show ?thesis using b True n
      by (intro exI [of _ "[e]"] exI [of _ es]) (simp add: seqs_of_def max.commute)
  next
    case False
    then have "scan_events txt (Some (max a n)) es = Some (after, found)" using Cons.prems n b m by simp
    from Cons.IH [OF this n(2)] obtain seen rest where s: "es = seen @ rest"
      "after = Some (fold max (seqs_of seen) (max a n))"
      "(case found of None \<Rightarrow> rest = [] \<and> list_all (\<lambda>e. is_message_push txt e = Some False) seen
       | Some e \<Rightarrow> seen \<noteq> [] \<and> last seen = e \<and> is_message_push txt e = Some True \<and>
         list_all (\<lambda>e. is_message_push txt e = Some False) (butlast seen))" by blast
    then show ?thesis using b False n
      by (intro exI [of _ "e # seen"] exI [of _ rest])
        (auto simp: seqs_of_def max.commute split: option.splits)
  qed
qed

lemma runs_waitRawPush:
  assumes "runs (waitRawPush fuel sid txt) v tr e w"
  shows "is_message_push txt e = Some True"
proof -
  obtain after v' tr1 tr2 where r: "runs (raw_round sid txt after) v' tr2 (Inr e) w"
    using runs_poll_for [OF assms [unfolded waitRawPush_def] runs_throw] by blast
  have scan: "is_message_push txt x = Some True" if "scan_events txt a es = Some (b, Some x)" for a b x es
    using that by (induction es arbitrary: a) (auto split: option.splits if_splits)
  from r show ?thesis unfolding raw_round_def
    by (auto simp: run_simps runs_then_do [where m = "agent f g" for f g] split: option.splits if_splits dest: scan)
qed

end
