(* ===== verification/Gate_Mixed.thy ===== *)
theory Gate_Mixed
  imports Gate_Agent
begin

section \<open>The mixed gate (\<open>validation/wss-mixed-im.mjs\<close>)\<close>

text \<open>
  Two WSS users and a Raw QUIC user in one group: who has not joined must not read the history, each
  message must reach the two others under the id its sender was told, and the history must hold all
  three. Client 0 is \<open>wssA\<close>, 1 \<open>wssB\<close>; the variable is \<open>rawSession\<close>.
  \<open>waitRawPush\<close> runs beside the gate: it is started as the call \<open>RawPush\<close>, and its polling loop, with
  what a fulfilled one has seen and why it ends, is the script \<open>waitRawPush\<close> of \<open>Gate_Agent\<close>.
\<close>

record mixed_vars =
  rawSession :: jsval

definition mixed_password :: string where "mixed_password = ''Wss-mixed-valid-password-2026''"
definition wssA_name :: "string \<Rightarrow> string" where "wssA_name sfx = ''wss_a_'' @ sfx"
definition wssB_name :: "string \<Rightarrow> string" where "wssB_name sfx = ''wss_b_'' @ sfx"
definition raw_name :: "string \<Rightarrow> string" where "raw_name sfx = ''raw_'' @ sfx"
definition mixed_group :: "string \<Rightarrow> string" where "mixed_group sfx = ''WSS mixed '' @ sfx"
definition textA :: "string \<Rightarrow> string" where "textA sfx = ''WSS-A-to-all-'' @ sfx"
definition textB :: "string \<Rightarrow> string" where "textB sfx = ''WSS-B-to-all-'' @ sfx"
definition textRaw :: "string \<Rightarrow> string" where "textRaw sfx = ''QUIC-to-all-'' @ sfx"
definition auth_path :: string where "auth_path = ''/api/im/auth''"
definition logout_path :: string where "logout_path = ''/api/im/logout''"

definition raw_register :: "string \<Rightarrow> jsval" where
  "raw_register sfx = JObj
    [(''action'', JStr ''register''), (''username'', JStr (raw_name sfx)), (''password'', JStr mixed_password),
     (''address'', JStr ''127.0.0.1:8443''), (''server_name'', JStr ''localhost''),
     (''insecure_skip_verify'', JBool True)]"

definition join_request :: "jsval \<Rightarrow> (string \<times> jsval) list" where
  "join_request code = [(''type'', JStr ''join_group''), (''invite_code'', code)]"

text \<open>\<open>rawCommand\<close> as a call that runs beside the script.\<close>

definition start_raw :: "jsval \<Rightarrow> (string \<times> jsval) list \<Rightarrow> ('v, nat) script" where
  "start_raw raw cmd =
    then_do (field raw ''session_id'') (\<lambda>sid. start (Agent command_path (raw_body sid cmd)))"

definition mixed_setup :: "string \<Rightarrow> (mixed_vars, jsval \<times> jsval \<times> jsval \<times> jsval) script" where
  "mixed_setup sfx =
    then_do (start (Client 0 Connect)) (\<lambda>pa.
    then_do (start (Client 1 Connect)) (\<lambda>pb.
    then_do (await_all [pa, pb]) (\<lambda>rs.
    then_do (start (Client 0 (Authenticate (wssA_name sfx) mixed_password ''register''))) (\<lambda>qa.
    then_do (start (Client 1 (Authenticate (wssB_name sfx) mixed_password ''register''))) (\<lambda>qb.
    then_do (await_all [qa, qb]) (\<lambda>ss.
    let sessionA = json (ss ! 0); sessionB = json (ss ! 1) in
    then_do (start (Agent auth_path (Some (raw_register sfx)))) (\<lambda>p.
    then_do (await p) (\<lambda>r.
    let raw = json r in
    Put \<lparr>rawSession = raw\<rparr> (
    then_do (command 0 sessionA [(''type'', JStr ''create_group''), (''name'', JStr (mixed_group sfx))])
      (\<lambda>created.
    then_do (group_of created ''WSS create_group returned no group'') (\<lambda>grp.
    return (sessionA, sessionB, raw, grp)))))))))))) "

definition mixed_join :: "jsval \<Rightarrow> jsval \<Rightarrow> jsval \<Rightarrow> ('v, unit) script" where
  "mixed_join sessionB raw grp =
    then_do (field grp ''id'') (\<lambda>gid.
    then_do (start_command 1 sessionB (history_request gid)) (\<lambda>p.
    then_do (start (Fails p)) (\<lambda>pf.
    then_do (start_raw raw (history_request gid)) (\<lambda>q.
    then_do (await_all [pf, q]) (\<lambda>denied.
    then_do (throw_if (falsy (Some (json (denied ! 0)))) (Err ''second WSS user read history before joining'')) (\<lambda>u.
    then_do (throw_if (differ (js_get (json (denied ! 1)) ''ok'') (Some (JBool False)))
              (Err ''Raw user read history before joining'')) (\<lambda>u.
    then_do (field grp ''invite_code'') (\<lambda>code.
    then_do (start_command 1 sessionB (join_request code)) (\<lambda>pb.
    then_do (start_raw raw (join_request code)) (\<lambda>pr.
    then_do (await_all [pb, pr]) (\<lambda>joined.
    then_do (throw_if (differ (js_path (json (joined ! 0)) [Dot ''group'', Opt ''id'']) (Some gid))
              (Err ''second WSS user failed to join WSS-created group'')) (\<lambda>u.
    then_do (throw_if (js_or (falsy (js_get (json (joined ! 1)) ''ok''))
                (differ (js_path (json (joined ! 1)) [Dot ''group'', Opt ''id'']) (Some gid)))
              (Err ''Raw user failed to join WSS-created group'')) (\<lambda>u.
    return ())))))))))))))"

text \<open>The check that a reply and two pushes have the same message id.\<close>

definition disagree :: "jsval \<Rightarrow> jsval \<Rightarrow> jsval \<Rightarrow> bool option" where
  "disagree reply push1 push2 =
    js_or (falsy (reply_id reply))
      (js_or (differ (push_id push1) (js_path reply [Dot ''message'', Dot ''id'']))
             (differ (push_id push2) (js_path reply [Dot ''message'', Dot ''id''])))"

text \<open>WSS client \<open>c\<close> sends; the Raw user and WSS client \<open>d\<close> are pushed.\<close>

definition mixed_from_wss :: "nat \<Rightarrow> nat \<Rightarrow> jsval \<Rightarrow> jsval \<Rightarrow> jsval \<Rightarrow> string \<Rightarrow> string \<Rightarrow> ('v, jsval) script" where
  "mixed_from_wss c d session raw grp txt msg =
    then_do (field raw ''session_id'') (\<lambda>sid.
    then_do (start (RawPush sid txt)) (\<lambda>rawPush.
    then_do (start (Client d (WaitForPush txt))) (\<lambda>wssPush.
    then_do (field grp ''id'') (\<lambda>gid.
    then_do (command c session (send_request gid txt)) (\<lambda>reply.
    then_do (await_all [rawPush, wssPush]) (\<lambda>pushes.
    then_do (throw_if (disagree reply (json (pushes ! 0)) (json (pushes ! 1))) (Err msg)) (\<lambda>u.
    return reply)))))))"

definition mixed_from_raw :: "jsval \<Rightarrow> jsval \<Rightarrow> string \<Rightarrow> ('v, jsval) script" where
  "mixed_from_raw raw grp txt =
    then_do (start (Client 0 (WaitForPush txt))) (\<lambda>pushA.
    then_do (start (Client 1 (WaitForPush txt))) (\<lambda>pushB.
    then_do (field grp ''id'') (\<lambda>gid.
    then_do (start_raw raw (send_request gid txt)) (\<lambda>p.
    then_do (await p) (\<lambda>reply.
    then_do (await_all [pushA, pushB]) (\<lambda>pushes.
    then_do (throw_if (disagree (json reply) (json (pushes ! 0)) (json (pushes ! 1)))
              (Err ''Raw QUIC -> both WSS persisted response and pushes disagree'')) (\<lambda>u.
    return (json reply))))))))"

text \<open>\<open>new Set((history.messages ?? []).map((message) => message.id))\<close> and its \<open>has\<close>.\<close>

definition ids_of :: "jsval list \<Rightarrow> jsval list option" where
  "ids_of ms = those (map (\<lambda>m. js_get m ''id'') ms)"

definition lacks :: "jsval list \<Rightarrow> jsval option \<Rightarrow> bool option" where
  "lacks ids x = map_option (\<lambda>i. \<not> list_ex (\<lambda>j. js_same j i) ids) x"

definition message_id :: "jsval \<Rightarrow> jsval option" where
  "message_id r = js_path r [Dot ''message'', Dot ''id'']"

definition mixed_history :: "jsval \<Rightarrow> jsval \<Rightarrow> jsval \<Rightarrow> jsval \<Rightarrow> jsval \<Rightarrow> jsval \<Rightarrow> ('v, unit) script" where
  "mixed_history sessionA sessionB grp sentA sentB sentRaw =
    then_do (field grp ''id'') (\<lambda>gid.
    then_do (command 1 sessionB [(''type'', JStr ''typing''), (''group_id'', gid)]) (\<lambda>typing.
    then_do (command 0 sessionA (history_request gid)) (\<lambda>history.
    then_do (field history ''messages'') (\<lambda>ms.
    then_do (value_of (array_or_empty ms)) (\<lambda>messages.
    then_do (value_of (ids_of messages)) (\<lambda>ids.
    throw_if (js_or (lacks ids (message_id sentA)) (js_or (lacks ids (message_id sentB)) (lacks ids (message_id sentRaw))))
      (Err ''SQLite history is missing a mixed-transport message'')))))))"

definition mixed_report ::
  "string \<Rightarrow> jsval \<Rightarrow> jsval \<Rightarrow> jsval \<Rightarrow> jsval \<Rightarrow> jsval \<Rightarrow> jsval \<Rightarrow> jsval \<Rightarrow> jsval" where
  "mixed_report sfx gid destA destB destRaw a b r = JObj
    [(''ok'', JBool True), (''group_id'', gid),
     (''wss'', JArr [JObj [(''username'', JStr (wssA_name sfx)), (''dest_id'', destA)],
                     JObj [(''username'', JStr (wssB_name sfx)), (''dest_id'', destB)]]),
     (''raw_quic'', JObj [(''username'', JStr (raw_name sfx)), (''dest_id'', destRaw)]),
     (''messages'', JArr [a, b, r]), (''response_none'', JStr ''empty-fin''), (''history'', JStr ''consistent'')]"

definition mixed_body :: "string \<Rightarrow> (mixed_vars, unit) script" where
  "mixed_body sfx =
    then_do (mixed_setup sfx) (\<lambda>(sessionA, sessionB, raw, grp).
    then_do (mixed_join sessionB raw grp) (\<lambda>u.
    then_do (mixed_from_wss 0 1 sessionA raw grp (textA sfx)
      ''WSS A -> WSS B/Raw persisted response and pushes disagree'') (\<lambda>sentA.
    then_do (mixed_from_wss 1 0 sessionB raw grp (textB sfx)
      ''WSS B -> WSS A/Raw persisted response and pushes disagree'') (\<lambda>sentB.
    then_do (mixed_from_raw raw grp (textRaw sfx)) (\<lambda>sentRaw.
    then_do (mixed_history sessionA sessionB grp sentA sentB sentRaw) (\<lambda>u.
    then_do (field grp ''id'') (\<lambda>gid.
    then_do (dest_text sessionA) (\<lambda>destA.
    then_do (dest_text sessionB) (\<lambda>destB.
    then_do (field raw ''dest_id'') (\<lambda>destRaw.
    then_do (value_of (message_id sentA)) (\<lambda>a.
    then_do (value_of (message_id sentB)) (\<lambda>b.
    then_do (value_of (message_id sentRaw)) (\<lambda>r.
    then_do (do_it (Print (mixed_report sfx gid destA destB destRaw a b r))) (\<lambda>u.
    return ()))))))))))))))"

text \<open>The logout is awaited and its failure ignored.\<close>

definition mixed_finally :: "(mixed_vars, unit) script" where
  "mixed_finally =
    then_do (close_all [0, 1]) (\<lambda>u.
    Get (\<lambda>v.
      case js_path (rawSession v) [Opt ''session_id''] of
        None \<Rightarrow> throw TypeErr
      | Some sid \<Rightarrow>
          if js_truthy sid
          then catch (then_do (start (Agent logout_path (Some (JObj [(''session_id'', sid)])))) (\<lambda>p.
                 then_do (await p) (\<lambda>r. return ()))) (\<lambda>e. return ())
          else return ()))"

definition mixed_gate :: "string \<Rightarrow> (mixed_vars, unit) script" where
  "mixed_gate sfx = try_finally (mixed_body sfx) mixed_finally"

definition mixed_start :: mixed_vars where "mixed_start = \<lparr>rawSession = JNull\<rparr>"

subsection \<open>What a run shows\<close>

definition raw_pushed :: "observed list \<Rightarrow> string \<Rightarrow> jsval \<Rightarrow> bool" where
  "raw_pushed tr txt mid \<longleftrightarrow> (\<exists>sid y mid'. fulfilled tr (RawPush sid txt) y \<and> push_id (json y) = Some mid' \<and> js_same mid' mid)"

definition raw_sent :: "observed list \<Rightarrow> jsval \<Rightarrow> string \<Rightarrow> jsval \<Rightarrow> bool" where
  "raw_sent tr gid txt mid \<longleftrightarrow> (\<exists>sid y. fulfilled tr (Agent command_path (raw_body sid (send_request gid txt))) y \<and>
     message_id (json y) = Some mid \<and> js_truthy mid)"

definition refused :: "observed list \<Rightarrow> nat \<Rightarrow> (string \<times> jsval) list \<Rightarrow> bool" where
  "refused tr c cmd \<longleftrightarrow> (\<exists>tok p y. (Start (Client c (Command tok cmd)), APromise p) \<in> set tr \<and>
     fulfilled tr (Fails p) y \<and> js_truthy (json y))"

definition raw_refused :: "observed list \<Rightarrow> (string \<times> jsval) list \<Rightarrow> bool" where
  "raw_refused tr cmd \<longleftrightarrow> (\<exists>sid y. fulfilled tr (Agent command_path (raw_body sid cmd)) y \<and>
     js_get (json y) ''ok'' = Some (JBool False))"

definition history_has :: "observed list \<Rightarrow> nat \<Rightarrow> jsval \<Rightarrow> jsval list \<Rightarrow> bool" where
  "history_has tr c gid mids \<longleftrightarrow> (\<exists>tok y ms. fulfilled tr (Client c (Command tok (history_request gid))) y \<and>
     js_get (json y) ''messages'' = Some (JArr ms) \<and>
     (\<forall>i \<in> set mids. \<exists>m \<in> set ms. \<exists>j. js_get m ''id'' = Some j \<and> js_same j i))"

lemma raw_pushedI:
  "fulfilled tr (RawPush sid txt) y \<Longrightarrow> push_id (json y) = Some mid' \<Longrightarrow> js_same mid' mid \<Longrightarrow> raw_pushed tr txt mid"
  unfolding raw_pushed_def by (intro exI conjI)

lemma raw_sentI:
  "fulfilled tr (Agent command_path (raw_body sid (send_request gid txt))) y \<Longrightarrow> message_id (json y) = Some mid \<Longrightarrow>
   js_truthy mid \<Longrightarrow> raw_sent tr gid txt mid"
  unfolding raw_sent_def by (intro exI conjI)

lemma history_hasI:
  "fulfilled tr (Client c (Command tok (history_request gid))) y \<Longrightarrow> js_get (json y) ''messages'' = Some (JArr ms) \<Longrightarrow>
   (\<And>i. i \<in> set mids \<Longrightarrow> \<exists>m \<in> set ms. \<exists>j. js_get m ''id'' = Some j \<and> js_same j i) \<Longrightarrow> history_has tr c gid mids"
  unfolding history_has_def by (intro exI conjI) auto

lemma disagree_False:
  "disagree reply push1 push2 = Some False \<Longrightarrow> \<exists>mid m1 m2. message_id reply = Some mid \<and> js_truthy mid \<and>
     js_path reply [Dot ''message'', Dot ''id''] = Some mid \<and> reply_id reply = Some mid \<and>
     push_id push1 = Some m1 \<and> js_same m1 mid \<and> push_id push2 = Some m2 \<and> js_same m2 mid"
  unfolding disagree_def message_id_def using reply_id_read by fastforce

lemma runs_from_wss:
  assumes "runs (mixed_from_wss c d session raw grp txt msg) v tr reply w" "js_get grp ''id'' = Some gid"
  shows "\<exists>mid. message_id reply = Some mid \<and> sent_message tr c gid txt mid \<and> raw_pushed tr txt mid \<and> pushed tr d txt mid"
proof -
  have "\<exists>sid p1 p2 tok q y ys.
    tr = [(Start (RawPush sid txt), APromise p1), (Start (Client d (WaitForPush txt)), APromise p2),
      (Start (Client c (Command tok (send_request gid txt))), APromise q), (Await q, AResult (Inr y)),
      (AwaitAll [p1, p2], AResults (Inr ys))] \<and>
    length ys = Suc (Suc 0) \<and> disagree (json y) (json (ys ! 0)) (json (ys ! 1)) = Some False \<and> reply = json y"
    using assms unfolding mixed_from_wss_def by (auto simp: run_simps split: if_splits)
  then obtain sid p1 p2 tok q y ys where
    tr: "tr = [(Start (RawPush sid txt), APromise p1), (Start (Client d (WaitForPush txt)), APromise p2),
      (Start (Client c (Command tok (send_request gid txt))), APromise q), (Await q, AResult (Inr y)),
      (AwaitAll [p1, p2], AResults (Inr ys))]"
    and len: "length ys = Suc (Suc 0)" and dis: "disagree (json y) (json (ys ! 0)) (json (ys ! 1)) = Some False"
    and r: "reply = json y" by (elim exE conjE)
  have f: "fulfilled tr (Client c (Command tok (send_request gid txt))) y"
    unfolding tr by (rule fulfilledI list.set_intros)+
  have g: "fulfilled tr (RawPush sid txt) (ys ! 0)"
    by (rule fulfilled_allI [of _ p1 _ "[p1, p2]" ys 0]) (simp_all add: tr len)
  have h: "fulfilled tr (Client d (WaitForPush txt)) (ys ! 1)"
    by (rule fulfilled_allI [of _ p2 _ "[p1, p2]" ys 1]) (simp_all add: tr len)
  from disagree_False [OF dis] obtain mid m1 m2 where m: "message_id (json y) = Some mid" "js_truthy mid"
    "reply_id (json y) = Some mid" "push_id (json (ys ! 0)) = Some m1" "js_same m1 mid"
    "push_id (json (ys ! 1)) = Some m2" "js_same m2 mid" by blast
  show ?thesis
    using sent_messageI [OF f m(3,2)] raw_pushedI [OF g m(4,5)] pushedI [OF h m(6,7)] m(1) r by auto
qed

lemma runs_from_raw:
  assumes "runs (mixed_from_raw raw grp txt) v tr reply w" "js_get grp ''id'' = Some gid"
  shows "\<exists>mid. message_id reply = Some mid \<and> raw_sent tr gid txt mid \<and> pushed tr 0 txt mid \<and> pushed tr 1 txt mid"
proof -
  have "\<exists>sid p1 p2 q y ys.
    tr = [(Start (Client 0 (WaitForPush txt)), APromise p1), (Start (Client 1 (WaitForPush txt)), APromise p2),
      (Start (Agent command_path (raw_body sid (send_request gid txt))), APromise q), (Await q, AResult (Inr y)),
      (AwaitAll [p1, p2], AResults (Inr ys))] \<and>
    length ys = Suc (Suc 0) \<and> disagree (json y) (json (ys ! 0)) (json (ys ! 1)) = Some False \<and> reply = json y"
    using assms unfolding mixed_from_raw_def start_raw_def
    by (auto simp: run_simps then_do_assoc split: if_splits)
  then obtain sid p1 p2 q y ys where
    tr: "tr = [(Start (Client 0 (WaitForPush txt)), APromise p1), (Start (Client 1 (WaitForPush txt)), APromise p2),
      (Start (Agent command_path (raw_body sid (send_request gid txt))), APromise q), (Await q, AResult (Inr y)),
      (AwaitAll [p1, p2], AResults (Inr ys))]"
    and len: "length ys = Suc (Suc 0)" and dis: "disagree (json y) (json (ys ! 0)) (json (ys ! 1)) = Some False"
    and r: "reply = json y" by (elim exE conjE)
  have f: "fulfilled tr (Agent command_path (raw_body sid (send_request gid txt))) y"
    unfolding tr by (rule fulfilledI list.set_intros)+
  have g: "fulfilled tr (Client 0 (WaitForPush txt)) (ys ! 0)"
    by (rule fulfilled_allI [of _ p1 _ "[p1, p2]" ys 0]) (simp_all add: tr len)
  have h: "fulfilled tr (Client 1 (WaitForPush txt)) (ys ! 1)"
    by (rule fulfilled_allI [of _ p2 _ "[p1, p2]" ys 1]) (simp_all add: tr len)
  from disagree_False [OF dis] obtain mid m1 m2 where m: "message_id (json y) = Some mid" "js_truthy mid"
    "push_id (json (ys ! 0)) = Some m1" "js_same m1 mid"
    "push_id (json (ys ! 1)) = Some m2" "js_same m2 mid" by blast
  show ?thesis
    using raw_sentI [OF f m(1,2)] pushedI [OF g m(3,4)] pushedI [OF h m(5,6)] m(1) r by auto
qed

lemma runs_join:
  assumes "runs (mixed_join sessionB raw grp) v tr u w" "js_get grp ''id'' = Some gid"
  shows "refused tr 1 (history_request gid) \<and> raw_refused tr (history_request gid)"
proof -
  obtain tok p pf sid q ys tr' where
    tr: "tr = (Start (Client 1 (Command tok (history_request gid))), APromise p) # (Start (Fails p), APromise pf)
      # (Start (Agent command_path (raw_body sid (history_request gid))), APromise q)
      # (AwaitAll [pf, q], AResults (Inr ys)) # tr'"
    and len: "length ys = Suc (Suc 0)" and t: "js_truthy (json (ys ! 0))" "js_get (json (ys ! 1)) ''ok'' = Some (JBool False)"
    using assms unfolding mixed_join_def start_raw_def
    by (clarsimp simp: run_simps then_do_assoc split: if_splits)
  have f: "fulfilled tr (Fails p) (ys ! 0)"
    by (rule fulfilled_allI [of _ pf _ "[pf, q]" ys 0]) (simp_all add: tr len)
  have g: "fulfilled tr (Agent command_path (raw_body sid (history_request gid))) (ys ! 1)"
    by (rule fulfilled_allI [of _ q _ "[pf, q]" ys 1]) (simp_all add: tr len)
  have "(Start (Client 1 (Command tok (history_request gid))), APromise p) \<in> set tr" by (simp add: tr)
  then show ?thesis unfolding refused_def raw_refused_def using f g t by blast
qed

lemma those_in: "those (map f ms) = Some ids \<Longrightarrow> j \<in> set ids \<Longrightarrow> \<exists>m \<in> set ms. f m = Some j"
  by (induction ms arbitrary: ids) (auto split: option.splits)

lemma lacks_False: "lacks ids x = Some False \<longleftrightarrow> (\<exists>i. x = Some i \<and> (\<exists>j \<in> set ids. js_same j i))"
  by (cases x) (auto simp: lacks_def list_ex_iff)

lemma runs_mixed_history:
  assumes "runs (mixed_history sA sB grp a b r) v tr u w" "js_get grp ''id'' = Some gid"
    "message_id a = Some i" "message_id b = Some j" "message_id r = Some k"
  shows "history_has tr 0 gid [i, j, k]"
proof -
  obtain tokB p1 y1 tok p y ms xs ids where
    tr: "tr = [(Start (Client 1 (Command tokB [(''type'', JStr ''typing''), (''group_id'', gid)])), APromise p1),
      (Await p1, AResult (Inr y1)), (Start (Client 0 (Command tok (history_request gid))), APromise p),
      (Await p, AResult (Inr y))]"
    and h: "js_get (json y) ''messages'' = Some ms" "array_or_empty ms = Some xs" "ids_of xs = Some ids"
    and has: "lacks ids (Some i) = Some False" "lacks ids (Some j) = Some False" "lacks ids (Some k) = Some False"
    using assms unfolding mixed_history_def
    by (clarsimp simp: run_simps)
  have f: "fulfilled tr (Client 0 (Command tok (history_request gid))) y"
    unfolding tr by (rule fulfilledI list.set_intros)+
  have m: "\<exists>m \<in> set xs. \<exists>j. js_get m ''id'' = Some j \<and> js_same j i" if "lacks ids (Some i) = Some False" for i
    using that those_in [OF h(3) [unfolded ids_of_def]] unfolding lacks_False by blast
  then have "ms = JArr xs" using has(1) array_or_empty_in [OF h(2)] by blast
  then have ms: "js_get (json y) ''messages'' = Some (JArr xs)" using h(1) by simp
  show ?thesis by (rule history_hasI [OF f ms]) (use m has in auto)
qed

lemma runs_mixed_setup:
  assumes "runs (mixed_setup sfx) v tr (sA, sB, raw, grp) w"
  shows "created_group tr 0 (mixed_group sfx) grp \<and> rawSession w = raw"
  using assms unfolding mixed_setup_def created_group_def Let_def
  by (clarsimp simp: run_simps split: if_splits)
    (rule exI conjI fulfilledI list.set_intros | assumption)+

subsection \<open>The gate\<close>

lemmas runs_mixed_parts = runs_then_do [where m = "mixed_setup f" for f]
  runs_then_do [where m = "mixed_join a b c" for a b c]
  runs_then_do [where m = "mixed_from_wss a b c d e f g" for a b c d e f g]
  runs_then_do [where m = "mixed_from_raw a b c" for a b c]
  runs_then_do [where m = "mixed_history a b c d e f" for a b c d e f]

text \<open>What a successful run of the mixed gate has shown: who has not joined may not read the history, over WSS and
  Raw; each of the three members' messages reached the two others with the id its sender got; and the
  history has the three ids.\<close>

theorem mixed_gate_sound:
  assumes "runs (mixed_gate sfx) v tr x w"
  shows "\<exists>grp gid a b r t1 t2 t3 t4 t5 t6 rest. tr = t1 @ t2 @ t3 @ t4 @ t5 @ t6 @ rest \<and>
    created_group t1 0 (mixed_group sfx) grp \<and> js_get grp ''id'' = Some gid \<and>
    refused t2 1 (history_request gid) \<and> raw_refused t2 (history_request gid) \<and>
    sent_message t3 0 gid (textA sfx) a \<and> raw_pushed t3 (textA sfx) a \<and> pushed t3 1 (textA sfx) a \<and>
    sent_message t4 1 gid (textB sfx) b \<and> raw_pushed t4 (textB sfx) b \<and> pushed t4 0 (textB sfx) b \<and>
    raw_sent t5 gid (textRaw sfx) r \<and> pushed t5 0 (textRaw sfx) r \<and> pushed t5 1 (textRaw sfx) r \<and>
    history_has t6 0 gid [a, b, r]"
proof -
  obtain tb t9 vb where tr: "tr = tb @ t9" and body: "runs (mixed_body sfx) v tb () vb"
    using assms unfolding mixed_gate_def runs_try_finally by auto
  obtain sA sB raw grp gid mA mB mR t1 v1 t2 v2 t3 v3 t4 v4 t5 v5 t6 v6 t7 where
    split: "tb = t1 @ t2 @ t3 @ t4 @ t5 @ t6 @ t7"
    and parts: "runs (mixed_setup sfx) v t1 (sA, sB, raw, grp) v1" "runs (mixed_join sB raw grp) v1 t2 () v2"
      "runs (mixed_from_wss 0 1 sA raw grp (textA sfx)
         ''WSS A -> WSS B/Raw persisted response and pushes disagree'') v2 t3 mA v3"
      "runs (mixed_from_wss 1 0 sB raw grp (textB sfx)
         ''WSS B -> WSS A/Raw persisted response and pushes disagree'') v3 t4 mB v4"
      "runs (mixed_from_raw raw grp (textRaw sfx)) v4 t5 mR v5" "runs (mixed_history sA sB grp mA mB mR) v5 t6 () v6"
      "js_get grp ''id'' = Some gid"
    using body unfolding mixed_body_def
    by (clarsimp simp: run_simps runs_mixed_parts split: if_splits)
  note gid = parts(7)
  from runs_from_wss [OF parts(3) gid] obtain a where a: "message_id mA = Some a" "sent_message t3 0 gid (textA sfx) a"
    "raw_pushed t3 (textA sfx) a" "pushed t3 1 (textA sfx) a" by blast
  from runs_from_wss [OF parts(4) gid] obtain b where b: "message_id mB = Some b" "sent_message t4 1 gid (textB sfx) b"
    "raw_pushed t4 (textB sfx) b" "pushed t4 0 (textB sfx) b" by blast
  from runs_from_raw [OF parts(5) gid] obtain r where r: "message_id mR = Some r" "raw_sent t5 gid (textRaw sfx) r"
    "pushed t5 0 (textRaw sfx) r" "pushed t5 1 (textRaw sfx) r" by blast
  note h = runs_mixed_history [OF parts(6) gid a(1) b(1) r(1)]
  from runs_mixed_setup [OF parts(1)] have g: "created_group t1 0 (mixed_group sfx) grp" ..
  from runs_join [OF parts(2) gid] have j: "refused t2 1 (history_request gid)" "raw_refused t2 (history_request gid)"
    by auto
  show ?thesis
  proof (intro exI conjI)
    show "tr = t1 @ t2 @ t3 @ t4 @ t5 @ t6 @ (t7 @ t9)" using tr split by simp
  qed (fact g gid j a(2-4) b(2-4) r(2-4) h)+
qed

lemma quiet_mixed_parts [quiet_intros]:
  "quiet (start_raw raw cmd)" "quiet (mixed_setup sfx)" "quiet (mixed_join sB raw grp)"
  "quiet (mixed_from_wss c d s raw grp txt msg)" "quiet (mixed_from_raw raw grp txt)" "quiet (mixed_history sA sB grp a b r)"
  unfolding start_raw_def mixed_setup_def mixed_join_def mixed_from_wss_def mixed_from_raw_def mixed_history_def
  by (intro quiet_intros)+

lemma opt_never_throws: "js_path v [Opt k] \<noteq> None"
  by (cases v) (auto simp: js_path.simps)

definition logs_out :: "jsval \<Rightarrow> observed list \<Rightarrow> bool" where
  "logs_out raw tr \<longleftrightarrow> (\<forall>sid. js_path raw [Opt ''session_id''] = Some sid \<longrightarrow> js_truthy sid \<longrightarrow>
     (\<exists>p. (Start (Agent logout_path (Some (JObj [(''session_id'', sid)]))), APromise p) \<in> set tr))"

lemma play_mixed_finally:
  assumes "play mixed_finally v tr = Some (r, w)" "r \<noteq> OutOfFuel"
  shows "r = Returned () \<and> w = v \<and> (Close 0, ADone) \<in> set tr \<and> (Close 1, ADone) \<in> set tr \<and> logs_out (rawSession v) tr"
proof -
  obtain sid where sid: "js_path (rawSession v) [Opt ''session_id''] = Some sid"
    using opt_never_throws by blast
  obtain tr2 where tr: "tr = [(Close 0, ADone), (Close 1, ADone)] @ tr2"
    and p: "play (if js_truthy sid
          then catch (then_do (start (Agent logout_path (Some (JObj [(''session_id'', sid)])))) (\<lambda>p.
                 then_do (await p) (\<lambda>r. return ()))) (\<lambda>e. return ())
          else return ()) v tr2 = Some (r, w)"
    using assms(1) sid unfolding mixed_finally_def play_then_do by (auto simp: play_close_all)
  show ?thesis
  proof (cases "js_truthy sid")
    case True
    let ?m = "then_do (start (Agent logout_path (Some (JObj [(''session_id'', sid)])))) (\<lambda>p.
                 then_do (await p) (\<lambda>r. return ()))"
    from p True obtain tr3 tr4 q v1 where c: "tr2 = tr3 @ tr4" "play ?m v tr3 = Some (q, v1)"
      "play (settle_do (\<lambda>r. case r of Threw e \<Rightarrow> return () | _ \<Rightarrow> Done r) q) v1 tr4 = Some (r, w)"
      unfolding catch_def by (auto simp: play_on_outcome)
    from c(2) obtain p' res where m: "tr3 = [(Start (Agent logout_path (Some (JObj [(''session_id'', sid)]))), APromise p'),
        (Await p', AResult res)]" "v1 = v" "q \<noteq> OutOfFuel" "\<And>x. q = Returned x \<Longrightarrow> x = ()"
      by (auto simp: run_simps play_await split: if_splits) (case_tac r; auto split: if_splits)
    then have "r = Returned ()" "w = v" using c(3) by (cases q; auto split: if_splits)+
    then show ?thesis using tr c m sid unfolding logs_out_def by auto
  next
    case False
    then show ?thesis using tr p sid unfolding logs_out_def by (auto split: if_splits)
  qed
qed

interpretation mixed: gate "mixed_body sfx" mixed_finally "\<lambda>v. [0, 1]" for sfx
proof unfold_locales
  show "reports_last (mixed_body sfx)"
    unfolding mixed_body_def by (intro report_intros quiet_intros)
  show "quiet mixed_finally"
    unfolding mixed_finally_def
    by (intro quiet_intros)
qed (use play_mixed_finally in auto)

theorem mixed_gate_ends: "ends (mixed_gate sfx)"
  unfolding mixed_gate_def mixed_body_def mixed_setup_def mixed_join_def mixed_from_wss_def mixed_from_raw_def
    mixed_history_def mixed_finally_def start_raw_def
  by (intro ends_intros)

end
