(* ===== verification/Script_Streams.thy ===== *)
theory Script_Streams
  imports Script_Calls
begin

section \<open>Streams of the scripts\<close>

text \<open>
  The scripts that talk to the gateway in frames build them with the wire functions of the Node client.
  The texts they send are ASCII; a body decoded by \<open>toString()\<close> is equal to an ASCII text exactly if it
  is that text's bytes.
\<close>

definition decode_failure :: "smoke_error \<Rightarrow> script_error" where
  "decode_failure e = (case e of
      RangeError \<Rightarrow> RangeErr
    | ResponseTruncated \<Rightarrow> Err ''Lyune response frame truncated''
    | UnknownFrame \<Rightarrow> Err ''unknown Lyune response frame''
    | LengthMismatch \<Rightarrow> Err ''Lyune response frame length mismatch''
    | _ \<Rightarrow> Err ''expected exactly one Lyune OPEN response'')"

fun wire_value :: "smoke_error + 'a \<Rightarrow> ('v, 'a) script" where
  "wire_value (Inl e) = throw (decode_failure e)"
| "wire_value (Inr x) = return x"

definition open_text :: "nat \<Rightarrow> nat \<Rightarrow> nat \<Rightarrow> nat \<Rightarrow> string \<Rightarrow> bool \<Rightarrow> smoke_error + bytes" where
  "open_text dest grp route mode s eof = openBytesFrame dest grp route mode (ascii s) eof"

definition data_text :: "string \<Rightarrow> bool \<Rightarrow> smoke_error + bytes" where
  "data_text s eof = dataFrame (ascii s) eof"

text \<open>\<open>client.exchange(frame, noResponse)\<close>, and a frame sent on a stream.\<close>

definition exchange_frame :: "nat \<Rightarrow> smoke_error + bytes \<Rightarrow> bool \<Rightarrow> ('v, settled) script" where
  "exchange_frame c fr noResponse =
    then_do (wire_value fr) (\<lambda>bs. request c (Exchange bs noResponse))"

definition stream_send :: "nat \<Rightarrow> nat \<Rightarrow> smoke_error + bytes \<Rightarrow> bool \<Rightarrow> ('v, unit) script" where
  "stream_send c p fr fin = then_do (wire_value fr) (\<lambda>bs. do_it (StreamSend c p bs fin))"

fun result_frame :: "settled \<Rightarrow> js_frame option" where
  "result_frame (VFrame f) = Some f"
| "result_frame _ = None"

fun bytes_of :: "settled \<Rightarrow> bytes" where
  "bytes_of (VBytes bs) = bs"
| "bytes_of _ = []"

definition body_is :: "js_frame \<Rightarrow> string \<Rightarrow> bool" where
  "body_is f s \<longleftrightarrow> jf_body f = ascii s"

text \<open>\<open>assert(condition, message)\<close>.\<close>

definition assert_that :: "bool \<Rightarrow> string \<Rightarrow> ('v, unit) script" where
  "assert_that b msg = (if b then return () else throw (Err msg))"

subsection \<open>What a run shows\<close>

text \<open>A frame was exchanged and answered with a frame.\<close>

definition exchanged :: "observed list \<Rightarrow> nat \<Rightarrow> smoke_error + bytes \<Rightarrow> js_frame \<Rightarrow> bool" where
  "exchanged tr c fr f \<longleftrightarrow> (\<exists>bs. fr = Inr bs \<and> fulfilled tr (Client c (Exchange bs False)) (VFrame f))"

lemma result_frame_Some [simp]: "result_frame r = Some f \<longleftrightarrow> r = VFrame f"
  by (cases r) auto

lemma runs_wire_value [run_simps]:
  "runs (then_do (wire_value r) f) v tr x w \<longleftrightarrow> (\<exists>y. r = Inr y \<and> runs (f y) v tr x w)"
  by (cases r) auto

lemma runs_assert [run_simps]:
  "runs (then_do (assert_that b msg) f) v tr x w \<longleftrightarrow> b \<and> runs (f ()) v tr x w"
  by (simp add: assert_that_def)

lemma runs_assert_alone [run_simps]: "runs (assert_that b msg) v tr x w \<longleftrightarrow> b \<and> tr = [] \<and> w = v"
  by (auto simp: assert_that_def)

lemma then_do_streams [simp]:
  "then_do (exchange_frame c fr nr) f =
     then_do (wire_value fr) (\<lambda>bs. then_do (start (Client c (Exchange bs nr))) (\<lambda>p. then_do (await p) f))"
  "then_do (stream_send c p fr fin) g =
     then_do (wire_value fr) (\<lambda>bs. then_do (do_it (StreamSend c p bs fin)) g)"
  by (simp_all add: exchange_frame_def stream_send_def then_do_assoc)

lemma ends_wire_value [ends_intros]: "ends (wire_value r)"
  by (cases r) (auto intro: ends_intros)

lemma quiet_wire_value [quiet_intros]: "quiet (wire_value r)"
  by (cases r) (auto intro: quiet_intros)

lemma ends_streams [ends_intros]:
  "ends (exchange_frame c fr nr)" "ends (stream_send c p fr fin)" "ends (assert_that b msg)"
  unfolding exchange_frame_def stream_send_def assert_that_def by (intro ends_intros)+

lemma quiet_streams [quiet_intros]:
  "quiet (exchange_frame c fr nr)" "quiet (stream_send c p fr fin)" "quiet (assert_that b msg)"
  unfolding exchange_frame_def stream_send_def assert_that_def by (intro quiet_intros)+

end
