(* ===== verification/Gate_Protocol.thy ===== *)
theory Gate_Protocol
  imports Script_Streams
begin

section \<open>The protocol gate (\<open>validation/wss-protocol.mjs\<close>)\<close>

text \<open>
  One connection: a ping of the gateway, a single and a streaming echo of the service, 32 concurrent
  streams, an exchange without response, and a RESET and a STOP that must cancel one stream only. The
  client is number 0; \<open>hex\<close> are the random digits of the ping body.
\<close>

definition protocol_password :: string where "protocol_password = ''Wss-protocol-valid-password-2026''"
definition protocol_name :: "string \<Rightarrow> string" where "protocol_name sfx = ''wss_protocol_'' @ sfx"

definition ping_frame :: "string \<Rightarrow> smoke_error + bytes" where
  "ping_frame s = open_text 0 0 0x02 0 s True"

definition echo_frame :: "string \<Rightarrow> bool \<Rightarrow> smoke_error + bytes" where
  "echo_frame s eof = open_text 1 1 0 0 s eof"

definition is_pong :: "js_frame \<Rightarrow> bool" where
  "is_pong f \<longleftrightarrow> jf_type f = 0 \<and> jf_dest f = 0 \<and> jf_route f = 0x03"

definition assertPong :: "settled \<Rightarrow> string \<Rightarrow> ('v, unit) script" where
  "assertPong r s =
    then_do (value_of (result_frame r)) (\<lambda>f.
    then_do (assert_that (is_pong f) ''Gateway ping did not return pong'') (\<lambda>u.
    assert_that (body_is f s) ''Gateway pong body changed''))"

text \<open>
  \<open>expectCanceled\<close>: the promise must be rejected with a message that contains this text.
\<close>

definition canceled_text :: string where "canceled_text = ''canceled by Gateway''"

definition expectCanceled :: "nat \<Rightarrow> string \<Rightarrow> ('v, unit) script" where
  "expectCanceled p label =
    then_do (catch (then_do (await p) (\<lambda>r. return False))
      (\<lambda>e. if index_of canceled_text (error_text e) \<noteq> None then return True
            else throw (Err (label @ '': unexpected rejection: '' @ error_text e)))) (\<lambda>canceled.
    if canceled then return ()
    else throw (Err (label @ '': logical stream ended successfully instead of being canceled'')))"

definition ping_step :: "string \<Rightarrow> ('v, unit) script" where
  "ping_step s = then_do (exchange_frame 0 (ping_frame s) False) (\<lambda>r. assertPong r s)"

definition single_step :: "('v, unit) script" where
  "single_step =
    then_do (exchange_frame 0 (echo_frame ''single'' True) False) (\<lambda>r.
    then_do (value_of (result_frame r)) (\<lambda>f.
    then_do (assert_that (jf_dest f = 1 \<and> jf_group f = 1 \<and> jf_route f = 0) ''single echo route changed'') (\<lambda>u.
    assert_that (body_is f ''echo: single'') ''single echo body changed'')))"


definition joined_text :: "js_frame list \<Rightarrow> bytes" where
  "joined_text frames = concat (map (\<lambda>(i, f). (if i = 0 then [] else ascii ''|'') @ jf_body f) (enumerate 0 frames))"

definition streaming_step :: "('v, nat \<times> nat \<times> nat \<times> bool) script" where
  "streaming_step =
    then_do (start (Client 0 (BeginExchange True 8000 True))) (\<lambda>p.
    then_do (start (ChunkSeen p 1)) (\<lambda>firstChunk.
    then_do (start (ChunkSeen p 2)) (\<lambda>secondChunk.
    then_do now (\<lambda>started.
    then_do (stream_send 0 p (echo_frame ''head'' False) False) (\<lambda>u.
    then_do (start (Timer 2000 ''streaming echo did not answer OPEN before request EOF'')) (\<lambda>t1.
    then_do (await_race [firstChunk, t1]) (\<lambda>r1.
    then_do (stream_send 0 p (data_text ''middle'' False) False) (\<lambda>u.
    then_do (start (Timer 2000 ''streaming echo did not answer DATA before request EOF'')) (\<lambda>t2.
    then_do (await_race [secondChunk, t2]) (\<lambda>r2.
    then_do now (\<lambda>finalSentAt.
    then_do (stream_send 0 p (data_text ''tail'' True) True) (\<lambda>u.
    then_do (await p) (\<lambda>res.
    then_do (wire_value (smoke_decodeFrames (bytes_of res))) (\<lambda>frames.
    then_do (assert_that (length frames = 3)
      (''streaming echo returned '' @ show_nat (length frames) @ '' frames instead of 3'')) (\<lambda>u.
    then_do (assert_that (joined_text frames = ascii ''echo: head|echo: middle|echo: tail'')
      ''streaming echo reordered or changed frames'') (\<lambda>u.
    then_do (chunks_of p) (\<lambda>observed.
    then_do (throw_if (if length observed < 1 then None
                       else if finalSentAt < fst (observed ! 0) then Some True
                       else if length observed < 2 then None else Some (finalSentAt < fst (observed ! 1)))
              (Err ''streaming responses were delayed until request FIN'')) (\<lambda>u.
    return (length frames, started, fst (observed ! 0), fst (observed ! 1) \<le> finalSentAt)))))))))))))))))))"

text \<open>
  The 32 concurrent streams: started one after the other and awaited together. The source checks each
  body as it arrives, in the body of an \<open>async\<close> function; here they are checked when all are there.
\<close>

definition parallel_text :: "nat \<Rightarrow> string" where
  "parallel_text i = ''parallel-'' @ show_nat i"

definition start_parallel :: "nat \<Rightarrow> ('v, nat) script" where
  "start_parallel i =
    then_do (wire_value (echo_frame (parallel_text i) True)) (\<lambda>bs. start (Client 0 (Exchange bs False)))"

definition check_parallel :: "nat \<times> settled \<Rightarrow> ('v, unit) script" where
  "check_parallel = (\<lambda>(i, r).
    then_do (value_of (result_frame r)) (\<lambda>f.
    assert_that (body_is f (''echo: '' @ parallel_text i))
      (''parallel stream '' @ show_nat i @ '' received another stream's response'')))"

definition parallel_step :: "('v, nat) script" where
  "parallel_step =
    then_do (each_value start_parallel [0..<32]) (\<lambda>ps.
    then_do (await_all ps) (\<lambda>rs.
    then_do (each check_parallel (enumerate 0 rs)) (\<lambda>u.
    then_do (assert_that (length rs = 32) ''32-stream WSS concurrency did not complete'') (\<lambda>u.
    return (length rs)))))"

definition none_step :: "('v, unit) script" where
  "none_step =
    then_do (exchange_frame 0 (open_text 1 1 0 1 ''discard-this-response'' True) True) (\<lambda>r.
    assert_that (r = VJson JNull) ''response_mode=none did not finish with an empty FIN'')"

definition reset_step :: "('v, unit) script" where
  "reset_step =
    then_do (start (Client 0 (BeginExchange True 8000 False))) (\<lambda>p.
    then_do (stream_send 0 p (echo_frame ''reset-head'' False) False) (\<lambda>u.
    then_do (do_it (StreamReset 0 p 0x101)) (\<lambda>u.
    then_do (expectCanceled p ''RESET input'') (\<lambda>u.
    ping_step ''after-reset''))))"

definition stop_step :: "('v, unit) script" where
  "stop_step =
    then_do (start (Client 0 (BeginExchange True 8000 False))) (\<lambda>p.
    then_do (stream_send 0 p (echo_frame ''stop-head'' False) False) (\<lambda>u.
    then_do (do_it (StreamStop 0 p 0x102)) (\<lambda>u.
    then_do (stream_send 0 p (data_text ''stop-tail'' True) True) (\<lambda>u.
    then_do (expectCanceled p ''STOP response'') (\<lambda>u.
    ping_step ''after-stop'')))))"

definition protocol_report :: "string \<Rightarrow> jsval \<Rightarrow> nat \<times> nat \<times> nat \<times> bool \<Rightarrow> nat \<Rightarrow> jsval" where
  "protocol_report sfx dest = (\<lambda>(frames, started, first, before) n. JObj
    [(''ok'', JBool True), (''username'', JStr (protocol_name sfx)), (''dest_id'', dest),
     (''gateway_control'', JStr ''pong''), (''single_echo'', JStr ''passed''),
     (''streaming_echo'', JObj [(''frames'', JNum (int frames)), (''first_response_ms'', JNum (int first - int started)),
        (''second_response_before_fin'', JBool before)]),
     (''concurrent_streams'', JNum (int n)), (''response_none'', JStr ''empty-fin''),
     (''reset_then_ping'', JStr ''passed''), (''stop_then_ping'', JStr ''passed'')])"

definition protocol_body :: "string \<Rightarrow> string \<Rightarrow> ('v, unit) script" where
  "protocol_body sfx hex =
    then_do (request 0 Connect) (\<lambda>r.
    then_do (ping_step (''wss-ping-'' @ hex)) (\<lambda>u.
    then_do (authenticate 0 (protocol_name sfx) protocol_password ''register'') (\<lambda>session.
    then_do single_step (\<lambda>u.
    then_do streaming_step (\<lambda>streaming.
    then_do parallel_step (\<lambda>n.
    then_do none_step (\<lambda>u.
    then_do reset_step (\<lambda>u.
    then_do stop_step (\<lambda>u.
    then_do (dest_text session) (\<lambda>dest.
    then_do (do_it (Print (protocol_report sfx dest streaming n))) (\<lambda>u.
    return ())))))))))))"

definition protocol_gate :: "string \<Rightarrow> string \<Rightarrow> ('v, unit) script" where
  "protocol_gate sfx hex = try_finally (protocol_body sfx hex) (close_all [0])"

subsection \<open>What a run shows\<close>


definition echo_answered :: "observed list \<Rightarrow> string \<Rightarrow> bool" where
  "echo_answered tr s \<longleftrightarrow> (\<exists>f. exchanged tr 0 (echo_frame s True) f \<and> body_is f (''echo: '' @ s))"


text \<open>
  \<open>n\<close> exchanges under way together: all of them were started, one after the other, before any answer was
  awaited, and one \<open>await\<close> of them all brought each of them the echo of its own text.
\<close>

definition echoed_together :: "observed list \<Rightarrow> nat \<Rightarrow> bool" where
  "echoed_together tr n \<longleftrightarrow> (\<exists>bss ps rs. length bss = n \<and> length ps = n \<and> length rs = n \<and>
     tr = map (\<lambda>(bs, p). (Start (Client 0 (Exchange bs False)), APromise p)) (zip bss ps) @ [(AwaitAll ps, AResults (Inr rs))] \<and>
     (\<forall>i < n. echo_frame (parallel_text i) True = Inr (bss ! i) \<and>
        (\<exists>f. rs ! i = VFrame f \<and> body_is f (''echo: '' @ parallel_text i))))"






lemma fulfilled_simple: "tr = t1 @ [(Start c, APromise p), (Await p, AResult (Inr y))] @ t2 \<Longrightarrow> fulfilled tr c y"
  by (rule fulfilledI [of _ p]) auto







text \<open>Each of them was then answered.\<close>

lemma echoed_together_answered:
  assumes "echoed_together tr n" "i < n"
  shows "echo_answered tr (parallel_text i)"
proof -
  from assms(1) obtain bss ps rs where e: "length bss = n" "length ps = n" "length rs = n"
    "tr = map (\<lambda>(bs, p). (Start (Client 0 (Exchange bs False)), APromise p)) (zip bss ps) @ [(AwaitAll ps, AResults (Inr rs))]"
    "\<forall>i < n. echo_frame (parallel_text i) True = Inr (bss ! i) \<and>
        (\<exists>f. rs ! i = VFrame f \<and> body_is f (''echo: '' @ parallel_text i))" unfolding echoed_together_def by blast
  have "(bss ! i, ps ! i) \<in> set (zip bss ps)" using assms(2) e(1,2) by (auto simp: set_zip)
  then have s: "(Start (Client 0 (Exchange (bss ! i) False)), APromise (ps ! i)) \<in> set tr" using e(4) by force
  have "fulfilled tr (Client 0 (Exchange (bss ! i) False)) (rs ! i)"
    by (rule fulfilled_allI [OF s, of ps rs i]) (use e assms(2) in auto)
  then show ?thesis using e(5) assms(2) unfolding echo_answered_def exchanged_def by metis
qed




subsection \<open>The gate\<close>



lemma quiet_protocol_parts [quiet_intros]:
  "quiet (assertPong r s)" "quiet (expectCanceled p label)" "quiet single_step" "quiet streaming_step" "quiet none_step"
  "quiet (start_parallel i)" "quiet (check_parallel q)"
  unfolding assertPong_def expectCanceled_def single_step_def streaming_step_def none_step_def start_parallel_def
    check_parallel_def
  by (intro quiet_intros)+

lemma quiet_protocol_steps [quiet_intros]:
  "quiet (ping_step s)" "quiet parallel_step" "quiet reset_step" "quiet stop_step"
  unfolding ping_step_def parallel_step_def reset_step_def stop_step_def
  by (intro quiet_intros)+

interpretation protocol: gate "protocol_body sfx hex" "close_all [0]" "\<lambda>v. [0]" for sfx hex
  by (rule gate_close_all) (unfold protocol_body_def, intro report_intros quiet_intros)

theorem protocol_gate_ends: "ends (protocol_gate sfx hex)"
  unfolding protocol_gate_def protocol_body_def assertPong_def expectCanceled_def single_step_def streaming_step_def
    none_step_def start_parallel_def check_parallel_def ping_step_def parallel_step_def reset_step_def stop_step_def
  by (intro ends_intros)

subsection \<open>Which rejections are cancellations\<close>

text \<open>
  The messages the Node client rejects an exchange with: only that of a RESET or STOP passes
  \<open>expectCanceled\<close>.
\<close>

definition reject_error :: "nat \<Rightarrow> smoke_reject \<Rightarrow> script_error" where
  "reject_error sid r = Err (case r of
      TimedOut \<Rightarrow> ''stream '' @ show_nat sid @ '' timeout''
    | CanceledByGateway \<Rightarrow> ''stream '' @ show_nat sid @ '' canceled by Gateway''
    | UnexpectedBytes \<Rightarrow> ''response_mode=none returned application bytes''
    | WssClosed \<Rightarrow> ''WSS closed''
    | ClosedBeforeUpgrade \<Rightarrow> ''WSS closed before Upgrade'')"

lemma index_of_char: "c \<in> set pat \<Longrightarrow> c \<notin> set xs \<Longrightarrow> index_of pat xs = None"
proof (induction xs)
  case (Cons x xs)
  then have "take (length pat) (x # xs) \<noteq> pat" by (metis in_set_takeD)
  then show ?case using Cons by auto
qed auto

lemma index_of_append: "index_of pat xs \<noteq> None \<Longrightarrow> index_of pat (ys @ xs) \<noteq> None"
  by (induction ys) auto

lemma canceled_iff:
  "index_of canceled_text (error_text (reject_error sid r)) \<noteq> None \<longleftrightarrow> r = CanceledByGateway"
proof -
  have G: "CHR ''G'' \<in> set canceled_text"
    by (simp add: canceled_text_def)
  have dig: "CHR ''G'' \<notin> set (show_nat sid)" using show_nat_digits [of "CHR ''G''" sid] by auto
  show ?thesis
  proof (cases r)
    case TimedOut
    then show ?thesis using index_of_char [OF G(1)] dig by (simp add: reject_error_def del: index_of.simps)
  next
    case CanceledByGateway
    have "index_of canceled_text '' canceled by Gateway'' \<noteq> None" by (simp add: canceled_text_def)
    then have "index_of canceled_text (''Error: stream '' @ show_nat sid @ '' canceled by Gateway'') \<noteq> None"
      by (intro index_of_append)
    then show ?thesis using CanceledByGateway by (simp add: reject_error_def del: index_of.simps)
  next
    case UnexpectedBytes
    then show ?thesis using index_of_char [OF G(1)] by (simp add: reject_error_def del: index_of.simps)
  next
    case WssClosed
    then show ?thesis using index_of_char [OF G(1)] by (simp add: reject_error_def del: index_of.simps)
  next
    case ClosedBeforeUpgrade
    then show ?thesis using index_of_char [OF G(1)] by (simp add: reject_error_def del: index_of.simps)
  qed
qed

end
