(* ===== verification/Gate_Long.thy ===== *)
theory Gate_Long
  imports Script_Streams
begin

section \<open>The long-stream gate (\<open>validation/wss-long-stream.mjs\<close>)\<close>

text \<open>
  One stream is kept active for more than 120 seconds while its silent sibling times out, and late data
  on the sibling must hurt neither the active stream nor the connection. The client is number 0;
  \<open>txt\<close> is \<open>Buffer.toString\<close>, which only the report uses.
\<close>

definition long_password :: string where "long_password = ''Wss-long-valid-password-2026''"
definition long_name :: "string \<Rightarrow> string" where "long_name sfx = ''wss_long_'' @ sfx"

text \<open>\<open>const d = ms - (Date.now() - started); if (d > 0) await sleep(d)\<close>.\<close>

definition wait_until :: "nat \<Rightarrow> nat \<Rightarrow> ('v, unit) script" where
  "wait_until started ms = then_do now (\<lambda>t.
     let d = int ms - (int t - int started) in
     if 0 < d then do_it (Sleep (nat d)) else return ())"

text \<open>
  What became of the silent stream: the time since the start, and the frames or the error. A promise
  of another kind cannot come from \<open>Outcome\<close>.
\<close>

definition silent_result :: "nat \<Rightarrow> settled \<Rightarrow> ('v, int \<times> (script_error + js_frame list)) script" where
  "silent_result started r = (case r of
      VOutcome t (Inr bs) \<Rightarrow>
        then_do (wire_value (smoke_decodeFrames bs)) (\<lambda>fs. return (int t - int started, Inr fs))
    | VOutcome t (Inl e) \<Rightarrow> return (int t - int started, Inl e)
    | _ \<Rightarrow> throw TypeErr)"

definition silent_json :: "(bytes \<Rightarrow> string) \<Rightarrow> int \<Rightarrow> script_error + js_frame list \<Rightarrow> jsval" where
  "silent_json txt at res = JObj
    [(''kind'', JStr (case res of Inl e \<Rightarrow> ''canceled'' | Inr fs \<Rightarrow> ''response'')), (''ended_ms'', JNum at),
     (''detail'', case res of Inl e \<Rightarrow> JStr (error_text e) | Inr fs \<Rightarrow> JArr (map (\<lambda>f. JStr (txt (jf_body f))) fs))]"

definition long_report ::
  "(bytes \<Rightarrow> string) \<Rightarrow> string \<Rightarrow> jsval \<Rightarrow> int \<Rightarrow> (nat \<times> bytes) list \<Rightarrow> nat \<Rightarrow> nat \<Rightarrow> int \<Rightarrow> script_error + js_frame list \<Rightarrow> jsval" where
  "long_report txt sfx dest duration chunks started frames at res = JObj
    [(''ok'', JBool True), (''username'', JStr (long_name sfx)), (''dest_id'', dest), (''duration_ms'', JNum duration),
     (''active_response_ms'', JArr (map (\<lambda>(t, bs). JNum (int t - int started)) chunks)),
     (''active_frames'', JNum (int frames)), (''silent_sibling'', silent_json txt at res),
     (''late_data'', JStr ''isolated''), (''post_timeout_ping'', JStr ''passed'')]"

definition expected_bodies :: "bytes list" where
  "expected_bodies = map ascii [''echo: active-0'', ''echo: active-30'', ''echo: active-60'',
     ''echo: active-90'', ''echo: active-120'']"

text \<open>The two streams up to the timeout of the silent one.\<close>

definition long_first :: "(bytes \<Rightarrow> string) \<Rightarrow> ('v, nat \<times> nat \<times> nat \<times> int \<times> (script_error + js_frame list)) script" where
  "long_first txt =
    then_do now (\<lambda>started.
    then_do (start (Client 0 (BeginExchange True 145000 True))) (\<lambda>active.
    then_do (stream_send 0 active (open_text 1 1 0 0 ''active-0'' False) False) (\<lambda>u.
    then_do (start (Client 0 (BeginExchange True 90000 False))) (\<lambda>silent.
    then_do (start (Outcome silent)) (\<lambda>silentOutcome.
    then_do (stream_send 0 silent (open_text 1 1 0 0 ''silent-head'' False) False) (\<lambda>u.
    then_do (do_it (Sleep 30000)) (\<lambda>u.
    then_do (stream_send 0 active (data_text ''active-30'' False) False) (\<lambda>u.
    then_do (do_it (Sleep 30000)) (\<lambda>u.
    then_do (stream_send 0 active (data_text ''active-60'' False) False) (\<lambda>u.
    then_do (await silentOutcome) (\<lambda>r.
    then_do (silent_result started r) (\<lambda>(at, res).
    then_do (throw_if (Some (at < 55000 \<or> 80000 < at))
              (ErrJson ''silent sibling ended outside its timeout window: '' (silent_json txt at res))) (\<lambda>u.
    return (started, active, silent, at, res))))))))))))))"

text \<open>From the late data to the end of the active stream.\<close>

definition send_at :: "nat \<Rightarrow> nat \<Rightarrow> nat \<Rightarrow> smoke_error + bytes \<Rightarrow> bool \<Rightarrow> ('v, unit) script" where
  "send_at started ms p fr fin = then_do (wait_until started ms) (\<lambda>u. stream_send 0 p fr fin)"

definition long_second :: "(bytes \<Rightarrow> string) \<Rightarrow> nat \<Rightarrow> nat \<Rightarrow> nat \<Rightarrow> ('v, js_frame list) script" where
  "long_second txt started active silent =
    then_do (send_at started 75000 silent (data_text ''late-after-timeout'' True) True) (\<lambda>u.
    then_do (send_at started 90000 active (data_text ''active-90'' False) False) (\<lambda>u.
    then_do (send_at started 120000 active (data_text ''active-120'' True) True) (\<lambda>u.
    then_do (await active) (\<lambda>r.
    then_do (wire_value (smoke_decodeFrames (bytes_of r))) (\<lambda>frames.
    then_do (throw_if (Some (map jf_body frames \<noteq> expected_bodies)) 
      (ErrJson ''active long stream changed: '' (JArr (map (\<lambda>f. JStr (txt (jf_body f))) frames)))) (\<lambda>u.
    return frames))))))"

definition long_ping :: "('v, unit) script" where
  "long_ping =
    then_do (exchange_frame 0 (open_text 0 0 0x02 0 ''after-long-stream'' True) False) (\<lambda>r.
    then_do (value_of (result_frame r)) (\<lambda>f.
    throw_if (Some (jf_route f \<noteq> 0x03 \<or> \<not> body_is f ''after-long-stream''))
      (Err ''WSS connection did not survive the long-stream sibling timeout'')))"

definition long_body :: "(bytes \<Rightarrow> string) \<Rightarrow> string \<Rightarrow> ('v, unit) script" where
  "long_body txt sfx =
    then_do (request 0 Connect) (\<lambda>r.
    then_do (authenticate 0 (long_name sfx) long_password ''register'') (\<lambda>session.
    then_do (long_first txt) (\<lambda>(started, active, silent, at, res).
    then_do (long_second txt started active silent) (\<lambda>frames.
    then_do long_ping (\<lambda>u.
    then_do (dest_text session) (\<lambda>dest.
    then_do now (\<lambda>t.
    then_do (chunks_of active) (\<lambda>chunks.
    then_do (do_it (Print (long_report txt sfx dest (int t - int started) chunks started (length frames) at res))) (\<lambda>u.
    return ())))))))))"

definition long_gate :: "(bytes \<Rightarrow> string) \<Rightarrow> string \<Rightarrow> ('v, unit) script" where
  "long_gate txt sfx = try_finally (long_body txt sfx) (close_all [0])"

subsection \<open>What a run shows\<close>

text \<open>Waiting until a time takes at least until one millisecond before it.\<close>

lemma runs_send_atE:
  assumes "runs (then_do (send_at started ms p fr fin) f) v tr x w"
  obtains t1 bs t2 where "tr = t1 @ (StreamSend 0 p bs fin, ADone) # t2" "fr = Inr bs" "runs (f ()) v t2 x w"
    "\<And>t. clock_ok t t1 \<Longrightarrow> started \<le> t \<Longrightarrow> started + ms \<le> clock_end t t1 + 1 \<and> started \<le> clock_end t t1"
proof -
  obtain n tr' where tr: "tr = (Now, ATime n) # tr'"
    and c: "runs (then_do (if 0 < int ms - (int n - int started) then do_it (Sleep (nat (int ms - (int n - int started))))
        else return ()) (\<lambda>u. then_do (stream_send 0 p fr fin) f)) v tr' x w"
    using assms unfolding send_at_def wait_until_def Let_def then_do_assoc by (auto simp: run_simps)
  show ?thesis
  proof (cases "0 < int ms - (int n - int started)")
    case True
    let ?z = "(Sleep (nat (int ms - (int n - int started))), ADone)"
    obtain bs t2 where "tr' = ?z # (StreamSend 0 p bs fin, ADone) # t2" "fr = Inr bs" "runs (f ()) v t2 x w"
      using c True by (auto simp: run_simps)
    then show ?thesis using that [of "[(Now, ATime n), ?z]" bs t2] tr True by auto
  next
    case False
    obtain bs t2 where "tr' = (StreamSend 0 p bs fin, ADone) # t2" "fr = Inr bs" "runs (f ()) v t2 x w"
      using c False by (auto simp: run_simps)
    then show ?thesis using that [of "[(Now, ATime n)]" bs t2] tr False by auto
  qed
qed

lemma tick_send [simp]: "tick t (StreamSend c p bs fin, a) = t"
  by (simp add: tick_def)

text \<open>The silent stream was settled in its time window.\<close>

definition silent_in_window :: "observed list \<Rightarrow> nat \<Rightarrow> nat \<Rightarrow> bool" where
  "silent_in_window tr started silent \<longleftrightarrow> (\<exists>t r. fulfilled tr (Outcome silent) (VOutcome t r) \<and>
     started + 55000 \<le> t \<and> t \<le> started + 80000)"

lemma runs_silent_result:
  "runs (silent_result started r) v tr (at, res) w \<Longrightarrow> \<exists>t q. r = VOutcome t q \<and> at = int t - int started \<and> tr = [] \<and> w = v"
  by (cases r) (auto simp: silent_result_def run_simps split: sum.splits if_splits)

lemma runs_long_first:
  assumes "runs (long_first txt) v tr (started, active, silent, at, res) w"
  shows "\<exists>tr'. tr = (Now, ATime started) # tr' \<and>
    (Start (Client 0 (BeginExchange True 145000 True)), APromise active) \<in> set tr' \<and> silent_in_window tr' started silent"
proof -
  have "\<exists>b1 b2 b3 b4 so r.
    tr = (Now, ATime started) # [(Start (Client 0 (BeginExchange True 145000 True)), APromise active),
      (StreamSend 0 active b1 False, ADone), (Start (Client 0 (BeginExchange True 90000 False)), APromise silent),
      (Start (Outcome silent), APromise so), (StreamSend 0 silent b2 False, ADone), (Sleep 30000, ADone),
      (StreamSend 0 active b3 False, ADone), (Sleep 30000, ADone), (StreamSend 0 active b4 False, ADone),
      (Await so, AResult (Inr r))] \<and> (\<exists>v1. runs (silent_result started r) v [] (at, res) v1) \<and> 55000 \<le> at \<and> at \<le> 80000"
    using assms unfolding long_first_def
    by (clarsimp simp: run_simps runs_then_do [where m = "silent_result a b" for a b] split: if_splits)
      (frule runs_silent_result, auto)
  then obtain b1 b2 b3 b4 so r v1 where
    tr: "tr = (Now, ATime started) # [(Start (Client 0 (BeginExchange True 145000 True)), APromise active),
      (StreamSend 0 active b1 False, ADone), (Start (Client 0 (BeginExchange True 90000 False)), APromise silent),
      (Start (Outcome silent), APromise so), (StreamSend 0 silent b2 False, ADone), (Sleep 30000, ADone),
      (StreamSend 0 active b3 False, ADone), (Sleep 30000, ADone), (StreamSend 0 active b4 False, ADone),
      (Await so, AResult (Inr r))]" (is "tr = _ # ?tr'")
    and r: "runs (silent_result started r) v [] (at, res) v1" and at: "55000 \<le> at" "at \<le> 80000" by (elim exE conjE)
  from runs_silent_result [OF r] obtain t res' where t: "r = VOutcome t res'" "at = int t - int started" by blast
  have "fulfilled ?tr' (Outcome silent) (VOutcome t res')" unfolding t(1) by (rule fulfilledI list.set_intros)+
  then have "silent_in_window ?tr' started silent" unfolding silent_in_window_def using at t(2) by fastforce
  then show ?thesis using tr by simp
qed

lemma runs_long_second:
  assumes "runs (long_second txt started active silent) v tr frames w"
  shows "\<exists>t1 t2 late lst r. tr = t1 @ (StreamSend 0 silent late True, ADone) # t2 @ [(StreamSend 0 active lst True, ADone),
      (Await active, AResult (Inr r))] \<and>
    data_text ''late-after-timeout'' True = Inr late \<and> data_text ''active-120'' True = Inr lst \<and>
    smoke_decodeFrames (bytes_of r) = Inr frames \<and> map jf_body frames = expected_bodies \<and>
    (\<forall>t. clock_ok t tr \<longrightarrow> started \<le> t \<longrightarrow> started + 75000 \<le> clock_end t t1 + 1 \<and>
       started + 120000 \<le> clock_end (clock_end t t1) t2 + 1)"
  using assms unfolding long_second_def
proof (elim runs_send_atE)
  fix t1 b1 t2 t3 b3 t4 t5 b5 t6
  assume tr: "tr = t1 @ (StreamSend 0 silent b1 True, ADone) # t2"
      "t2 = t3 @ (StreamSend 0 active b3 False, ADone) # t4" "t4 = t5 @ (StreamSend 0 active b5 True, ADone) # t6"
    and b: "data_text ''late-after-timeout'' True = Inr b1" "data_text ''active-120'' True = Inr b5"
    and c: "\<And>t. clock_ok t t1 \<Longrightarrow> started \<le> t \<Longrightarrow> started + 75000 \<le> clock_end t t1 + 1 \<and> started \<le> clock_end t t1"
      "\<And>t. clock_ok t t3 \<Longrightarrow> started \<le> t \<Longrightarrow> started + 90000 \<le> clock_end t t3 + 1 \<and> started \<le> clock_end t t3"
      "\<And>t. clock_ok t t5 \<Longrightarrow> started \<le> t \<Longrightarrow> started + 120000 \<le> clock_end t t5 + 1 \<and> started \<le> clock_end t t5"
    and r: "runs (then_do (await active) (\<lambda>r.
    then_do (wire_value (smoke_decodeFrames (bytes_of r))) (\<lambda>frames.
    then_do (throw_if (Some (map jf_body frames \<noteq> expected_bodies)) 
      (ErrJson ''active long stream changed: '' (JArr (map (\<lambda>f. JStr (txt (jf_body f))) frames)))) (\<lambda>u.
    return frames)))) v t6 frames w"
  from r obtain y where y: "t6 = [(Await active, AResult (Inr y))]" "smoke_decodeFrames (bytes_of y) = Inr frames"
    "map jf_body frames = expected_bodies" by (auto simp: run_simps split: if_splits)
  show ?thesis
  proof (intro exI conjI allI impI)
    show "tr = t1 @ (StreamSend 0 silent b1 True, ADone) # (t3 @ (StreamSend 0 active b3 False, ADone) # t5)
        @ [(StreamSend 0 active b5 True, ADone), (Await active, AResult (Inr y))]" using tr y by simp
    fix t assume ok: "clock_ok t tr" "started \<le> t"
    then have 1: "started + 75000 \<le> clock_end t t1 + 1" "started \<le> clock_end t t1" using c(1) tr(1) by auto
    then show "started + 75000 \<le> clock_end t t1 + 1" by simp
    have 2: "started \<le> clock_end (clock_end t t1) t3" using c(2) 1(2) ok tr by auto
    then show "started + 120000 \<le> clock_end (clock_end t t1) (t3 @ (StreamSend 0 active b3 False, ADone) # t5) + 1"
      using c(3) ok tr by auto
  qed (use b y in auto)
qed

lemma runs_long_ping:
  assumes "runs long_ping v tr u w"
  shows "\<exists>f. exchanged tr 0 (open_text 0 0 0x02 0 ''after-long-stream'' True) f \<and> jf_route f = 0x03 \<and> body_is f ''after-long-stream''"
proof -
  obtain bs p f where "open_text 0 0 0x02 0 ''after-long-stream'' True = Inr bs" "jf_route f = 0x03" "body_is f ''after-long-stream''"
    and tr: "tr = [(Start (Client 0 (Exchange bs False)), APromise p), (Await p, AResult (Inr (VFrame f)))]"
    using assms unfolding long_ping_def by (auto simp: run_simps)
  moreover have "fulfilled tr (Client 0 (Exchange bs False)) (VFrame f)"
    unfolding tr by (rule fulfilledI list.set_intros)+
  ultimately show ?thesis unfolding exchanged_def by blast
qed

subsection \<open>The gate\<close>

lemmas runs_long_parts = runs_then_do [where m = "long_first f" for f]
  runs_then_do [where m = "long_second x a b c" for x a b c] runs_then_do [where m = long_ping]

text \<open>What a successful run of the long-stream gate has shown: the silent stream was settled between 55 and 80
  seconds after the start; late data was sent on it after 75 seconds; the active stream, ended after 120
  seconds, was answered with all its echoes; and a ping was answered afterwards.\<close>

theorem long_gate_sound:
  assumes "runs (long_gate txt sfx) v tr x w" "clock_ok t0 tr"
  shows "\<exists>started active silent late lst y frames f t1 t2 t3 t4 t5.
    tr = t1 @ [(Now, ATime started)] @ t2 @ [(StreamSend 0 silent late True, ADone)] @ t3 @
      [(StreamSend 0 active lst True, ADone), (Await active, AResult (Inr y))] @ t4 @ t5 \<and>
    (Start (Client 0 (BeginExchange True 145000 True)), APromise active) \<in> set t2 \<and> silent_in_window t2 started silent \<and>
    data_text ''late-after-timeout'' True = Inr late \<and> started + 75000 \<le> clock_end started t2 + 1 \<and>
    data_text ''active-120'' True = Inr lst \<and> started + 120000 \<le> clock_end (clock_end started t2) t3 + 1 \<and>
    smoke_decodeFrames (bytes_of y) = Inr frames \<and> map jf_body frames = expected_bodies \<and>
    exchanged t4 0 (open_text 0 0 0x02 0 ''after-long-stream'' True) f \<and> jf_route f = 0x03 \<and> body_is f ''after-long-stream''"
proof -
  obtain tb vb where tr: "tr = tb @ [(Close 0, ADone)]" and body: "runs (long_body txt sfx) v tb () vb"
    using assms unfolding long_gate_def runs_try_finally play_close_all by auto
  from body obtain ta started active silent at res tf vf ts frames vs tp vp tz where
    split: "tb = ta @ tf @ ts @ tp @ tz"
    and parts: "runs (long_first txt) v tf (started, active, silent, at, res) vf"
      "runs (long_second txt started active silent) vf ts frames vs" "runs long_ping vs tp () vp"
  proof -
    from body obtain p r p' r' started active silent at res tf vf ts frames vs tp vp tz where
      "tb = [(Start (Client 0 Connect), APromise p), (Await p, AResult (Inr r)),
        (Start (Client 0 (Authenticate (long_name sfx) long_password ''register'')), APromise p'),
        (Await p', AResult (Inr r'))] @ tf @ ts @ tp @ tz"
      "runs (long_first txt) v tf (started, active, silent, at, res) vf"
      "runs (long_second txt started active silent) vf ts frames vs" "runs long_ping vs tp () vp"
      unfolding long_body_def by (clarsimp simp: run_simps runs_long_parts split: if_splits)
    then show ?thesis by (rule that)
  qed
  from runs_long_first [OF parts(1)] obtain tf' where f: "tf = (Now, ATime started) # tf'"
    "(Start (Client 0 (BeginExchange True 145000 True)), APromise active) \<in> set tf'" "silent_in_window tf' started silent"
    by blast
  from runs_long_second [OF parts(2)] obtain t1 t2 late lst r where
    s: "ts = t1 @ (StreamSend 0 silent late True, ADone) # t2 @ [(StreamSend 0 active lst True, ADone), (Await active, AResult (Inr r))]"
      "data_text ''late-after-timeout'' True = Inr late" "data_text ''active-120'' True = Inr lst"
      "smoke_decodeFrames (bytes_of r) = Inr frames" "map jf_body frames = expected_bodies"
    and c: "\<And>t. clock_ok t ts \<Longrightarrow> started \<le> t \<Longrightarrow> started + 75000 \<le> clock_end t t1 + 1 \<and>
       started + 120000 \<le> clock_end (clock_end t t1) t2 + 1" by blast
  from runs_long_ping [OF parts(3)] obtain g where
    g: "exchanged tp 0 (open_text 0 0 0x02 0 ''after-long-stream'' True) g" "jf_route g = 0x03" "body_is g ''after-long-stream''"
    by blast
  have "clock_ok started tf'" "clock_ok (clock_end started tf') ts"
    using assms(2) tr split f(1) by auto
  moreover from this(1) have "started \<le> clock_end started tf'" by (rule clock_grows)
  ultimately have c': "started + 75000 \<le> clock_end (clock_end started tf') t1 + 1"
    "started + 120000 \<le> clock_end (clock_end (clock_end started tf') t1) t2 + 1" using c by blast+
  have w: "silent_in_window (tf' @ t1) started silent"
    using f(3) fulfilled_append unfolding silent_in_window_def by blast
  show ?thesis
  proof (intro exI conjI)
    show "tr = ta @ [(Now, ATime started)] @ (tf' @ t1) @ [(StreamSend 0 silent late True, ADone)] @ t2 @
      [(StreamSend 0 active lst True, ADone), (Await active, AResult (Inr r))] @ tp @ (tz @ [(Close 0, ADone)])"
      using tr split f(1) s(1) by simp
  qed (use f(2) w s c' g in auto)
qed

lemma quiet_silent_result [quiet_intros]: "quiet (silent_result started r)"
  by (cases r) (auto simp: silent_result_def split: sum.split intro!: quiet_intros)

lemma quiet_long_parts [quiet_intros]: "quiet (wait_until started ms)" "quiet long_ping"
  unfolding wait_until_def long_ping_def by (intro quiet_intros)+

lemma quiet_long_steps [quiet_intros]: "quiet (send_at started ms p fr fin)" "quiet (long_first txt)"
  "quiet (long_second txt started active silent)"
  unfolding send_at_def long_first_def long_second_def by (intro quiet_intros)+

interpretation long_stream: gate "long_body dec sfx" "close_all [0]" "\<lambda>v. [0]" for dec sfx
  by (rule gate_close_all) (unfold long_body_def, intro report_intros quiet_intros)

lemma ends_silent_result [ends_intros]: "ends (silent_result started r)"
  by (cases r) (auto simp: silent_result_def split: sum.split intro!: ends_intros)

theorem long_gate_ends: "ends (long_gate txt sfx)"
  unfolding long_gate_def long_body_def long_first_def long_second_def long_ping_def send_at_def wait_until_def
  by (intro ends_intros)

end
