(* ===== verification/Gate_Small.thy ===== *)
theory Gate_Small
  imports Script_Streams
begin

section \<open>The capacity gate and the smoke test (\<open>validation/wss-capacity.mjs\<close>, \<open>wss-smoke.mjs\<close>)\<close>

text \<open>
  The capacity gate holds 64 connections and wants the 65th rejected. The smoke test connects,
  authenticates and lists the groups of the user named on its command line.
\<close>

subsection \<open>Capacity\<close>

definition capacity :: nat where "capacity = 64"

definition capacity_clients :: "nat list" where "capacity_clients = [0..<capacity]"
definition overflow_client :: nat where "overflow_client = capacity"

definition capacity_report :: jsval where
  "capacity_report = JObj [(''ok'', JBool True), (''admitted'', JNum (int capacity)), (''rejected'', JNum 1),
     (''limit'', JStr ''max_connections_per_worker'')]"

definition capacity_body :: "('v, unit) script" where
  "capacity_body =
    then_do (each_value (\<lambda>c. start (Client c Connect)) capacity_clients) (\<lambda>ps.
    then_do (await_all ps) (\<lambda>rs.
    then_do (catch (then_do (request overflow_client Connect) (\<lambda>r. return False)) (\<lambda>e. return True)) (\<lambda>rejected.
    then_do (throw_if (Some (\<not> rejected)) (Err (''WSS connection '' @ show_nat (capacity + 1) @ '' was not rejected''))) (\<lambda>u.
    then_do (do_it (Print capacity_report)) (\<lambda>u.
    return ())))))"

definition capacity_gate :: "('v, unit) script" where
  "capacity_gate = try_finally capacity_body (close_all (overflow_client # capacity_clients))"

lemma play_rejected:
  "runs (then_do (catch (then_do (request c Connect) (\<lambda>r. return False)) (\<lambda>e. return True)) f) v tr x w \<longleftrightarrow>
   (\<exists>p r tr'. tr = (Start (Client c Connect), APromise p) # (Await p, AResult r) # tr' \<and>
      runs (f (isl r)) v tr' x w)"
proof -
  have one: "then_do (catch (then_do (settled_script r) (\<lambda>r. return False)) (\<lambda>e. return True)) f =
      f (isl r)" for r :: "script_error + settled"
    by (cases r) simp_all
  show ?thesis
    unfolding request_def start_def await_def one_result_def
    by (cases tr rule: list.exhaust [case_product list.exhaust [of "tl tr"]])
      (auto simp: one split: if_splits answer.splits list.splits)
qed

theorem capacity_gate_sound:
  assumes "runs capacity_gate v tr x w"
  shows "(\<forall>c < capacity. \<exists>y. fulfilled tr (Client c Connect) y) \<and>
    (\<exists>p e. (Start (Client capacity Connect), APromise p) \<in> set tr \<and> (Await p, AResult (Inl e)) \<in> set tr)"
proof -
  obtain tb where tr: "tr = tb @ map (\<lambda>c. (Close c, ADone)) (overflow_client # capacity_clients)"
    and body: "runs capacity_body v tb () w"
    using assms unfolding capacity_gate_def runs_try_finally play_close_all by auto
  from body obtain t1 t2 rs where split: "tb = t1 @ t2"
    and ok: "\<And>k. k < length capacity_clients \<Longrightarrow> fulfilled t1 (Client (capacity_clients ! k) Connect) (rs ! k)"
    and rest: "runs (then_do (catch (then_do (request overflow_client Connect) (\<lambda>r. return False)) (\<lambda>e. return True)) (\<lambda>rejected.
    then_do (throw_if (Some (\<not> rejected)) (Err (''WSS connection '' @ show_nat (capacity + 1) @ '' was not rejected''))) (\<lambda>u.
    then_do (do_it (Print capacity_report)) (\<lambda>u.
    return ())))) v t2 () w"
    unfolding capacity_body_def by (rule runs_start_allE) blast
  from rest obtain p e tr' where
    t: "t2 = (Start (Client overflow_client Connect), APromise p) # (Await p, AResult (Inl e)) # tr'"
    by (auto simp: run_simps play_rejected simp del: then_do_request simp: isl_def)
  have "\<exists>y. fulfilled tr (Client c Connect) y" if c: "c < capacity" for c
    using ok [of c] c fulfilled_mono [of t1 _ _ tr] split tr by (auto simp: capacity_clients_def)
  moreover have "(Start (Client capacity Connect), APromise p) \<in> set tr" "(Await p, AResult (Inl e)) \<in> set tr"
    using t tr split by (auto simp: overflow_client_def)
  ultimately show ?thesis by blast
qed

interpretation capacity: gate capacity_body "close_all (overflow_client # capacity_clients)"
  "\<lambda>v. overflow_client # capacity_clients"
  by (rule gate_close_all) (unfold capacity_body_def, intro report_intros quiet_intros)

theorem capacity_gate_ends: "ends capacity_gate"
  unfolding capacity_gate_def capacity_body_def by (intro ends_intros)

subsection \<open>Smoke\<close>

definition smoke_usage :: string where
  "smoke_usage = ''usage: node validation/wss-smoke.mjs <username> <password>''"

text \<open>\<open>result.groups.length\<close>.\<close>

definition js_length :: "jsval \<Rightarrow> jsval option" where
  "js_length v = (case v of
      JArr xs \<Rightarrow> Some (JNum (int (length xs)))
    | JStr s \<Rightarrow> Some (JNum (int (length s)))
    | _ \<Rightarrow> js_get v ''length'')"

definition smoke_body :: "string \<Rightarrow> string \<Rightarrow> ('v, unit) script" where
  "smoke_body user pw =
    then_do (request 0 Connect) (\<lambda>r.
    then_do (authenticate 0 user pw ''login'') (\<lambda>session.
    then_do (command 0 session [(''type'', JStr ''list_groups'')]) (\<lambda>result.
    then_do (dest_text session) (\<lambda>dest.
    then_do (field session ''ttl'') (\<lambda>ttl.
    then_do (field result ''groups'') (\<lambda>groups.
    then_do (value_of (js_length groups)) (\<lambda>n.
    then_do (do_it (Print (JObj [(''ok'', JBool True), (''transport'', JStr ''wss''), (''username'', JStr user),
        (''dest_id'', dest), (''ttl'', ttl), (''groups'', n)]))) (\<lambda>u.
    return ()))))))))"

definition smoke_main :: "string list \<Rightarrow> ('v, unit) script" where
  "smoke_main argv =
    (let user = if 2 < length argv then argv ! 2 else []; pw = if 3 < length argv then argv ! 3 else [] in
     if user = [] \<or> pw = [] then then_do (do_it (Complain smoke_usage 2)) (\<lambda>u. return ())
     else try_finally (smoke_body user pw) (close_all [0]))"

interpretation smoke: gate "smoke_body user pw" "close_all [0]" "\<lambda>v. [0]" for user pw
  by (rule gate_close_all) (unfold smoke_body_def, intro report_intros quiet_intros)

theorem smoke_main_ends: "ends (smoke_main argv)"
  unfolding smoke_main_def smoke_body_def by (intro ends_intros)

end
