(* ===== verification/Lyune_Frame.thy ===== *)
theory Lyune_Frame
  imports Wire_Interfaces
begin

section \<open>Frame headers (\<open>src/protocol/frame.zig\<close>)\<close>

text \<open>
  The header of every Lyune frame: an 8-byte OPEN header that names the destination, a 4-byte DATA
  header, and a DATAGRAM type that must not appear on a stream. The \<open>u8\<close> and \<open>u16\<close> fields are words
  of their width; a Zig error set is the datatype \<open>frame_error\<close>; \<open>try\<close> is the \<open>Inl\<close> branch.
\<close>

definition OPEN_HEADER_SIZE :: nat where "OPEN_HEADER_SIZE = 8"
definition DATA_HEADER_SIZE :: nat where "DATA_HEADER_SIZE = 4"
definition DATAGRAM_HEADER_SIZE :: nat where "DATAGRAM_HEADER_SIZE = 2"
definition MAX_BODY_SIZE :: nat where "MAX_BODY_SIZE = 65535"
definition MAX_FRAME_SIZE :: nat where "MAX_FRAME_SIZE = OPEN_HEADER_SIZE + MAX_BODY_SIZE"

lemmas frame_sizes = OPEN_HEADER_SIZE_def DATA_HEADER_SIZE_def DATAGRAM_HEADER_SIZE_def
  MAX_BODY_SIZE_def MAX_FRAME_SIZE_def

datatype frame_error =
    BufferTooSmall | UnknownFrameType | UnknownDestKind | UnknownResponseMode | ReservedBitsSet
  | DatagramOnStream | InvalidChannel | BodyTooLarge | FrameTooLarge | FrameLengthMismatch

subsection \<open>Enumerations with whitelist decoding\<close>

datatype frame_type = FtOpen | FtData | FtDatagram

fun frame_type_code :: "frame_type \<Rightarrow> byte" where
  "frame_type_code FtOpen = 0x00"
| "frame_type_code FtData = 0x01"
| "frame_type_code FtDatagram = 0x02"

fun frame_type_headerSize :: "frame_type \<Rightarrow> nat" where
  "frame_type_headerSize FtOpen = OPEN_HEADER_SIZE"
| "frame_type_headerSize FtData = DATA_HEADER_SIZE"
| "frame_type_headerSize FtDatagram = DATAGRAM_HEADER_SIZE"

definition frame_type_decode :: "byte \<Rightarrow> frame_error + frame_type" where
  "frame_type_decode b =
    (if b = frame_type_code FtOpen then Inr FtOpen
     else if b = frame_type_code FtData then Inr FtData
     else if b = frame_type_code FtDatagram then Inr FtDatagram
     else Inl UnknownFrameType)"

datatype dest_kind = DkGateway | DkService | DkPeer | DkMulticast

fun dest_kind_code :: "dest_kind \<Rightarrow> byte" where
  "dest_kind_code DkGateway = 0x00"
| "dest_kind_code DkService = 0x01"
| "dest_kind_code DkPeer = 0x02"
| "dest_kind_code DkMulticast = 0x03"

definition dest_kind_decode :: "byte \<Rightarrow> frame_error + dest_kind" where
  "dest_kind_decode b =
    (if b = dest_kind_code DkGateway then Inr DkGateway
     else if b = dest_kind_code DkService then Inr DkService
     else if b = dest_kind_code DkPeer then Inr DkPeer
     else if b = dest_kind_code DkMulticast then Inr DkMulticast
     else Inl UnknownDestKind)"

definition hasRouteKey :: "dest_kind \<Rightarrow> bool" where
  "hasRouteKey k \<longleftrightarrow> k = DkGateway \<or> k = DkService"

datatype response_mode = RmRequired | RmNone

fun response_mode_code :: "response_mode \<Rightarrow> byte" where
  "response_mode_code RmRequired = 0x00"
| "response_mode_code RmNone = 0x01"

definition response_mode_decode :: "byte \<Rightarrow> frame_error + response_mode" where
  "response_mode_decode b =
    (if b = response_mode_code RmRequired then Inr RmRequired
     else if b = response_mode_code RmNone then Inr RmNone
     else Inl UnknownResponseMode)"

lemma frame_type_decode_code [simp]: "frame_type_decode (frame_type_code t) = Inr t"
  by (cases t) (simp_all add: frame_type_decode_def)

lemma dest_kind_decode_code [simp]: "dest_kind_decode (dest_kind_code k) = Inr k"
  by (cases k) (simp_all add: dest_kind_decode_def)

lemma response_mode_decode_code [simp]: "response_mode_decode (response_mode_code m) = Inr m"
  by (cases m) (simp_all add: response_mode_decode_def)

lemma frame_type_decode_Inr: "frame_type_decode b = Inr t \<longleftrightarrow> b = frame_type_code t"
  by (cases t) (auto simp: frame_type_decode_def)

lemma dest_kind_decode_Inr: "dest_kind_decode b = Inr k \<longleftrightarrow> b = dest_kind_code k"
  by (cases k) (auto simp: dest_kind_decode_def)

lemma response_mode_decode_Inr: "response_mode_decode b = Inr m \<longleftrightarrow> b = response_mode_code m"
  by (cases m) (auto simp: response_mode_decode_def)

lemmas enum_decode_Inr = frame_type_decode_Inr dest_kind_decode_Inr response_mode_decode_Inr

subsection \<open>Flags: a packed byte\<close>

record frame_flags =
  eof :: bool
  report :: bool
  unreliable :: bool
  rsv :: "5 word"

definition flags_none :: frame_flags where
  "flags_none = \<lparr>eof = False, report = False, unreliable = False, rsv = 0\<rparr>"

definition flags_last :: frame_flags where
  "flags_last = flags_none\<lparr>eof := True\<rparr>"

text \<open>\<open>@bitCast\<close> of the packed struct: the first field is the lowest bit.\<close>

definition flags_byte :: "frame_flags \<Rightarrow> byte" where
  "flags_byte f = of_bool (eof f) OR push_bit 1 (of_bool (report f))
     OR push_bit 2 (of_bool (unreliable f)) OR push_bit 3 (ucast (rsv f))"

definition flags_of_byte :: "byte \<Rightarrow> frame_flags" where
  "flags_of_byte b = \<lparr>eof = bit b 0, report = bit b 1, unreliable = bit b 2, rsv = ucast (drop_bit 3 b)\<rparr>"

definition flags_decode :: "byte \<Rightarrow> frame_error + frame_flags" where
  "flags_decode b = (let f = flags_of_byte b in
     if rsv f \<noteq> 0 then Inl ReservedBitsSet else Inr f)"

lemma flags_of_byte_byte [simp]: "flags_of_byte (flags_byte f) = f"
proof -
  have "ucast (drop_bit 3 (flags_byte f)) = rsv f"
    by (rule bit_word_eqI) (auto simp: flags_byte_def bit_simps)
  then show ?thesis
    by (auto simp: flags_of_byte_def flags_byte_def bit_simps)
qed

lemma flags_byte_of_byte [simp]: "flags_byte (flags_of_byte b) = b"
proof (rule bit_word_eqI)
  fix n assume "n < LENGTH(8)"
  then have "n = 0 \<or> n = 1 \<or> n = 2 \<or> 3 \<le> n \<and> n < 8" by auto
  then show "bit (flags_byte (flags_of_byte b)) n = bit b n"
    by (auto simp: flags_byte_def flags_of_byte_def bit_simps)
qed

lemma flags_decode_Inr: "flags_decode b = Inr f \<longleftrightarrow> b = flags_byte f \<and> rsv f = 0"
  by (auto simp: flags_decode_def Let_def)

lemma rsv_flags [simp]: "rsv flags_none = 0" "rsv flags_last = 0" "\<not> report flags_none" "\<not> report flags_last"
  by (simp_all add: flags_none_def flags_last_def)

subsection \<open>Route identifiers and control types\<close>

record route_id =
  ri_route_key :: byte
  ri_group :: byte

definition route_init :: "byte \<Rightarrow> byte \<Rightarrow> route_id" where
  "route_init g k = \<lparr>ri_route_key = k, ri_group = g\<rparr>"

text \<open>\<open>ControlType\<close> is a non-exhaustive enumeration over a byte, so every byte is a control type.\<close>

type_synonym control_type = byte

definition ct_heartbeat :: control_type where "ct_heartbeat = 0x00"
definition ct_heartbeat_ack :: control_type where "ct_heartbeat_ack = 0x01"
definition ct_ping :: control_type where "ct_ping = 0x02"
definition ct_pong :: control_type where "ct_pong = 0x03"
definition ct_auth_request :: control_type where "ct_auth_request = 0x10"
definition ct_auth_success :: control_type where "ct_auth_success = 0x11"
definition ct_auth_failure :: control_type where "ct_auth_failure = 0x12"
definition ct_gateway_error :: control_type where "ct_gateway_error = 0xF0"

lemmas control_types = ct_heartbeat_def ct_heartbeat_ack_def ct_ping_def ct_pong_def
  ct_auth_request_def ct_auth_success_def ct_auth_failure_def ct_gateway_error_def

definition isHeartbeat :: "control_type \<Rightarrow> bool" where "isHeartbeat v \<longleftrightarrow> v \<le> 0x0F"
definition isAuth :: "control_type \<Rightarrow> bool" where "isAuth v \<longleftrightarrow> 0x10 \<le> v \<and> v \<le> 0x1F"
definition isConnectionControl :: "control_type \<Rightarrow> bool" where
  "isConnectionControl v \<longleftrightarrow> 0x20 \<le> v \<and> v \<le> 0x2F"
definition isSession :: "control_type \<Rightarrow> bool" where "isSession v \<longleftrightarrow> 0x30 \<le> v \<and> v \<le> 0x3F"
definition isMulticast :: "control_type \<Rightarrow> bool" where "isMulticast v \<longleftrightarrow> 0x40 \<le> v \<and> v \<le> 0x4F"
definition isSystem :: "control_type \<Rightarrow> bool" where "isSystem v \<longleftrightarrow> 0xF0 \<le> v"

lemmas control_classes = isHeartbeat_def isAuth_def isConnectionControl_def isSession_def
  isMulticast_def isSystem_def

subsection \<open>The frame header\<close>

record frame_header =
  fh_type :: frame_type
  fh_flags :: frame_flags
  fh_body_len :: u16
  fh_dest :: dest_kind
  fh_response :: response_mode
  fh_group :: byte
  fh_route_key :: byte

definition initOpen ::
    "dest_kind \<Rightarrow> route_id \<Rightarrow> response_mode \<Rightarrow> frame_flags \<Rightarrow> u16 \<Rightarrow> frame_header" where
  "initOpen dk route rm fl n = \<lparr>fh_type = FtOpen, fh_flags = fl, fh_body_len = n, fh_dest = dk,
     fh_response = rm, fh_group = ri_group route, fh_route_key = ri_route_key route\<rparr>"

definition initData :: "frame_flags \<Rightarrow> u16 \<Rightarrow> frame_header" where
  "initData fl n = \<lparr>fh_type = FtData, fh_flags = fl, fh_body_len = n, fh_dest = DkGateway,
     fh_response = RmRequired, fh_group = 0, fh_route_key = 0\<rparr>"

definition initControl :: "control_type \<Rightarrow> u16 \<Rightarrow> frame_header" where
  "initControl ct n = initOpen DkGateway (route_init 0 ct) RmRequired flags_last n"

definition headerSize :: "frame_header \<Rightarrow> nat" where
  "headerSize h = frame_type_headerSize (fh_type h)"

definition frameSize :: "frame_header \<Rightarrow> nat" where
  "frameSize h = headerSize h + unat (fh_body_len h)"

text \<open>\<open>encode(buf)\<close> writes into the caller's buffer and returns how many bytes it wrote.\<close>

definition header_encode :: "frame_header \<Rightarrow> bytes \<Rightarrow> frame_error + bytes \<times> nat" where
  "header_encode h buf =
    (if fh_type h = FtDatagram then Inl DatagramOnStream
     else let size = frame_type_headerSize (fh_type h) in
       if length buf < size then Inl BufferTooSmall
       else let b1 = blit buf 0 [frame_type_code (fh_type h), flags_byte (fh_flags h)];
                b2 = blit b1 2 (be_enc 2 (unat (fh_body_len h)));
                b3 = (if fh_type h = FtOpen
                      then blit b2 4 [dest_kind_code (fh_dest h), response_mode_code (fh_response h),
                                      fh_group h, fh_route_key h]
                      else b2)
            in Inr (b3, size))"

definition header_decode :: "bytes \<Rightarrow> frame_error + frame_header" where
  "header_decode buf =
    (if length buf < 1 then Inl BufferTooSmall
     else case frame_type_decode (buf ! 0) of Inl e \<Rightarrow> Inl e
     | Inr ft \<Rightarrow>
       if ft = FtDatagram then Inl DatagramOnStream
       else if length buf < frame_type_headerSize ft then Inl BufferTooSmall
       else (case flags_decode (buf ! 1) of Inl e \<Rightarrow> Inl e
       | Inr fl \<Rightarrow>
         if ft = FtData \<and> report fl then Inl ReservedBitsSet
         else let n = of_nat (be_dec (seg 2 2 buf)) in
           if ft = FtOpen then
             (case dest_kind_decode (buf ! 4) of Inl e \<Rightarrow> Inl e
              | Inr dk \<Rightarrow> (case response_mode_decode (buf ! 5) of Inl e \<Rightarrow> Inl e
              | Inr rm \<Rightarrow> Inr \<lparr>fh_type = ft, fh_flags = fl, fh_body_len = n, fh_dest = dk,
                               fh_response = rm, fh_group = buf ! 6, fh_route_key = buf ! 7\<rparr>))
           else Inr \<lparr>fh_type = ft, fh_flags = fl, fh_body_len = n, fh_dest = DkGateway,
                     fh_response = RmRequired, fh_group = 0, fh_route_key = 0\<rparr>))"

definition isOpen :: "frame_header \<Rightarrow> bool" where "isOpen h \<longleftrightarrow> fh_type h = FtOpen"
definition isLast :: "frame_header \<Rightarrow> bool" where "isLast h \<longleftrightarrow> eof (fh_flags h)"

definition routeId :: "frame_header \<Rightarrow> route_id option" where
  "routeId h = (if fh_type h \<noteq> FtOpen \<or> \<not> hasRouteKey (fh_dest h) then None
     else Some \<lparr>ri_route_key = fh_route_key h, ri_group = fh_group h\<rparr>)"

definition controlType :: "frame_header \<Rightarrow> control_type option" where
  "controlType h = (if fh_type h \<noteq> FtOpen \<or> fh_dest h \<noteq> DkGateway \<or> fh_group h \<noteq> 0 then None
     else Some (fh_route_key h))"

definition realmHint :: "frame_header \<Rightarrow> u16 option" where
  "realmHint h = (if fh_type h \<noteq> FtOpen then None
     else if hasRouteKey (fh_dest h) then None
     else Some (push_bit 8 (ucast (fh_group h)) OR ucast (fh_route_key h)))"

subsection \<open>The wire form of a header\<close>

text \<open>
  \<open>header_bytes\<close> is the closed form of what \<open>encode\<close> writes; \<open>header_wf\<close> says which headers have a
  wire form that decodes: no reserved bits, no DATAGRAM type, and on DATA no report flag and only
  the default values in the fields that DATA does not carry.
\<close>

definition header_bytes :: "frame_header \<Rightarrow> bytes" where
  "header_bytes h = [frame_type_code (fh_type h), flags_byte (fh_flags h)] @ be_enc 2 (unat (fh_body_len h)) @
     (if fh_type h = FtOpen
      then [dest_kind_code (fh_dest h), response_mode_code (fh_response h), fh_group h, fh_route_key h]
      else [])"

definition header_wf :: "frame_header \<Rightarrow> bool" where
  "header_wf h \<longleftrightarrow> fh_type h \<noteq> FtDatagram \<and> rsv (fh_flags h) = 0 \<and>
     (fh_type h = FtData \<longrightarrow> \<not> report (fh_flags h) \<and> fh_dest h = DkGateway \<and>
        fh_response h = RmRequired \<and> fh_group h = 0 \<and> fh_route_key h = 0)"

lemma length_header_bytes [simp]:
  "fh_type h \<noteq> FtDatagram \<Longrightarrow> length (header_bytes h) = headerSize h"
  by (cases "fh_type h") (auto simp: header_bytes_def headerSize_def frame_sizes)

lemma headerSize_bounds: "fh_type h \<noteq> FtDatagram \<Longrightarrow> 4 \<le> headerSize h \<and> headerSize h \<le> 8"
  by (cases "fh_type h") (auto simp: headerSize_def frame_sizes)

lemma frameSize_le: "frameSize h \<le> MAX_FRAME_SIZE"
proof -
  have "unat (fh_body_len h) < 65536"
    by (rule order_less_le_trans [OF unsigned_less]) simp
  then show ?thesis
    by (cases "fh_type h") (auto simp: frameSize_def headerSize_def frame_sizes)
qed

lemma be_enc_2: "be_enc 2 v = [of_nat (v div 256), of_nat v]"
  by (simp add: numeral_2_eq_2)

lemma header_encode_eq:
  assumes "fh_type h \<noteq> FtDatagram" and "headerSize h \<le> length buf"
  shows "header_encode h buf = Inr (header_bytes h @ drop (headerSize h) buf, headerSize h)"
proof (cases "fh_type h")
  case FtOpen
  with assms show ?thesis
    by (auto simp: header_encode_def header_bytes_def headerSize_def frame_sizes blit_def be_enc_2
        Let_def min_def)
next
  case FtData
  with assms show ?thesis
    by (auto simp: header_encode_def header_bytes_def headerSize_def frame_sizes blit_def be_enc_2
        Let_def min_def)
next
  case FtDatagram
  with assms show ?thesis by simp
qed

lemma header_encode_errors:
  "fh_type h = FtDatagram \<Longrightarrow> header_encode h buf = Inl DatagramOnStream"
  "fh_type h \<noteq> FtDatagram \<Longrightarrow> length buf < headerSize h \<Longrightarrow> header_encode h buf = Inl BufferTooSmall"
  by (simp_all add: header_encode_def headerSize_def Let_def)

lemma u16_of_bytes: "be_enc 2 (unat (of_nat (be_dec [x, y]) :: u16)) = [x, y]"
proof -
  have "be_dec [x, y] < 65536"
    using be_dec_less [of "[x, y]"] by simp
  then have "unat (of_nat (be_dec [x, y]) :: u16) = be_dec [x, y]"
    by (simp add: unsigned_of_nat take_bit_eq_mod del: be_dec.simps)
  then show ?thesis
    using be_enc_be_dec [of "[x, y]"] by (simp del: be_dec.simps be_enc.simps add: numeral_2_eq_2)
qed

lemma u16_be_dec: "(of_nat (be_dec (be_enc 2 (unat (n :: u16)))) :: u16) = n"
proof -
  have "unat n < 65536"
    by (rule order_less_le_trans [OF unsigned_less]) simp
  then show ?thesis by simp
qed

lemma u16_bytesE:
  obtains x y where "be_enc 2 (unat n) = [x, y]" and "of_nat (be_dec [x, y]) = (n :: u16)"
  using that u16_be_dec [of n] be_enc_2 [of "unat n"] by metis

lemma header_decode_bytes [wire_simps]:
  assumes "header_wf h"
  shows "header_decode (header_bytes h @ rest) = Inr h"
proof -
  obtain x y where xy: "be_enc 2 (unat (fh_body_len h)) = [x, y]"
    and len: "of_nat (be_dec [x, y]) = fh_body_len h"
    by (rule u16_bytesE)
  show ?thesis
  proof (cases "fh_type h")
    case FtOpen
    have "header_bytes h @ rest = frame_type_code FtOpen # flags_byte (fh_flags h) # x # y #
        dest_kind_code (fh_dest h) # response_mode_code (fh_response h) # fh_group h # fh_route_key h # rest"
      by (simp add: header_bytes_def FtOpen xy)
    then show ?thesis
      using FtOpen assms len
      by (simp del: be_dec.simps frame_type_code.simps
          add: header_decode_def header_wf_def flags_decode_def Let_def frame_sizes seg_def)
  next
    case FtData
    have "header_bytes h @ rest = frame_type_code FtData # flags_byte (fh_flags h) # x # y # rest"
      by (simp add: header_bytes_def FtData xy)
    then show ?thesis
      using FtData assms len
      by (simp del: be_dec.simps frame_type_code.simps
          add: header_decode_def header_wf_def flags_decode_def Let_def frame_sizes seg_def)
  next
    case FtDatagram
    with assms show ?thesis by (simp add: header_wf_def)
  qed
qed

lemma header_decode_Inr:
  assumes "header_decode bs = Inr h"
  shows "header_wf h \<and> (\<exists>rest. bs = header_bytes h @ rest)"
proof -
  from assms obtain ft fl where ft: "frame_type_decode (bs ! 0) = Inr ft" "ft \<noteq> FtDatagram"
    and sz: "frame_type_headerSize ft \<le> length bs" and fl: "flags_decode (bs ! 1) = Inr fl"
    and rep: "ft = FtData \<longrightarrow> \<not> report fl"
    by (auto simp: header_decode_def Let_def split: if_splits sum.splits)
  show ?thesis
  proof (cases ft)
    case FtOpen
    then have "8 \<le> length bs" using sz by (simp add: frame_sizes)
    then obtain b0 b1 b2 b3 b4 b5 b6 b7 rest where bs: "bs = b0 # b1 # b2 # b3 # b4 # b5 # b6 # b7 # rest"
      by (auto simp: Suc_le_length_iff numeral_eq_Suc)
    show ?thesis
      using assms ft fl FtOpen unfolding bs
      by (auto simp: header_decode_def Let_def enum_decode_Inr flags_decode_Inr header_wf_def
          header_bytes_def seg_def u16_of_bytes simp del: be_dec.simps split: if_splits sum.splits)
  next
    case FtData
    then have "4 \<le> length bs" using sz by (simp add: frame_sizes)
    then obtain b0 b1 b2 b3 rest where bs: "bs = b0 # b1 # b2 # b3 # rest"
      by (auto simp: Suc_le_length_iff numeral_eq_Suc)
    show ?thesis
      using assms ft fl FtData rep unfolding bs
      by (auto simp: header_decode_def Let_def enum_decode_Inr flags_decode_Inr header_wf_def
          header_bytes_def seg_def u16_of_bytes simp del: be_dec.simps split: if_splits sum.splits)
  next
    case FtDatagram
    with ft show ?thesis by simp
  qed
qed

lemma header_decode_iff:
  "header_decode bs = Inr h \<longleftrightarrow> header_wf h \<and> (\<exists>rest. bs = header_bytes h @ rest)"
  using header_decode_Inr header_decode_bytes by blast

subsection \<open>Properties\<close>

text \<open>The header decoder accepts a byte string exactly when it starts with the encoding of a
  well-formed header: decoding gives \<open>h\<close> if and only if \<open>h\<close> is well-formed and encoding \<open>h\<close> into that very
  buffer changes nothing. So no two byte forms of one header exist, and none is invented.\<close>

theorem header_decode_canonical:
  "header_decode bs = Inr h \<longleftrightarrow> header_wf h \<and> header_encode h bs = Inr (bs, headerSize h)"
proof
  assume "header_decode bs = Inr h"
  then obtain rest where wf: "header_wf h" and bs: "bs = header_bytes h @ rest" using header_decode_Inr by blast
  then have nd: "fh_type h \<noteq> FtDatagram" by (simp add: header_wf_def)
  then show "header_wf h \<and> header_encode h bs = Inr (bs, headerSize h)"
    using wf bs by (simp add: header_encode_eq)
next
  assume r: "header_wf h \<and> header_encode h bs = Inr (bs, headerSize h)"
  then have nd: "fh_type h \<noteq> FtDatagram" by (simp add: header_wf_def)
  then have "headerSize h \<le> length bs"
    using r header_encode_errors(2) [OF nd, of bs] by (cases "length bs < headerSize h") auto
  then have "bs = header_bytes h @ drop (headerSize h) bs" using r header_encode_eq [OF nd, of bs] by simp
  then show "header_decode bs = Inr h" using r header_decode_bytes by metis
qed

text \<open>Of an OPEN frame exactly one reading of its last two bytes is meaningful: a route for the two
  destinations that have one, a realm hint for the others, and a control type only for the gateway
  with group 0; DATA frames have none of them.\<close>

theorem open_key_readings:
  "(routeId h \<noteq> None \<longleftrightarrow> isOpen h \<and> hasRouteKey (fh_dest h))
   \<and> (realmHint h \<noteq> None \<longleftrightarrow> isOpen h \<and> \<not> hasRouteKey (fh_dest h))
   \<and> (controlType h \<noteq> None \<longleftrightarrow> isOpen h \<and> fh_dest h = DkGateway \<and> fh_group h = 0)"
  by (auto simp: routeId_def realmHint_def controlType_def isOpen_def)

end
