(* ===== verification/Envelope.thy ===== *)
theory Envelope
  imports Lyune_Frame
begin

section \<open>The WSS logical-stream envelope (\<open>src/wss/envelope.zig\<close>)\<close>

text \<open>
  WebSocket has no stream ids, FIN, RESET or STOP, so every binary message carries one record with a
  fixed 20-byte header. \<open>decode\<close> checks the message byte by byte; the codec laws (each accepted
  message is the encoding of exactly the record it decodes to) are the interpretation at the end.
\<close>

definition env_version :: byte where "env_version = 1"
definition env_header_size :: nat where "env_header_size = 20"
definition max_payload_size :: nat where "max_payload_size = MAX_FRAME_SIZE"
definition max_record_size :: nat where "max_record_size = env_header_size + max_payload_size"

lemmas envelope_sizes = env_version_def env_header_size_def max_payload_size_def max_record_size_def

datatype record_type = RtStream | RtReset | RtStop | RtEphemeral

datatype envelope_error =
    EnvTruncated | EnvTrailingBytes | EnvUnsupportedVersion | EnvUnknownRecordType | EnvReservedBitsSet
  | EnvPayloadTooLarge | EnvInvalidStreamRecord | EnvInvalidControlRecord | EnvInvalidEphemeralRecord

fun record_type_code :: "record_type \<Rightarrow> byte" where
  "record_type_code RtStream = 0x01"
| "record_type_code RtReset = 0x02"
| "record_type_code RtStop = 0x03"
| "record_type_code RtEphemeral = 0x04"

definition record_type_decode :: "byte \<Rightarrow> envelope_error + record_type" where
  "record_type_decode raw =
    (if raw = 0x01 then Inr RtStream else if raw = 0x02 then Inr RtReset
     else if raw = 0x03 then Inr RtStop else if raw = 0x04 then Inr RtEphemeral
     else Inl EnvUnknownRecordType)"

record wss_record =
  record_type :: record_type
  fin :: bool
  stream_id :: u64
  app_error_code :: u32
  payload :: bytes

definition isClientInitiated :: "wss_record \<Rightarrow> bool" where
  "isClientInitiated r \<longleftrightarrow> record_type r \<noteq> RtEphemeral \<and> stream_id r AND 3 = 0"

definition isServerInitiated :: "wss_record \<Rightarrow> bool" where
  "isServerInitiated r \<longleftrightarrow> record_type r \<noteq> RtEphemeral \<and> stream_id r AND 3 = 1"

definition env_validate :: "wss_record \<Rightarrow> envelope_error + unit" where
  "env_validate r = (case record_type r of
      RtStream \<Rightarrow> if app_error_code r \<noteq> 0 then Inl EnvInvalidStreamRecord else Inr ()
    | RtReset \<Rightarrow> if fin r \<or> length (payload r) \<noteq> 0 then Inl EnvInvalidControlRecord else Inr ()
    | RtStop \<Rightarrow> if fin r \<or> length (payload r) \<noteq> 0 then Inl EnvInvalidControlRecord else Inr ()
    | RtEphemeral \<Rightarrow> if fin r \<or> stream_id r \<noteq> 0 \<or> app_error_code r \<noteq> 0
                     then Inl EnvInvalidEphemeralRecord else Inr ())"

text \<open>\<open>Flags\<close> is a packed byte: bit 0 is \<open>fin\<close>, the seven bits above it are reserved.\<close>

definition env_decode :: "bytes \<Rightarrow> envelope_error + wss_record" where
  "env_decode bs =
    (if length bs < env_header_size then Inl EnvTruncated
     else if bs ! 0 \<noteq> env_version then Inl EnvUnsupportedVersion
     else case record_type_decode (bs ! 1) of Inl e \<Rightarrow> Inl e
     | Inr rt \<Rightarrow>
       if drop_bit 1 (bs ! 2) \<noteq> 0 \<or> bs ! 3 \<noteq> 0 then Inl EnvReservedBitsSet
       else let payload_len = be_dec (seg 16 4 bs) in
         if max_payload_size < payload_len then Inl EnvPayloadTooLarge
         else let total = env_header_size + payload_len in
           if length bs < total then Inl EnvTruncated
           else if length bs \<noteq> total then Inl EnvTrailingBytes
           else let r = \<lparr>record_type = rt, fin = bit (bs ! 2) 0, stream_id = of_nat (be_dec (seg 4 8 bs)),
                         app_error_code = of_nat (be_dec (seg 12 4 bs)),
                         payload = seg env_header_size payload_len bs\<rparr>
                in (case env_validate r of Inl e \<Rightarrow> Inl e | Inr _ \<Rightarrow> Inr r))"

text \<open>\<open>encodeHeader\<close> fills a 20-byte array; \<open>encode\<close> writes into a buffer of \<open>cap\<close> bytes.\<close>

definition encodeHeader :: "wss_record \<Rightarrow> envelope_error + bytes" where
  "encodeHeader r = (case env_validate r of Inl e \<Rightarrow> Inl e
     | Inr _ \<Rightarrow>
       if max_payload_size < length (payload r) then Inl EnvPayloadTooLarge
       else let o1 = blit (replicate env_header_size 0) 0
                       [env_version, record_type_code (record_type r), of_bool (fin r), 0];
                o2 = blit o1 4 (be_enc 8 (unat (stream_id r)));
                o3 = blit o2 12 (be_enc 4 (unat (app_error_code r)));
                o4 = blit o3 16 (be_enc 4 (length (payload r)))
            in Inr o4)"

definition env_encode :: "nat \<Rightarrow> wss_record \<Rightarrow> envelope_error + bytes" where
  "env_encode cap r = (case encodeHeader r of Inl e \<Rightarrow> Inl e
     | Inr header \<Rightarrow>
       let total = env_header_size + length (payload r) in
       if cap < total then Inl EnvTruncated else Inr (header @ payload r))"

subsection \<open>Layout\<close>

definition env_ok :: "wss_record \<Rightarrow> bool" where
  "env_ok r \<longleftrightarrow> env_validate r = Inr () \<and> length (payload r) \<le> max_payload_size"

definition env_header :: "wss_record \<Rightarrow> bytes" where
  "env_header r = [env_version, record_type_code (record_type r), of_bool (fin r), 0]
     @ be_enc 8 (unat (stream_id r)) @ be_enc 4 (unat (app_error_code r)) @ be_enc 4 (length (payload r))"

lemma length_env_header [simp]: "length (env_header r) = 20"
  by (simp add: env_header_def)

lemma encodeHeader_eq: "env_ok r \<Longrightarrow> encodeHeader r = Inr (env_header r)"
proof -
  assume "env_ok r"
  moreover have "replicate 20 0 = replicate 4 0 @ replicate 8 0 @ replicate 4 0 @ replicate 4 (0 :: byte)"
    by (simp add: replicate_add [symmetric])
  ultimately show ?thesis
    by (simp add: encodeHeader_def env_ok_def env_header_def env_header_size_def Let_def blit_def)
qed

lemma encodeHeader_Inr: "encodeHeader r = Inr h \<longleftrightarrow> env_ok r \<and> h = env_header r"
  using encodeHeader_eq [of r]
  by (auto simp: encodeHeader_def env_ok_def Let_def split: sum.splits if_splits)

lemma record_type_decode_Inr: "record_type_decode b = Inr t \<longleftrightarrow> b = record_type_code t"
  by (cases t) (auto simp: record_type_decode_def)

lemma of_nat_unat_mod64: "(of_nat (unat (x :: u64) mod 18446744073709551616) :: u64) = x"
  using unsigned_less [of x, where ?'a = nat] by simp

lemma of_nat_unat_mod32: "(of_nat (unat (x :: u32) mod 4294967296) :: u32) = x"
  using unsigned_less [of x, where ?'a = nat] by simp

lemma fin_bit: "drop_bit 1 (of_bool f :: byte) = 0" "bit (of_bool f :: byte) 0 = f"
  by (cases f; simp)+

lemma seg_env_header:
  "seg 4 8 (env_header r @ p) = be_enc 8 (unat (stream_id r))"
  "seg 12 4 (env_header r @ p) = be_enc 4 (unat (app_error_code r))"
  "seg 16 4 (env_header r @ p) = be_enc 4 (length (payload r))"
  "seg 20 n (env_header r @ p) = take n p"
  by (simp_all add: env_header_def seg_def)

lemma nth_env_header:
  "(env_header r @ p) ! 0 = env_version" "(env_header r @ p) ! Suc 0 = record_type_code (record_type r)"
  "(env_header r @ p) ! 2 = of_bool (fin r)" "(env_header r @ p) ! 3 = 0"
  by (simp_all add: env_header_def)

lemma env_decode_header:
  assumes "env_ok r"
  shows "env_decode (env_header r @ payload r) = Inr r"
proof -
  have v: "env_validate r = Inr ()" and len: "length (payload r) \<le> 65543"
    using assms by (auto simp: env_ok_def max_payload_size_def frame_sizes)
  have "record_type_decode (record_type_code (record_type r)) = Inr (record_type r)"
    by (simp add: record_type_decode_Inr)
  then show ?thesis
    using v len
    by (cases r) (simp add: env_decode_def env_header_size_def max_payload_size_def frame_sizes Let_def
        seg_env_header nth_env_header fin_bit of_nat_unat_mod64 of_nat_unat_mod32)
qed

lemma word_be_8: "length bs = 8 \<Longrightarrow> be_enc 8 (unat (of_nat (be_dec bs) :: u64)) = bs"
  using be_dec_less [of bs]
  by (simp add: unsigned_of_nat take_bit_eq_mod be_enc_be_dec_n)

lemma word_be_4: "length bs = 4 \<Longrightarrow> be_enc 4 (unat (of_nat (be_dec bs) :: u32)) = bs"
  using be_dec_less [of bs]
  by (simp add: unsigned_of_nat take_bit_eq_mod be_enc_be_dec_n)

lemma drop_bit_1_eq_0:
  assumes "drop_bit 1 (b :: byte) = 0"
  shows "of_bool (bit b 0) = b"
proof (rule bit_word_eqI)
  fix n assume "n < LENGTH(8)"
  have "bit b n = bit (drop_bit 1 b) (n - 1)" if "0 < n"
    using that by (simp add: bit_simps)
  then have "\<not> bit b n" if "0 < n"
    using that unfolding assms by simp
  then show "bit (of_bool (bit b 0) :: byte) n = bit b n"
    by (cases "n = 0") (auto simp: bit_simps)
qed

lemma header_split:
  assumes "20 \<le> length bs"
  shows "bs = [bs ! 0, bs ! 1, bs ! 2, bs ! 3] @ seg 4 8 bs @ seg 12 4 bs @ seg 16 4 bs @ drop 20 bs"
proof -
  have "take 4 bs = [bs ! 0, bs ! 1, bs ! 2, bs ! 3]"
    using assms by (auto simp: list_eq_iff_nth_eq nth_Cons numeral_eq_Suc less_Suc_eq split: nat.split)
  moreover have "seg 16 4 bs @ drop 20 bs = drop 16 bs" "seg 12 4 bs @ drop 16 bs = drop 12 bs"
    "seg 4 8 bs @ drop 12 bs = drop 4 bs"
    using seg_split [of 16 20 bs] seg_split [of 12 16 bs] seg_split [of 4 12 bs] by simp_all
  ultimately show ?thesis by (metis append_take_drop_id)
qed

lemma env_decode_InrE:
  assumes "env_decode bs = Inr r"
  obtains rt n where "20 \<le> length bs" "bs ! 0 = env_version" "bs ! 1 = record_type_code rt"
    "drop_bit 1 (bs ! 2) = 0" "bs ! 3 = 0" "n = be_dec (seg 16 4 bs)" "n \<le> max_payload_size"
    "length bs = 20 + n" "env_validate r = Inr ()"
    "r = \<lparr>record_type = rt, fin = bit (bs ! 2) 0, stream_id = of_nat (be_dec (seg 4 8 bs)),
          app_error_code = of_nat (be_dec (seg 12 4 bs)), payload = seg 20 n bs\<rparr>"
proof -
  define n where "n = be_dec (seg 16 4 bs)"
  define mk where "mk rt = \<lparr>record_type = rt, fin = bit (bs ! 2) 0, stream_id = of_nat (be_dec (seg 4 8 bs)),
          app_error_code = of_nat (be_dec (seg 12 4 bs)), payload = seg 20 n bs\<rparr>" for rt
  have dec: "env_decode bs =
    (if length bs < 20 then Inl EnvTruncated
     else if bs ! 0 \<noteq> env_version then Inl EnvUnsupportedVersion
     else case record_type_decode (bs ! 1) of Inl e \<Rightarrow> Inl e
     | Inr rt \<Rightarrow>
       if drop_bit 1 (bs ! 2) \<noteq> 0 \<or> bs ! 3 \<noteq> 0 then Inl EnvReservedBitsSet
       else if max_payload_size < n then Inl EnvPayloadTooLarge
       else if length bs < 20 + n then Inl EnvTruncated
       else if length bs \<noteq> 20 + n then Inl EnvTrailingBytes
       else (case env_validate (mk rt) of Inl e \<Rightarrow> Inl e | Inr _ \<Rightarrow> Inr (mk rt)))"
    by (simp only: env_decode_def env_header_size_def Let_def n_def mk_def)
  from assms show ?thesis
    unfolding dec
    by (auto simp: record_type_decode_Inr mk_def n_def linorder_not_less intro!: that
        split: if_splits sum.splits simp del: length_seg)
qed

lemma env_decode_Inr:
  assumes "env_decode bs = Inr r"
  shows "env_ok r \<and> bs = env_header r @ payload r"
  using assms
proof (rule env_decode_InrE)
  fix rt n
  assume len: "20 \<le> length bs" and v: "bs ! 0 = env_version" and rt: "bs ! 1 = record_type_code rt"
    and res: "drop_bit 1 (bs ! 2) = 0" "bs ! 3 = 0" and n: "n = be_dec (seg 16 4 bs)"
    and pl: "n \<le> max_payload_size" "length bs = 20 + n" and val: "env_validate r = Inr ()"
    and r: "r = \<lparr>record_type = rt, fin = bit (bs ! 2) 0, stream_id = of_nat (be_dec (seg 4 8 bs)),
          app_error_code = of_nat (be_dec (seg 12 4 bs)), payload = seg 20 n bs\<rparr>"
  have p: "payload r = drop 20 bs" using r pl by (simp add: seg_def)
  have e1: "be_enc 4 (length (drop 20 bs)) = seg 16 4 bs"
    using n pl be_enc_be_dec_n [of "seg 16 4 bs" 4] by simp
  have e2: "be_enc 8 (unat (stream_id r)) = seg 4 8 bs"
    using r len word_be_8 [of "seg 4 8 bs"] by simp
  have e3: "be_enc 4 (unat (app_error_code r)) = seg 12 4 bs"
    using r len word_be_4 [of "seg 12 4 bs"] by simp
  have e4: "[bs ! 0, bs ! 1, bs ! 2, bs ! 3] = [env_version, record_type_code (record_type r), of_bool (fin r), 0]"
    using v rt res r drop_bit_1_eq_0 [OF res(1)] by simp
  have "bs = env_header r @ payload r"
    unfolding env_header_def p e1 e2 e3 e4 [symmetric] append_assoc
    by (rule header_split [OF len])
  moreover have "env_ok r" using val p pl by (simp add: env_ok_def)
  ultimately show ?thesis by blast
qed

lemma env_encode_Inr:
  "env_encode cap r = Inr bs \<longleftrightarrow> env_ok r \<and> 20 + length (payload r) \<le> cap \<and> bs = env_header r @ payload r"
  by (auto simp: env_encode_def Let_def encodeHeader_Inr env_header_size_def encodeHeader_eq split: sum.splits)

lemma env_ok_size: "env_ok r \<Longrightarrow> 20 + length (payload r) \<le> max_record_size"
  by (simp add: env_ok_def max_record_size_def env_header_size_def)

interpretation envelope_codec: wire_codec "env_encode max_record_size" env_decode
proof unfold_locales
  fix r bs
  assume "env_encode max_record_size r = Inr bs"
  then show "env_decode bs = Inr r" by (simp add: env_encode_Inr env_decode_header)
next
  fix bs r
  assume "env_decode bs = Inr r"
  then show "env_encode max_record_size r = Inr bs"
    using env_decode_Inr env_ok_size by (auto simp: env_encode_Inr)
qed

end
