(* ===== verification/Byte_Ring.thy ===== *)
theory Byte_Ring
  imports Gw_Prelude
begin

section \<open>Cyclic reads and writes of a fixed byte array\<close>

text \<open>
  The output queue keeps its bytes in one array and wraps around at its end. This theory has the
  arithmetic of that array, free of the queue: \<open>ring_read\<close> and \<open>ring_write\<close> at a position modulo the
  capacity, and the two facts the queue needs, that a write is read back and that it leaves the
  region before it alone as long as both fit.
\<close>

lemma mod_add_cancel_nat:
  assumes "(a + c) mod m = (b + c) mod (m :: nat)"
  shows "a mod m = b mod m"
proof -
  have "int (a + c) mod int m = int (b + c) mod int m"
    using assms by (metis zmod_int)
  then have "(int a + int c - int c) mod int m = (int b + int c - int c) mod int m"
    unfolding of_nat_add by (rule mod_diff_cong) simp
  then have "int a mod int m = int b mod int m" by simp
  then show ?thesis by (metis zmod_int of_nat_eq_iff)
qed

text \<open>The cyclic distance from \<open>w\<close> to \<open>p\<close>.\<close>

definition cyc :: "nat \<Rightarrow> nat \<Rightarrow> nat \<Rightarrow> nat" where
  "cyc C w p = (p + C - w) mod C"

lemma cyc_add: "w < C \<Longrightarrow> k < C \<Longrightarrow> cyc C w ((w + k) mod C) = k"
  by (cases "w + k < C") (auto simp: cyc_def mod_if)

lemma cyc_back: "w < C \<Longrightarrow> p < C \<Longrightarrow> (w + cyc C w p) mod C = p"
  by (cases "w \<le> p") (auto simp: cyc_def mod_if)

lemma cyc_less: "0 < C \<Longrightarrow> cyc C w p < C"
  by (simp add: cyc_def)

lemma cyc_shift:
  assumes "w < C" "p < C" "a < C"
  shows "cyc C ((w + a) mod C) p = (if a \<le> cyc C w p then cyc C w p - a else cyc C w p + C - a)"
proof -
  define k where "k = (if a \<le> cyc C w p then cyc C w p - a else cyc C w p + C - a)"
  have kC: "k < C" using cyc_less [of C w p] assms by (auto simp: k_def)
  have "(w + a + k) mod C = p"
  proof (cases "a \<le> cyc C w p")
    case True
    then show ?thesis using cyc_back [OF assms(1,2)] by (simp add: k_def)
  next
    case False
    then have "w + a + k = (w + cyc C w p) + C" using assms(3) by (simp add: k_def)
    then show ?thesis using cyc_back [OF assms(1,2)] unfolding \<open>w + a + k = (w + cyc C w p) + C\<close> by simp
  qed
  then have "((w + a) mod C + k) mod C = p" by (simp add: mod_add_left_eq)
  moreover have "(w + a) mod C < C" using assms by simp
  ultimately show ?thesis using cyc_add [of "(w + a) mod C" C k] kC by (simp add: k_def)
qed

definition ring_read :: "'a list \<Rightarrow> nat \<Rightarrow> nat \<Rightarrow> 'a list" where
  "ring_read b pos n = map (\<lambda>i. b ! ((pos + i) mod length b)) [0..<n]"

definition ring_write :: "'a list \<Rightarrow> nat \<Rightarrow> 'a list \<Rightarrow> 'a list" where
  "ring_write b w xs = map (\<lambda>p. if cyc (length b) w p < length xs then xs ! cyc (length b) w p else b ! p)
     [0..<length b]"

lemma length_ring_read [simp]: "length (ring_read b pos n) = n"
  by (simp add: ring_read_def)

lemma length_ring_write [simp]: "length (ring_write b w xs) = length b"
  by (simp add: ring_write_def)

lemma ring_write_Nil [simp]: "ring_write b w [] = b"
  by (simp add: ring_write_def map_nth)

lemma ring_read_add: "ring_read b pos (m + n) = ring_read b pos m @ ring_read b (pos + m) n"
  by (rule nth_equalityI) (auto simp: ring_read_def nth_append add.assoc)

lemma ring_read_mod: "ring_read b (pos mod length b) n = ring_read b pos n"
  by (simp add: ring_read_def mod_add_left_eq)

lemma take_ring_read: "k \<le> n \<Longrightarrow> take k (ring_read b pos n) = ring_read b pos k"
  by (simp add: ring_read_def take_map min_def)

lemma drop_ring_read: "k \<le> n \<Longrightarrow> drop k (ring_read b pos n) = ring_read b (pos + k) (n - k)"
  using ring_read_add [of b pos k "n - k"] by simp

lemma ring_read_contig: "pos + n \<le> length b \<Longrightarrow> ring_read b pos n = take n (drop pos b)"
  by (rule nth_equalityI) (auto simp: ring_read_def)

lemma ring_write_contig:
  assumes "w + length xs \<le> length b" "w < length b"
  shows "ring_write b w xs = blit b w xs"
proof (rule nth_equalityI)
  show "length (ring_write b w xs) = length (blit b w xs)" using assms by simp
next
  fix p assume "p < length (ring_write b w xs)"
  then have p: "p < length b" by simp
  have "cyc (length b) w p = (if w \<le> p then p - w else p + length b - w)"
  proof (cases "w \<le> p")
    case True
    then have "p + length b - w = (p - w) + length b" by simp
    then have "cyc (length b) w p = (p - w) mod length b"
      unfolding cyc_def by (metis mod_add_self2)
    moreover have "p - w < length b" using p by linarith
    ultimately show ?thesis using True by simp
  next
    case False
    then show ?thesis using assms p by (simp add: cyc_def)
  qed
  then show "ring_write b w xs ! p = blit b w xs ! p"
    using p assms by (auto simp: ring_write_def blit_def nth_append)
qed

lemma ring_write_append:
  assumes "w < length b" "length xs + length ys \<le> length b" "length xs < length b"
  shows "ring_write (ring_write b w xs) ((w + length xs) mod length b) ys = ring_write b w (xs @ ys)"
proof (rule nth_equalityI)
  fix p assume "p < length (ring_write (ring_write b w xs) ((w + length xs) mod length b) ys)"
  then have p: "p < length b" by simp
  note sh = cyc_shift [OF assms(1) p assms(3)]
  have "cyc (length b) w p < length b" using p by (intro cyc_less) linarith
  then show "ring_write (ring_write b w xs) ((w + length xs) mod length b) ys ! p = ring_write b w (xs @ ys) ! p"
    using p assms sh by (auto simp: ring_write_def nth_append)
qed simp

lemma ring_write_full:
  "w < length b \<Longrightarrow> length xs = length b \<Longrightarrow> ring_write (ring_write b w xs) v [] = ring_write b w xs"
  by simp

lemma ring_read_write_same:
  assumes "w < length b" "length xs \<le> length b"
  shows "ring_read (ring_write b w xs) w (length xs) = xs"
proof (rule nth_equalityI)
  fix i assume "i < length (ring_read (ring_write b w xs) w (length xs))"
  then have i: "i < length xs" by simp
  have "0 < length b" using assms by linarith
  then have "(w + i) mod length b < length b" by (rule mod_less_divisor)
  moreover have "cyc (length b) w ((w + i) mod length b) = i"
    using assms i by (intro cyc_add) auto
  ultimately show "ring_read (ring_write b w xs) w (length xs) ! i = xs ! i"
    using i by (simp add: ring_read_def ring_write_def)
qed simp

lemma ring_read_write_before:
  assumes "w < length b" "(pos + n) mod length b = w" "n + length xs \<le> length b"
  shows "ring_read (ring_write b w xs) pos n = ring_read b pos n"
proof (rule nth_equalityI)
  fix i assume "i < length (ring_read (ring_write b w xs) pos n)"
  then have i: "i < n" by simp
  let ?C = "length b" and ?p = "(pos + i) mod length b"
  have C: "0 < ?C" using assms(1) by linarith
  define k where "k = ?C - (n - i)"
  have "(pos + i + (n - i)) mod ?C = (w + k + (n - i)) mod ?C"
    using assms i by (simp add: k_def)
  then have p: "?p = (w + k) mod ?C" by (rule mod_add_cancel_nat)
  have "k < ?C" using i C unfolding k_def by linarith
  then have "cyc ?C w ?p = k" unfolding p using assms by (intro cyc_add)
  moreover have "length xs \<le> k" using assms i by (simp add: k_def)
  moreover have "?p < ?C" using C by (rule mod_less_divisor)
  ultimately show "ring_read (ring_write b w xs) pos n ! i = ring_read b pos n ! i"
    using i by (simp add: ring_read_def ring_write_def)
qed simp

end
