(* ===== verification/Output_Queue.thy ===== *)
theory Output_Queue
  imports Envelope Ws_Framing Byte_Ring "HOL-Library.Sublist"
begin

section \<open>The bounded output queue of a session (\<open>src/wss/output_queue.zig\<close>)\<close>

text \<open>
  One byte ring and one ring of record descriptors, both allocated when the connection is set up.
  \<open>peek\<close> and \<open>consume\<close> hand the oldest record to the TLS driver piece by piece. The contract is that
  of a FIFO of byte strings (\<open>byte_fifo\<close> below); \<open>queue_abs\<close> reads it off the two rings.
\<close>

datatype delivery = Reliable | EphemeralDelivery
datatype enqueue_outcome = Queued | Dropped
datatype queue_error = QueueFull | RecordTooLarge | InvalidRecord | InvalidCapacity

record entry =
  q_start :: nat
  q_len :: nat
  q_sent :: nat

definition entry_zero :: entry where
  "entry_zero = \<lparr>q_start = 0, q_len = 0, q_sent = 0\<rparr>"

record out_queue =
  q_bytes :: bytes
  q_entries :: "entry list"
  byte_write :: nat
  bytes_used :: nat
  entry_head :: nat
  entry_count :: nat

definition queue_init :: "nat \<Rightarrow> nat \<Rightarrow> queue_error + out_queue" where
  "queue_init byte_capacity record_capacity =
    (if byte_capacity = 0 \<or> record_capacity = 0 then Inl InvalidCapacity
     else Inr \<lparr>q_bytes = replicate byte_capacity 0, q_entries = replicate record_capacity entry_zero,
               byte_write = 0, bytes_used = 0, entry_head = 0, entry_count = 0\<rparr>)"

definition hasCapacity :: "out_queue \<Rightarrow> nat \<Rightarrow> nat \<Rightarrow> bool" where
  "hasCapacity q byte_count record_count \<longleftrightarrow>
     byte_count \<le> length (q_bytes q) - bytes_used q \<and>
     record_count \<le> length (q_entries q) - entry_count q"

text \<open>
  The \<open>while\<close> loop of \<open>writeBytes\<close>. A turn with \<open>count = 0\<close> would repeat for ever; it is stopped here,
  and \<open>writeBytes_ring\<close> below rests on the write position being inside the array, where no such turn is.
\<close>

function writeBytes :: "out_queue \<Rightarrow> bytes \<Rightarrow> out_queue" where
  "writeBytes q rest =
    (let count = min (length rest) (length (q_bytes q) - byte_write q) in
     if count = 0 then q
     else writeBytes (q\<lparr>q_bytes := blit (q_bytes q) (byte_write q) (take count rest),
                        byte_write := (byte_write q + count) mod length (q_bytes q)\<rparr>)
            (drop count rest))"
  by pat_completeness auto
termination
  by (relation "measure (\<lambda>(q, rest). length rest)") auto

declare writeBytes.simps [simp del]

text \<open>
  The function asserts \<open>hasCapacity(total, 1)\<close>. The model has no branch for it because it holds at every
  call: \<open>enqueueRecord\<close>, \<open>enqueueRaw\<close> and \<open>enqueueControl\<close> call it in the branch that has just tested
  this condition on the same queue and the same total, and the two calls under \<open>enqueueDiscard\<close> are the
  lemma \<open>enqueueDiscard_asserts\<close>.
\<close>

definition enqueuePieces :: "out_queue \<Rightarrow> bytes list \<Rightarrow> nat \<Rightarrow> out_queue" where
  "enqueuePieces q pieces piece_total =
    (let entry_index = (entry_head q + entry_count q) mod length (q_entries q);
         q1 = q\<lparr>q_entries := (q_entries q)[entry_index := \<lparr>q_start = byte_write q, q_len = piece_total, q_sent = 0\<rparr>],
                entry_count := entry_count q + 1,
                bytes_used := bytes_used q + piece_total\<rparr>
     in foldl writeBytes q1 pieces)"

definition enqueueRecord :: "out_queue \<Rightarrow> wss_record \<Rightarrow> delivery \<Rightarrow> queue_error + enqueue_outcome \<times> out_queue" where
  "enqueueRecord q r d =
    (case encodeServerHeader OpBinary True (env_header_size + length (payload r)) of
       Inl _ \<Rightarrow> Inl InvalidRecord
     | Inr ws_head \<Rightarrow>
       (case encodeHeader r of Inl _ \<Rightarrow> Inl InvalidRecord
        | Inr record_header \<Rightarrow>
          let total = length ws_head + length record_header + length (payload r) in
          if length (q_bytes q) < total
            then (if d = EphemeralDelivery then Inr (Dropped, q) else Inl RecordTooLarge)
          else if \<not> hasCapacity q total 1
            then (if d = EphemeralDelivery then Inr (Dropped, q) else Inl QueueFull)
          else Inr (Queued, enqueuePieces q [ws_head, record_header, payload r] total)))"

definition enqueueRaw :: "out_queue \<Rightarrow> bytes \<Rightarrow> queue_error + out_queue" where
  "enqueueRaw q xs =
    (if length (q_bytes q) < length xs then Inl RecordTooLarge
     else if \<not> hasCapacity q (length xs) 1 then Inl QueueFull
     else Inr (enqueuePieces q [xs] (length xs)))"

text \<open>\<open>catch unreachable\<close> is the value \<open>None\<close>: a panic of the running program.\<close>

definition enqueueRecordUnchecked :: "out_queue \<Rightarrow> wss_record \<Rightarrow> out_queue option" where
  "enqueueRecordUnchecked q r =
    (let message_len = env_header_size + length (payload r) in
     case encodeServerHeader OpBinary True message_len of Inl _ \<Rightarrow> None
     | Inr ws_head \<Rightarrow>
       (case encodeHeader r of Inl _ \<Rightarrow> None
        | Inr record_header \<Rightarrow>
          Some (enqueuePieces q [ws_head, record_header, payload r] (length ws_head + message_len))))"

definition encodedRecordSize :: "wss_record \<Rightarrow> queue_error + nat" where
  "encodedRecordSize r =
    (case env_validate r of Inl _ \<Rightarrow> Inl InvalidRecord
     | Inr _ \<Rightarrow>
       let message_len = env_header_size + length (payload r) in
       (case encodeServerHeader OpBinary True message_len of Inl _ \<Rightarrow> Inl InvalidRecord
        | Inr ws_header \<Rightarrow> Inr (length ws_header + message_len)))"

definition control_record :: "record_type \<Rightarrow> u64 \<Rightarrow> u32 \<Rightarrow> wss_record" where
  "control_record rt sid code =
     \<lparr>record_type = rt, fin = False, stream_id = sid, app_error_code = code, payload = []\<rparr>"

definition enqueueDiscard :: "out_queue \<Rightarrow> u64 \<Rightarrow> u32 \<Rightarrow> queue_error + out_queue option" where
  "enqueueDiscard q sid code =
    (let reset = control_record RtReset sid code; stop = control_record RtStop sid code in
     case encodedRecordSize reset of Inl _ \<Rightarrow> Inl InvalidRecord
     | Inr first_len \<Rightarrow>
       (case encodedRecordSize stop of Inl _ \<Rightarrow> Inl InvalidRecord
        | Inr second_len \<Rightarrow>
          if \<not> hasCapacity q (first_len + second_len) 2 then Inl QueueFull
          else Inr (case enqueueRecordUnchecked q reset of None \<Rightarrow> None
                    | Some q1 \<Rightarrow> enqueueRecordUnchecked q1 stop)))"

definition enqueueControl :: "out_queue \<Rightarrow> opcode \<Rightarrow> bytes \<Rightarrow> queue_error + out_queue" where
  "enqueueControl q oc xs =
    (case encodeServerHeader oc True (length xs) of Inl _ \<Rightarrow> Inl InvalidRecord
     | Inr head \<Rightarrow>
       let total = length head + length xs in
       if length (q_bytes q) < total then Inl RecordTooLarge
       else if \<not> hasCapacity q total 1 then Inl QueueFull
       else Inr (enqueuePieces q [head, xs] total))"

definition queue_peek :: "out_queue \<Rightarrow> bytes option" where
  "queue_peek q =
    (if entry_count q = 0 then None
     else let e = q_entries q ! entry_head q;
              position = (q_start e + q_sent e) mod length (q_bytes q);
              remaining = q_len e - q_sent e
          in Some (seg position (min remaining (length (q_bytes q) - position)) (q_bytes q)))"

text \<open>\<open>consume\<close> asserts its argument; a failed assertion is \<open>None\<close>.\<close>

definition queue_consume :: "out_queue \<Rightarrow> nat \<Rightarrow> out_queue option" where
  "queue_consume q count = (case queue_peek q of None \<Rightarrow> Some q
     | Some available \<Rightarrow>
       if length available < count then None
       else let e = q_entries q ! entry_head q;
                e1 = e\<lparr>q_sent := q_sent e + count\<rparr>;
                q1 = q\<lparr>bytes_used := bytes_used q - count\<rparr>
            in if q_sent e1 = q_len e1
               then Some (q1\<lparr>q_entries := (q_entries q)[entry_head q := entry_zero],
                             entry_head := (entry_head q + 1) mod length (q_entries q),
                             entry_count := entry_count q - 1\<rparr>)
               else Some (q1\<lparr>q_entries := (q_entries q)[entry_head q := e1]\<rparr>))"

definition queuedBytes :: "out_queue \<Rightarrow> nat" where "queuedBytes q = bytes_used q"
definition queuedRecords :: "out_queue \<Rightarrow> nat" where "queuedRecords q = entry_count q"

subsection \<open>Writing into the ring\<close>

text \<open>The loop of \<open>writeBytes\<close> is one cyclic write, and so are all the pieces of a record together.\<close>

lemma writeBytes_ring:
  assumes "byte_write q < length (q_bytes q)" "length xs \<le> length (q_bytes q)"
  shows "writeBytes q xs = q\<lparr>q_bytes := ring_write (q_bytes q) (byte_write q) xs,
                             byte_write := (byte_write q + length xs) mod length (q_bytes q)\<rparr>"
  using assms
proof (induction q xs rule: writeBytes.induct)
  case (1 q rest)
  let ?C = "length (q_bytes q)" and ?w = "byte_write q"
  define count where "count = min (length rest) (?C - ?w)"
  show ?case
  proof (cases "count = 0")
    case True
    then have "rest = []" using 1(2) by (auto simp: count_def min_def split: if_splits)
    then show ?thesis using 1(2) by (simp add: writeBytes.simps [of q])
  next
    case False
    define q1 where "q1 = q\<lparr>q_bytes := blit (q_bytes q) ?w (take count rest),
                        byte_write := (?w + count) mod ?C\<rparr>"
    have lt: "length (take count rest) = count" by (simp add: count_def)
    have fits: "?w + count \<le> ?C" using 1(2) by (auto simp: count_def)
    have bl: "blit (q_bytes q) ?w (take count rest) = ring_write (q_bytes q) ?w (take count rest)"
      using 1(2) fits lt by (intro ring_write_contig [symmetric]) auto
    have C: "0 < ?C" using 1(2) by linarith
    have rec: "writeBytes q rest = writeBytes q1 (drop count rest)"
      using False by (subst writeBytes.simps) (simp only: Let_def q1_def count_def [symmetric] if_False)
    have IH: "writeBytes q1 (drop count rest) =
      q1\<lparr>q_bytes := ring_write (q_bytes q1) (byte_write q1) (drop count rest),
         byte_write := (byte_write q1 + length (drop count rest)) mod length (q_bytes q1)\<rparr>"
    proof (rule 1(1) [OF count_def False, folded q1_def])
      show "byte_write q1 < length (q_bytes q1)"
        using C fits lt by (simp add: q1_def bl)
      show "length (drop count rest) \<le> length (q_bytes q1)"
        using 1(3) by (simp add: q1_def bl)
    qed
    have len: "(?w + count) mod ?C + (length rest - count) = (?w + count) mod ?C + length (drop count rest)"
      "count + length (drop count rest) = length rest" by (simp_all add: count_def)
    have wm: "((?w + count) mod ?C + length (drop count rest)) mod ?C = (?w + length rest) mod ?C"
      using len(2) by (metis add.assoc mod_add_left_eq)
    show ?thesis
    proof (cases "count < ?C")
      case True
      have "ring_write (ring_write (q_bytes q) ?w (take count rest)) ((?w + count) mod ?C) (drop count rest)
          = ring_write (q_bytes q) ?w rest"
        using ring_write_append [of ?w "q_bytes q" "take count rest" "drop count rest"] 1(2,3) lt len True
        by simp
      then show ?thesis
        unfolding rec IH using wm by (simp add: q1_def bl del: length_drop)
    next
      case False
      then have "drop count rest = []" "take count rest = rest" "count = length rest" using 1(3) lt by auto
      then show ?thesis
        unfolding rec IH using C bl by (simp add: q1_def)
    qed
  qed
qed

lemma foldl_writeBytes_ring:
  assumes "byte_write q < length (q_bytes q)" "length (concat xss) \<le> length (q_bytes q)"
  shows "foldl writeBytes q xss = q\<lparr>q_bytes := ring_write (q_bytes q) (byte_write q) (concat xss),
                             byte_write := (byte_write q + length (concat xss)) mod length (q_bytes q)\<rparr>"
  using assms
proof (induction xss arbitrary: q)
  case Nil
  then show ?case by simp
next
  case (Cons xs xss)
  let ?C = "length (q_bytes q)" and ?w = "byte_write q"
  have C: "0 < ?C" using Cons.prems by linarith
  have one: "writeBytes q xs = q\<lparr>q_bytes := ring_write (q_bytes q) ?w xs, byte_write := (?w + length xs) mod ?C\<rparr>"
    using Cons.prems by (intro writeBytes_ring) auto
  show ?case
  proof (cases "length xs < ?C")
    case True
    then show ?thesis
      using Cons.prems Cons.IH [of "writeBytes q xs"] C ring_write_append [of ?w "q_bytes q" xs "concat xss"]
      by (simp add: one mod_add_left_eq add.assoc)
  next
    case False
    have "length xs + length (concat xss) \<le> ?C" using Cons.prems(2) by simp
    with False have "length (concat xss) = 0" by linarith
    then have "concat xss = []" by (rule length_0_conv [THEN iffD1])
    then show ?thesis
      using Cons.prems Cons.IH [of "writeBytes q xs"] C by (simp add: one del: concat_eq_Nil_conv)
  qed
qed

subsection \<open>The abstraction: a FIFO of byte strings\<close>

definition live :: "out_queue \<Rightarrow> entry list" where
  "live q = ring_read (q_entries q) (entry_head q) (entry_count q)"

definition rem_len :: "entry \<Rightarrow> nat" where
  "rem_len e = q_len e - q_sent e"

definition entry_data :: "bytes \<Rightarrow> entry \<Rightarrow> bytes" where
  "entry_data b e = ring_read b (q_start e + q_sent e) (rem_len e)"

definition queue_abs :: "out_queue \<Rightarrow> bytes list" where
  "queue_abs q = map (entry_data (q_bytes q)) (live q)"

text \<open>\<open>chain C pos es w\<close>: the unsent parts of \<open>es\<close> lie one after the other from \<open>pos\<close> to \<open>w\<close>.\<close>

fun chain :: "nat \<Rightarrow> nat \<Rightarrow> entry list \<Rightarrow> nat \<Rightarrow> bool" where
  "chain C pos [] w \<longleftrightarrow> pos mod C = w mod C"
| "chain C pos (e # es) w \<longleftrightarrow>
     (q_start e + q_sent e) mod C = pos mod C \<and> q_sent e \<le> q_len e \<and> chain C (pos + rem_len e) es w"

definition queue_inv :: "out_queue \<Rightarrow> bool" where
  "queue_inv q \<longleftrightarrow>
     byte_write q < length (q_bytes q) \<and> entry_head q < length (q_entries q) \<and>
     entry_count q \<le> length (q_entries q) \<and> bytes_used q \<le> length (q_bytes q) \<and>
     bytes_used q = sum_list (map rem_len (live q)) \<and>
     chain (length (q_bytes q)) (byte_write q + length (q_bytes q) - bytes_used q) (live q) (byte_write q)"

lemma chain_mod: "chain C pos es w \<Longrightarrow> pos mod C = pos' mod C \<Longrightarrow> chain C pos' es w"
proof (induction es arbitrary: pos pos')
  case Nil
  then show ?case by simp
next
  case (Cons e es)
  from Cons.prems(2) have "(pos + rem_len e) mod C = (pos' + rem_len e) mod C"
    by (metis mod_add_left_eq)
  with Cons show ?case by auto
qed

lemma chain_append:
  "chain C pos es w \<Longrightarrow> chain C (pos + sum_list (map rem_len es)) fs w' \<Longrightarrow> chain C pos (es @ fs) w'"
  by (induction es arbitrary: pos) (auto simp: add.assoc)

lemma chain_end: "chain C pos es w \<Longrightarrow> (pos + sum_list (map rem_len es)) mod C = w mod C"
proof (induction es arbitrary: pos)
  case (Cons e es)
  then show ?case using Cons.IH [of "pos + rem_len e"] by (simp add: add.assoc)
qed simp

text \<open>A write at \<open>w\<close> that fits beside the unsent parts leaves their bytes alone.\<close>

lemma chain_data:
  assumes "chain (length b) pos es w" "w < length b" "sum_list (map rem_len es) + length xs \<le> length b"
  shows "map (entry_data (ring_write b w xs)) es = map (entry_data b) es"
  using assms
proof (induction es arbitrary: pos)
  case Nil
  then show ?case by simp
next
  case (Cons e es)
  let ?p = "q_start e + q_sent e" and ?t = "sum_list (map rem_len (e # es))"
  have p: "?p mod length b = pos mod length b" using Cons.prems by simp
  have "(?p + ?t) mod length b = (pos + ?t) mod length b"
    using p by (metis mod_add_left_eq)
  also have "\<dots> = w" using chain_end [OF Cons.prems(1)] Cons.prems(2) by simp
  finally have "ring_read (ring_write b w xs) ?p ?t = ring_read b ?p ?t"
    using Cons.prems by (intro ring_read_write_before) auto
  then have "take (rem_len e) (ring_read (ring_write b w xs) ?p ?t) = take (rem_len e) (ring_read b ?p ?t)"
    by simp
  then have "entry_data (ring_write b w xs) e = entry_data b e"
    by (simp add: take_ring_read entry_data_def)
  moreover have "map (entry_data (ring_write b w xs)) es = map (entry_data b) es"
    using Cons.prems Cons.IH [of "pos + rem_len e"] by simp
  ultimately show ?case by simp
qed

lemma queue_init_inv [inv_intros]:
  "queue_init bc rc = Inr q \<Longrightarrow> queue_inv q \<and> queue_abs q = []"
  by (auto simp: queue_init_def queue_inv_def queue_abs_def live_def ring_read_def split: if_splits)

lemma enqueuePieces_refines:
  assumes inv: "queue_inv q" and cap: "hasCapacity q (length (concat pieces)) 1"
  defines "q' \<equiv> enqueuePieces q pieces (length (concat pieces))"
  shows "queue_inv q' \<and> queue_abs q' = queue_abs q @ [concat pieces]
    \<and> length (q_bytes q') = length (q_bytes q) \<and> length (q_entries q') = length (q_entries q)
    \<and> bytes_used q' = bytes_used q + length (concat pieces) \<and> entry_count q' = entry_count q + 1"
proof -
  let ?xs = "concat pieces" and ?C = "length (q_bytes q)" and ?n = "length (q_entries q)"
  let ?i = "(entry_head q + entry_count q) mod ?n" and ?w = "byte_write q"
  let ?e = "\<lparr>q_start = ?w, q_len = length ?xs, q_sent = 0\<rparr>"
  have facts: "?w < ?C" "entry_head q < ?n" "entry_count q \<le> ?n" "bytes_used q \<le> ?C"
    "bytes_used q = sum_list (map rem_len (live q))"
    "chain ?C (?w + ?C - bytes_used q) (live q) ?w"
    using inv by (auto simp: queue_inv_def)
  have fit: "bytes_used q + length ?xs \<le> ?C" "entry_count q + 1 \<le> ?n"
    using cap facts by (auto simp: hasCapacity_def)
  have i: "?i < ?n" using facts by (intro mod_less_divisor) linarith
  have q': "q' = q\<lparr>q_entries := ring_write (q_entries q) ?i [?e], entry_count := entry_count q + 1,
      bytes_used := bytes_used q + length ?xs, q_bytes := ring_write (q_bytes q) ?w ?xs,
      byte_write := (?w + length ?xs) mod ?C\<rparr>"
  proof -
    have "(q_entries q)[?i := ?e] = blit (q_entries q) ?i [?e]"
      using i by (simp add: blit_def upd_conv_take_nth_drop)
    also have "\<dots> = ring_write (q_entries q) ?i [?e]"
      using i by (intro ring_write_contig [symmetric]) auto
    finally show ?thesis
      unfolding q'_def enqueuePieces_def Let_def
      using facts fit by (subst foldl_writeBytes_ring) auto
  qed
  have live': "live q' = live q @ [?e]"
  proof -
    have "ring_read (ring_write (q_entries q) ?i [?e]) (entry_head q) (entry_count q) = live q"
      unfolding live_def using i fit by (intro ring_read_write_before) auto
    moreover have "ring_read (ring_write (q_entries q) ?i [?e]) ?i 1 = [?e]"
      using ring_read_write_same [of ?i "q_entries q" "[?e]"] i by simp
    moreover have "ring_read (ring_write (q_entries q) ?i [?e]) (entry_head q + entry_count q) 1
        = ring_read (ring_write (q_entries q) ?i [?e]) ?i 1"
      using ring_read_mod [of "ring_write (q_entries q) ?i [?e]" "entry_head q + entry_count q" 1] by simp
    moreover have "live q' = ring_read (ring_write (q_entries q) ?i [?e]) (entry_head q) (entry_count q + 1)"
      by (simp add: live_def q')
    ultimately show ?thesis by (simp only: ring_read_add)
  qed
  have sum': "sum_list (map rem_len (live q')) = bytes_used q + length ?xs"
    using facts(5) by (simp add: live' rem_len_def)
  have start: "((?w + length ?xs) mod ?C + ?C - (bytes_used q + length ?xs)) mod ?C = (?w + ?C - bytes_used q) mod ?C"
  proof (rule mod_add_cancel_nat)
    show "((?w + length ?xs) mod ?C + ?C - (bytes_used q + length ?xs) + (bytes_used q + length ?xs)) mod ?C
        = (?w + ?C - bytes_used q + (bytes_used q + length ?xs)) mod ?C"
    proof -
      have a: "(?w + length ?xs) mod ?C + ?C - (bytes_used q + length ?xs) + (bytes_used q + length ?xs)
          = (?w + length ?xs) mod ?C + ?C" using fit(1) by linarith
      have b: "?w + ?C - bytes_used q + (bytes_used q + length ?xs) = (?w + length ?xs) + ?C"
        using fit(1) by linarith
      show ?thesis unfolding a b by (simp only: mod_add_self2 mod_mod_trivial)
    qed
  qed
  have "chain ?C (?w + ?C - bytes_used q) (live q') (?w + length ?xs)"
    unfolding live'
  proof (rule chain_append)
    show "chain ?C (?w + ?C - bytes_used q) (live q) ?w" by (rule facts(6))
    show "chain ?C (?w + ?C - bytes_used q + sum_list (map rem_len (live q))) [?e] (?w + length ?xs)"
    proof -
      have "?w + ?C - bytes_used q + sum_list (map rem_len (live q)) = ?w + ?C"
        using facts(4,5) by linarith
      moreover have "chain ?C (?w + ?C) [?e] (?w + length ?xs)"
      proof -
        have "(?w + ?C + length ?xs) mod ?C = (?w + length ?xs + ?C) mod ?C" by (simp only: ac_simps)
        then show ?thesis by (simp add: rem_len_def del: add.assoc)
      qed
      ultimately show ?thesis by (simp only:)
    qed
  qed
  moreover have "chain C p es ((?w + length ?xs) mod C)" if "chain C p es (?w + length ?xs)" for C p es
    using that by (induction es arbitrary: p) auto
  ultimately have ch: "chain ?C ((?w + length ?xs) mod ?C + ?C - (bytes_used q + length ?xs)) (live q')
      ((?w + length ?xs) mod ?C)"
    using start by (metis chain_mod)
  have data: "queue_abs q' = queue_abs q @ [?xs]"
  proof -
    have "map (entry_data (ring_write (q_bytes q) ?w ?xs)) (live q) = map (entry_data (q_bytes q)) (live q)"
      using facts fit by (intro chain_data) auto
    moreover have "entry_data (ring_write (q_bytes q) ?w ?xs) ?e = ?xs"
      using facts fit by (simp add: entry_data_def rem_len_def ring_read_write_same)
    ultimately show ?thesis
      unfolding queue_abs_def live' by (simp add: q')
  qed
  have C: "0 < ?C" using facts by linarith
  have "queue_inv q'"
    unfolding queue_inv_def sum' using facts fit ch C by (simp add: q')
  then show ?thesis using data by (simp add: q')
qed

text \<open>Taking bytes off the front.\<close>

lemma live_Cons: "entry_count q = Suc k \<Longrightarrow> entry_head q < length (q_entries q) \<Longrightarrow>
    live q = q_entries q ! entry_head q # ring_read (q_entries q) (entry_head q + 1) k"
  using ring_read_add [of "q_entries q" "entry_head q" 1 k] by (simp add: live_def ring_read_def)

lemma queue_abs_Nil_iff: "queue_abs q = [] \<longleftrightarrow> entry_count q = 0"
  by (simp add: queue_abs_def live_def ring_read_def)

lemma queue_peek_None_iff: "queue_peek q = None \<longleftrightarrow> queue_abs q = []"
  by (simp add: queue_peek_def queue_abs_Nil_iff Let_def)

lemma queue_peek_prefix:
  assumes inv: "queue_inv q" and ab: "queue_abs q = x # xs"
  shows "\<exists>c. queue_peek q = Some c \<and> prefix c x \<and> (x \<noteq> [] \<longrightarrow> c \<noteq> [])"
proof -
  let ?C = "length (q_bytes q)"
  obtain k where k: "entry_count q = Suc k"
    using ab queue_abs_Nil_iff [of q] by (cases "entry_count q") auto
  define e where "e = q_entries q ! entry_head q"
  define pos where "pos = (q_start e + q_sent e) mod ?C"
  define c where "c = seg pos (min (rem_len e) (?C - pos)) (q_bytes q)"
  have C: "0 < ?C" and h: "entry_head q < length (q_entries q)" using inv by (auto simp: queue_inv_def)
  have pos: "pos < ?C" using C by (simp add: pos_def)
  have x: "x = ring_read (q_bytes q) pos (rem_len e)"
    using ab live_Cons [OF k h] by (simp add: queue_abs_def entry_data_def e_def pos_def ring_read_mod)
  have "c = ring_read (q_bytes q) pos (min (rem_len e) (?C - pos))"
    unfolding c_def seg_def using pos by (intro ring_read_contig [symmetric]) auto
  also have "\<dots> = take (min (rem_len e) (?C - pos)) x"
    by (simp add: x take_ring_read)
  finally have c: "c = take (min (rem_len e) (?C - pos)) x" .
  have "queue_peek q = Some c"
    using k by (simp add: queue_peek_def Let_def e_def [symmetric] pos_def [symmetric] c_def rem_len_def)
  moreover have "prefix c x" unfolding c by (rule take_is_prefix)
  moreover have "x \<noteq> [] \<longrightarrow> c \<noteq> []"
    using pos x by (auto simp: c ring_read_def)
  ultimately show ?thesis by blast
qed

lemma ring_read_upd_after:
  assumes "i < length b" "n < length b"
  shows "ring_read (b[i := v]) (i + 1) n = ring_read b (i + 1) n"
proof (rule nth_equalityI)
  fix j assume "j < length (ring_read (b[i := v]) (i + 1) n)"
  then have j: "j < n" by simp
  have "cyc (length b) i ((i + (1 + j)) mod length b) = 1 + j"
    using assms j by (intro cyc_add) auto
  moreover have "cyc (length b) i i = 0" using assms by (simp add: cyc_def)
  ultimately have "(i + 1 + j) mod length b \<noteq> i" by (metis add.assoc add_is_0 one_neq_zero)
  then show "ring_read (b[i := v]) (i + 1) n ! j = ring_read b (i + 1) n ! j"
    using j by (simp add: ring_read_def)
qed simp

lemma queue_consume_refines:
  assumes inv: "queue_inv q" and pk: "queue_peek q = Some c" and n: "n \<le> length c"
    and ab: "queue_abs q = x # xs"
  shows "\<exists>q'. queue_consume q n = Some q' \<and> queue_inv q'
    \<and> queue_abs q' = (if n = length x then xs else drop n x # xs)
    \<and> length (q_bytes q') = length (q_bytes q) \<and> length (q_entries q') = length (q_entries q)"
proof -
  let ?C = "length (q_bytes q)" and ?n = "length (q_entries q)"
  obtain k where k: "entry_count q = Suc k"
    using ab queue_abs_Nil_iff [of q] by (cases "entry_count q") auto
  define e where "e = q_entries q ! entry_head q"
  define rest where "rest = ring_read (q_entries q) (entry_head q + 1) k"
  have facts: "byte_write q < ?C" "entry_head q < ?n" "entry_count q \<le> ?n" "bytes_used q \<le> ?C"
    "bytes_used q = sum_list (map rem_len (live q))"
    "chain ?C (byte_write q + ?C - bytes_used q) (live q) (byte_write q)"
    using inv by (auto simp: queue_inv_def)
  have lv: "live q = e # rest" using live_Cons [OF k facts(2)] by (simp add: e_def rest_def)
  have x: "x = entry_data (q_bytes q) e" "xs = map (entry_data (q_bytes q)) rest"
    using ab by (simp_all add: queue_abs_def lv)
  have lenx: "length x = rem_len e" by (simp add: x entry_data_def)
  have nx: "n \<le> rem_len e"
    using queue_peek_prefix [OF inv ab] pk n lenx by (auto dest: prefix_length_le)
  have sent: "q_sent e \<le> q_len e" and e0: "(q_start e + q_sent e) mod ?C = (byte_write q + ?C - bytes_used q) mod ?C"
    using facts(6) by (auto simp: lv)
  have used: "bytes_used q = rem_len e + sum_list (map rem_len rest)" using facts(5) by (simp add: lv)
  have chain_rest: "chain ?C (byte_write q + ?C - bytes_used q + rem_len e) rest (byte_write q)"
    using facts(6) by (simp add: lv)
  have upd: "ring_read ((q_entries q)[entry_head q := v]) (entry_head q + 1) k = rest" for v
    unfolding rest_def using facts k by (intro ring_read_upd_after) auto
  show ?thesis
  proof (cases "n = rem_len e")
    case True
    define q' where "q' = q\<lparr>bytes_used := bytes_used q - n,
      q_entries := (q_entries q)[entry_head q := entry_zero],
      entry_head := (entry_head q + 1) mod ?n, entry_count := entry_count q - 1\<rparr>"
    have cons: "queue_consume q n = Some q'"
      using pk n True sent by (simp add: queue_consume_def Let_def e_def [symmetric] q'_def rem_len_def)
    have "ring_read ((q_entries q)[entry_head q := entry_zero]) ((entry_head q + 1) mod ?n) k = rest"
      using upd [of entry_zero] ring_read_mod [of "(q_entries q)[entry_head q := entry_zero]" "entry_head q + 1" k]
      by simp
    then have lv': "live q' = rest" using k by (simp add: live_def q'_def)
    have pos: "byte_write q + ?C - bytes_used q + rem_len e = byte_write q + ?C - (bytes_used q - n)"
      using True used facts(4) by linarith
    have left: "bytes_used q - n = sum_list (map rem_len rest)" using used True by linarith
    have le: "bytes_used q - n \<le> ?C" "entry_count q - 1 \<le> ?n" using facts(3,4) by linarith+
    have "0 < ?n" using facts by linarith
    then have "queue_inv q'"
      unfolding queue_inv_def lv' using facts(1) chain_rest [unfolded pos] le left
      by (simp add: q'_def)
    moreover have "queue_abs q' = xs" by (simp add: queue_abs_def lv' x) (simp add: q'_def)
    ultimately show ?thesis using cons True lenx by (simp add: q'_def)
  next
    case False
    let ?e1 = "e\<lparr>q_sent := q_sent e + n\<rparr>"
    define q' where "q' = q\<lparr>bytes_used := bytes_used q - n, q_entries := (q_entries q)[entry_head q := ?e1]\<rparr>"
    have cons: "queue_consume q n = Some q'"
      using pk n False sent by (auto simp: queue_consume_def Let_def e_def [symmetric] q'_def rem_len_def)
    have rem1: "rem_len ?e1 = rem_len e - n" by (simp add: rem_len_def)
    have lv': "live q' = ?e1 # rest"
      using live_Cons [of q' k] k facts(2) upd by (simp add: q'_def)
    have pos: "byte_write q + ?C - (bytes_used q - n) = byte_write q + ?C - bytes_used q + n"
      using used nx facts(4) by linarith
    have pos2: "byte_write q + ?C - bytes_used q + n + rem_len ?e1 = byte_write q + ?C - bytes_used q + rem_len e"
      using nx rem1 by linarith
    have e1: "(q_start e + (q_sent e + n)) mod ?C = (byte_write q + ?C - bytes_used q + n) mod ?C"
      using e0 by (metis add.assoc mod_add_left_eq)
    have sent1: "q_sent e + n \<le> q_len e" using nx sent by (simp add: rem_len_def)
    have "chain ?C (byte_write q + ?C - (bytes_used q - n)) (?e1 # rest) (byte_write q)"
      unfolding pos chain.simps pos2 using e1 sent1 chain_rest by simp
    then have "queue_inv q'"
      unfolding queue_inv_def lv' using facts used nx rem1 by (simp add: q'_def)
    moreover have "entry_data (q_bytes q) ?e1 = drop n x"
      using nx by (simp add: x entry_data_def rem1 drop_ring_read add.assoc)
    ultimately show ?thesis using cons False lenx by (simp add: q'_def queue_abs_def lv' [unfolded q'_def] x)
  qed
qed

subsection \<open>Records, control frames and the discard pair\<close>

text \<open>The WebSocket message that carries one record, as the gateway sends it.\<close>

definition ws_header :: "opcode \<Rightarrow> nat \<Rightarrow> bytes" where
  "ws_header oc n = [0x80 OR opcode_code oc, ws_len7 n] @ ws_len_ext n"

definition record_wire :: "wss_record \<Rightarrow> bytes" where
  "record_wire r = ws_header OpBinary (20 + length (payload r)) @ env_header r @ payload r"

lemma encodeServerHeader_eq:
  "\<not> isControl oc \<or> n \<le> 125 \<Longrightarrow> encodeServerHeader oc True n = Inr (ws_header oc n)"
  by (auto simp: encodeServerHeader_def ws_header_def ws_len7_def ws_len_ext_def Let_def)

lemma encodeServerHeader_control:
  "encodeServerHeader oc True n = (if isControl oc \<and> 125 < n then Inl WsInvalidControlPayload
     else Inr (ws_header oc n))"
  using encodeServerHeader_eq [of oc n] by (auto simp: encodeServerHeader_def)

lemma length_ws_header: "length (ws_header oc n) = (if n \<le> 125 then 2 else if n \<le> 65535 then 4 else 10)"
  by (auto simp: ws_header_def ws_len_ext_def)

lemma length_record_wire: "length (record_wire r) = length (ws_header OpBinary (20 + length (payload r))) + 20 + length (payload r)"
  by (simp add: record_wire_def)

lemma enqueueRecord_eq:
  "enqueueRecord q r d =
    (if \<not> env_ok r then Inl InvalidRecord
     else if length (q_bytes q) < length (record_wire r)
       then (if d = EphemeralDelivery then Inr (Dropped, q) else Inl RecordTooLarge)
     else if \<not> hasCapacity q (length (record_wire r)) 1
       then (if d = EphemeralDelivery then Inr (Dropped, q) else Inl QueueFull)
     else Inr (Queued, enqueuePieces q [ws_header OpBinary (20 + length (payload r)), env_header r, payload r]
                 (length (record_wire r))))"
proof (cases "encodeHeader r")
  case (Inl e)
  then have "\<not> env_ok r" using encodeHeader_eq by force
  then show ?thesis using Inl by (simp add: enqueueRecord_def encodeServerHeader_eq)
next
  case (Inr h)
  then have "env_ok r" "h = env_header r" by (simp_all add: encodeHeader_Inr)
  then show ?thesis
    using Inr by (simp add: enqueueRecord_def encodeServerHeader_eq env_header_size_def Let_def
        length_record_wire add.assoc)
qed

lemma enqueueRecord_refines:
  assumes "queue_inv q" "enqueueRecord q r d = Inr (oc, q')"
  shows "queue_inv q' \<and> (oc = Queued \<longrightarrow> env_ok r \<and> queue_abs q' = queue_abs q @ [record_wire r])
    \<and> (oc = Dropped \<longrightarrow> d = EphemeralDelivery \<and> q' = q)"
  using assms
    enqueuePieces_refines [of q "[ws_header OpBinary (20 + length (payload r)), env_header r, payload r]"]
  by (auto simp: enqueueRecord_eq record_wire_def split: if_splits)

lemma enqueueControl_refines:
  assumes "queue_inv q" "enqueueControl q oc xs = Inr q'"
  shows "queue_inv q' \<and> queue_abs q' = queue_abs q @ [ws_header oc (length xs) @ xs]"
  using assms enqueuePieces_refines [of q "[ws_header oc (length xs), xs]"]
  by (auto simp: enqueueControl_def encodeServerHeader_control Let_def split: if_splits)

lemma control_record_ok: "rt = RtReset \<or> rt = RtStop \<Longrightarrow> env_ok (control_record rt sid code)"
  by (auto simp: env_ok_def env_validate_def control_record_def)

lemma length_control_wire [simp]: "length (record_wire (control_record rt sid code)) = 22"
  by (simp add: record_wire_def length_ws_header control_record_def)

lemma encodedRecordSize_control:
  "rt = RtReset \<or> rt = RtStop \<Longrightarrow> encodedRecordSize (control_record rt sid code) = Inr 22"
  by (auto simp: encodedRecordSize_def env_validate_def control_record_def encodeServerHeader_eq
      env_header_size_def length_ws_header)

lemma enqueueRecordUnchecked_refines:
  assumes "queue_inv q" "hasCapacity q (length (record_wire r)) 1" "env_ok r"
  shows "\<exists>q'. enqueueRecordUnchecked q r = Some q' \<and> queue_inv q' \<and> queue_abs q' = queue_abs q @ [record_wire r]
    \<and> length (q_bytes q') = length (q_bytes q) \<and> length (q_entries q') = length (q_entries q)
    \<and> bytes_used q' = bytes_used q + length (record_wire r) \<and> entry_count q' = entry_count q + 1"
proof -
  let ?p = "[ws_header OpBinary (20 + length (payload r)), env_header r, payload r]"
  have w: "concat ?p = record_wire r" by (simp add: record_wire_def)
  have "enqueueRecordUnchecked q r = Some (enqueuePieces q ?p (length (record_wire r)))"
    using encodeHeader_eq [OF assms(3)]
    by (simp add: enqueueRecordUnchecked_def encodeServerHeader_eq env_header_size_def length_record_wire add.assoc Let_def)
  then show ?thesis
    using enqueuePieces_refines [of q ?p] assms unfolding w by blast
qed

lemma enqueueRaw_refines:
  assumes "queue_inv q" "enqueueRaw q xs = Inr q'"
  shows "queue_inv q' \<and> queue_abs q' = queue_abs q @ [xs]"
  using assms enqueuePieces_refines [of q "[xs]"] by (auto simp: enqueueRaw_def split: if_splits)

lemma enqueueDiscard_eq:
  "enqueueDiscard q sid code =
    (if hasCapacity q 44 2
     then Inr (case enqueueRecordUnchecked q (control_record RtReset sid code) of None \<Rightarrow> None
               | Some q1 \<Rightarrow> enqueueRecordUnchecked q1 (control_record RtStop sid code))
     else Inl QueueFull)"
  by (simp add: enqueueDiscard_def encodedRecordSize_control Let_def)

lemma enqueueDiscard_asserts:
  assumes inv: "queue_inv q" and cap: "hasCapacity q 44 2"
  shows "hasCapacity q (length (record_wire (control_record RtReset sid code))) 1 \<and>
    (\<exists>q1. enqueueRecordUnchecked q (control_record RtReset sid code) = Some q1 \<and> queue_inv q1 \<and>
       queue_abs q1 = queue_abs q @ [record_wire (control_record RtReset sid code)] \<and>
       hasCapacity q1 (length (record_wire (control_record RtStop sid code))) 1)"
proof (intro conjI)
  let ?r = "control_record RtReset sid code"
  show "hasCapacity q (length (record_wire ?r)) 1" using cap by (simp add: hasCapacity_def)
  then obtain q1 where q1: "enqueueRecordUnchecked q ?r = Some q1" "queue_inv q1"
      "queue_abs q1 = queue_abs q @ [record_wire ?r]" "length (q_bytes q1) = length (q_bytes q)"
      "length (q_entries q1) = length (q_entries q)" "bytes_used q1 = bytes_used q + 22"
      "entry_count q1 = entry_count q + 1"
    using enqueueRecordUnchecked_refines [OF inv _ control_record_ok, of RtReset] by auto
  have "hasCapacity q1 (length (record_wire (control_record RtStop sid code))) 1"
    using cap unfolding hasCapacity_def length_control_wire q1(4-7) by (intro conjI; linarith)
  with q1 show "\<exists>q1. enqueueRecordUnchecked q ?r = Some q1 \<and> queue_inv q1 \<and>
      queue_abs q1 = queue_abs q @ [record_wire ?r] \<and>
      hasCapacity q1 (length (record_wire (control_record RtStop sid code))) 1" by blast
qed

lemma enqueueDiscard_refines:
  assumes inv: "queue_inv q" and cap: "hasCapacity q 44 2"
  shows "\<exists>q'. enqueueDiscard q sid code = Inr (Some q') \<and> queue_inv q' \<and>
    queue_abs q' = queue_abs q @ [record_wire (control_record RtReset sid code),
                                  record_wire (control_record RtStop sid code)]"
proof -
  obtain q1 where q1: "enqueueRecordUnchecked q (control_record RtReset sid code) = Some q1" "queue_inv q1"
      "queue_abs q1 = queue_abs q @ [record_wire (control_record RtReset sid code)]"
      "hasCapacity q1 (length (record_wire (control_record RtStop sid code))) 1"
    using enqueueDiscard_asserts [OF inv cap] by blast
  then obtain q2 where "enqueueRecordUnchecked q1 (control_record RtStop sid code) = Some q2" "queue_inv q2"
      "queue_abs q2 = queue_abs q1 @ [record_wire (control_record RtStop sid code)]"
    using enqueueRecordUnchecked_refines [OF q1(2) _ control_record_ok, of RtStop] by auto
  then show ?thesis using cap q1 by (simp add: enqueueDiscard_eq)
qed

subsection \<open>The queue is a FIFO\<close>

text \<open>Every request the connection makes of its queue, and the messages the queue accepts for it.\<close>

datatype queue_request =
    ReqRecord wss_record delivery | ReqRaw bytes | ReqControl opcode bytes | ReqDiscard u64 u32

definition queue_push :: "out_queue \<Rightarrow> queue_request \<Rightarrow> (bytes list \<times> out_queue) option" where
  "queue_push q req = (case req of
      ReqRecord r d \<Rightarrow> Some (case enqueueRecord q r d of
          Inl _ \<Rightarrow> ([], q) | Inr (Queued, q') \<Rightarrow> ([record_wire r], q') | Inr (Dropped, q') \<Rightarrow> ([], q'))
    | ReqRaw xs \<Rightarrow> Some (case enqueueRaw q xs of Inl _ \<Rightarrow> ([], q) | Inr q' \<Rightarrow> ([xs], q'))
    | ReqControl oc xs \<Rightarrow> Some (case enqueueControl q oc xs of
          Inl _ \<Rightarrow> ([], q) | Inr q' \<Rightarrow> ([ws_header oc (length xs) @ xs], q'))
    | ReqDiscard sid code \<Rightarrow> (case enqueueDiscard q sid code of
          Inl _ \<Rightarrow> Some ([], q)
        | Inr None \<Rightarrow> None
        | Inr (Some q') \<Rightarrow> Some ([record_wire (control_record RtReset sid code),
                                  record_wire (control_record RtStop sid code)], q')))"

lemma queue_push_refines:
  assumes inv: "queue_inv q"
  shows "\<exists>ys q'. queue_push q req = Some (ys, q') \<and> queue_inv q' \<and> queue_abs q' = queue_abs q @ ys"
proof (cases req)
  case (ReqRecord r d)
  then show ?thesis
    using inv enqueueRecord_refines [OF inv, of r d]
    by (auto simp: queue_push_def split: sum.split prod.split enqueue_outcome.split)
next
  case (ReqRaw xs)
  then show ?thesis
    using inv enqueueRaw_refines [OF inv, of xs] by (auto simp: queue_push_def split: sum.split)
next
  case (ReqControl oc xs)
  then show ?thesis
    using inv enqueueControl_refines [OF inv, of oc xs] by (auto simp: queue_push_def split: sum.split)
next
  case (ReqDiscard sid code)
  show ?thesis
  proof (cases "hasCapacity q 44 2")
    case True
    then show ?thesis using ReqDiscard enqueueDiscard_refines [OF inv True, of sid code]
      by (auto simp: queue_push_def)
  next
    case False
    then show ?thesis using ReqDiscard inv by (simp add: queue_push_def enqueueDiscard_eq)
  qed
qed

interpretation output_fifo: byte_fifo queue_inv queue_abs queue_peek queue_consume queue_push
proof unfold_locales
  fix q
  show "queue_peek q = None \<longleftrightarrow> queue_abs q = []" by (rule queue_peek_None_iff)
next
  fix q x xs
  assume "queue_inv q" "queue_abs q = x # xs"
  then show "\<exists>c rest. queue_peek q = Some c \<and> x = c @ rest \<and> (x \<noteq> [] \<longrightarrow> c \<noteq> [])"
    using queue_peek_prefix [of q x xs] by (auto elim: prefixE)
next
  fix q x xs c n
  assume "queue_inv q" "queue_abs q = x # xs" "queue_peek q = Some c" "n \<le> length c"
  then show "\<exists>q'. queue_consume q n = Some q' \<and> queue_inv q' \<and>
      queue_abs q' = (if n = length x then xs else drop n x # xs)"
    using queue_consume_refines [of q c n x xs] by blast
next
  fix q y
  assume "queue_inv q"
  then show "\<exists>ys q'. queue_push q y = Some (ys, q') \<and> queue_inv q' \<and> queue_abs q' = queue_abs q @ ys"
    by (rule queue_push_refines)
qed

subsection \<open>Properties\<close>

text \<open>C4: From a fresh queue, whatever requests and partial sends follow, no assertion of the queue
  fails, and the bytes of the accepted messages are the bytes sent so far followed by the bytes
  still queued: the byte ring never loses, repeats or reorders a byte, also across its end.\<close>

theorem queue_conserves_bytes:
  assumes "queue_init byte_capacity record_capacity = Inr q"
  shows "\<exists>acc sent q'. fifo_run queue_peek queue_consume queue_push es q = Some (acc, sent, q')
    \<and> acc = sent @ concat (queue_abs q') \<and> bytes_used q' = length (concat (queue_abs q'))
    \<and> bytes_used q' \<le> length (q_bytes q')"
proof -
  have inv: "queue_inv q" and e: "queue_abs q = []" using queue_init_inv [OF assms] by auto
  have "bytes_used q' = length (concat (queue_abs q'))" if "queue_inv q'" for q'
    using that by (simp add: queue_inv_def queue_abs_def length_concat o_def entry_data_def)
  moreover have "bytes_used q' \<le> length (q_bytes q')" if "queue_inv q'" for q'
    using that by (simp add: queue_inv_def)
  ultimately show ?thesis using output_fifo.run_conserves [OF inv, of es] e by fastforce
qed

theorem queue_conserves_bytes_witness:
  "\<exists>acc sent q'. fifo_run queue_peek queue_consume queue_push [Push (ReqDiscard 4 7), Sent 30, Push (ReqRaw [1, 2, 3])]
      \<lparr>q_bytes = replicate 64 0, q_entries = replicate 3 entry_zero, byte_write = 0, bytes_used = 0,
       entry_head = 0, entry_count = 0\<rparr> = Some (acc, sent, q')
    \<and> acc = sent @ concat (queue_abs q') \<and> bytes_used q' = length (concat (queue_abs q'))
    \<and> bytes_used q' \<le> length (q_bytes q')"
  by (rule queue_conserves_bytes [of 64 3]) (simp add: queue_init_def)

text \<open>C15: Sending piece by piece until \<open>peek\<close> has nothing more ends, within as many turns as there are
  bytes and records, and hands the driver every queued message in order.\<close>

theorem queue_drains:
  assumes "queue_inv q" "length (concat (queue_abs q)) + length (queue_abs q) < turns"
  shows "\<exists>q'. fifo_drain queue_peek queue_consume turns q = Some (concat (queue_abs q), q')
    \<and> queue_abs q' = []"
proof -
  have "sum_list (map (\<lambda>x. Suc (length x)) xs) = length (concat xs) + length xs" for xs :: "bytes list"
    by (induction xs) auto
  with assms output_fifo.drain_all [OF assms(1)] show ?thesis by auto
qed

theorem queue_drains_witness:
  "\<exists>q'. fifo_drain queue_peek queue_consume 5
      \<lparr>q_bytes = [3, 0, 1, 2], q_entries = [\<lparr>q_start = 2, q_len = 3, q_sent = 0\<rparr>], byte_write = 1, bytes_used = 3,
       entry_head = 0, entry_count = 1\<rparr> = Some ([1, 2, 3], q') \<and> queue_abs q' = []"
proof -
  let ?q = "\<lparr>q_bytes = [3, 0, 1, 2], q_entries = [\<lparr>q_start = 2, q_len = 3, q_sent = 0\<rparr>], byte_write = 1,
    bytes_used = 3, entry_head = 0, entry_count = 1\<rparr>"
  have l: "live ?q = [\<lparr>q_start = 2, q_len = 3, q_sent = 0\<rparr>]" by (simp add: live_def ring_read_def)
  have a: "queue_abs ?q = [[1, 2, 3]]"
    unfolding queue_abs_def l by (simp add: entry_data_def rem_len_def ring_read_def upt_rec)
  have "queue_inv ?q" unfolding queue_inv_def l by (simp add: rem_len_def)
  from queue_drains [OF this, of 5, unfolded a] show ?thesis by simp
qed

text \<open>RESET and STOP of a discarded exchange are queued together or not at all: with room for both
  they are appended in this order, with less room the call fails and the caller keeps its queue.\<close>

theorem discard_is_atomic:
  assumes "queue_inv q"
  shows "if 44 \<le> length (q_bytes q) - bytes_used q \<and> 2 \<le> length (q_entries q) - entry_count q
    then \<exists>q'. enqueueDiscard q sid code = Inr (Some q') \<and> queue_inv q' \<and>
         queue_abs q' = queue_abs q @ [record_wire (control_record RtReset sid code),
                                       record_wire (control_record RtStop sid code)]
    else enqueueDiscard q sid code = Inl QueueFull"
  using enqueueDiscard_refines [OF assms, of sid code]
  by (auto simp: hasCapacity_def enqueueDiscard_eq split: if_splits)

theorem discard_is_atomic_witness:
  "enqueueDiscard \<lparr>q_bytes = replicate 128 0, q_entries = [entry_zero], byte_write = 0, bytes_used = 0,
     entry_head = 0, entry_count = 0\<rparr> 4 7 = Inl QueueFull"
  using discard_is_atomic [of "\<lparr>q_bytes = replicate 128 0, q_entries = [entry_zero], byte_write = 0,
     bytes_used = 0, entry_head = 0, entry_count = 0\<rparr>" 4 7]
  by (simp add: queue_inv_def live_def ring_read_def)

text \<open>A valid reliable record is queued whole or refused with an error; an ephemeral one is queued
  whole or dropped without a trace, and never fails for want of room. Only an invalid record is an
  error for both.\<close>

theorem enqueue_record_outcomes:
  assumes "queue_inv q"
  shows "case enqueueRecord q r d of
      Inl InvalidRecord \<Rightarrow> \<not> env_ok r
    | Inl RecordTooLarge \<Rightarrow> d = Reliable \<and> length (q_bytes q) < length (record_wire r)
    | Inl QueueFull \<Rightarrow> d = Reliable \<and> \<not> hasCapacity q (length (record_wire r)) 1
    | Inl InvalidCapacity \<Rightarrow> False
    | Inr (Dropped, q') \<Rightarrow> d = EphemeralDelivery \<and> q' = q \<and> \<not> hasCapacity q (length (record_wire r)) 1
    | Inr (Queued, q') \<Rightarrow> queue_inv q' \<and> env_ok r \<and> queue_abs q' = queue_abs q @ [record_wire r]"
proof -
  have nocap: "\<not> hasCapacity q n 1" if "length (q_bytes q) < n" for n
    using that by (simp add: hasCapacity_def)
  show ?thesis
  proof (cases "enqueueRecord q r d")
    case (Inl e)
    then show ?thesis
      by (cases d) (auto simp: enqueueRecord_eq split: if_splits)
  next
    case (Inr a)
    then obtain oc q' where oc: "enqueueRecord q r d = Inr (oc, q')" by (cases a) auto
    have drop: "\<not> hasCapacity q (length (record_wire r)) 1" if "oc = Dropped"
      using oc that nocap by (auto simp: enqueueRecord_eq split: if_splits)
    show ?thesis
      using enqueueRecord_refines [OF assms oc] drop oc by (cases oc) auto
  qed
qed

theorem enqueue_record_outcomes_witness:
  "enqueueRecord \<lparr>q_bytes = replicate 8 0, q_entries = [entry_zero], byte_write = 0, bytes_used = 0,
     entry_head = 0, entry_count = 0\<rparr> (control_record RtReset 4 7) EphemeralDelivery
   = Inr (Dropped, \<lparr>q_bytes = replicate 8 0, q_entries = [entry_zero], byte_write = 0, bytes_used = 0,
     entry_head = 0, entry_count = 0\<rparr>)"
proof -
  let ?q = "\<lparr>q_bytes = replicate 8 0, q_entries = [entry_zero], byte_write = 0, bytes_used = 0,
     entry_head = 0, entry_count = 0\<rparr>" and ?r = "control_record RtReset 4 7"
  have "queue_inv ?q" by (simp add: queue_inv_def live_def ring_read_def)
  moreover have "env_ok ?r" by (simp add: control_record_ok)
  moreover have "\<not> hasCapacity ?q (length (record_wire ?r)) 1" by (simp add: hasCapacity_def)
  ultimately show ?thesis
    using enqueue_record_outcomes [where q = ?q and r = ?r and d = EphemeralDelivery]
    by (auto simp: enqueueRecord_eq split: sum.splits prod.splits enqueue_outcome.splits queue_error.splits)
qed

end
