(* ===== verification/Wss_Connection.thy ===== *)
theory Wss_Connection
  imports Output_Queue
begin

section \<open>One WSS connection of the gateway (\<open>src/wss/listener.zig\<close>)\<close>

text \<open>
  The connection from the end of its HTTP Upgrade on: its decrypted input, the message assembler, the
  output queue and the two stream-id high-water marks. TLS and the event loop are outside: input is
  the plain bytes, and the output queue is what the driver sends. The Worker is a parameter
  \<open>worker\<close>: for an event and the state it sees, it answers with the transport operations it calls
  before it returns. They only queue (\<open>driving\<close> is set while input is processed). A failed assertion
  or an overflow, which stops the program, is \<open>None\<close>.
\<close>

definition close_normal :: nat where "close_normal = 1000"
definition close_protocol_error :: nat where "close_protocol_error = 1002"
definition close_internal_error :: nat where "close_internal_error = 1011"

lemmas close_codes = close_normal_def close_protocol_error_def close_internal_error_def

subsection \<open>Stream ids and codes\<close>

definition narrowAppError :: "u64 \<Rightarrow> u32" where
  "narrowAppError v = of_nat (min (unat v) 4294967295)"

text \<open>The \<open>AppError\<close> values of \<open>protocol/frame.zig\<close> and the close codes that carry them.\<close>

definition websocketCloseCode :: "u64 \<Rightarrow> nat" where
  "websocketCloseCode code =
    (if code = 0x00 then close_normal else if code = 0x01 then close_protocol_error
     else if code = 0x02 then 4002 else if code = 0x03 then 4003 else close_internal_error)"

definition claimMonotonic :: "u64 option \<Rightarrow> u64 \<Rightarrow> bool \<times> u64 option" where
  "claimMonotonic highest sid = (case highest of
      Some previous \<Rightarrow> if sid \<le> previous then (False, highest) else (True, Some sid)
    | None \<Rightarrow> (True, Some sid))"

text \<open>\<open>previous + 4\<close> is checked arithmetic: an overflow is \<open>None\<close>.\<close>

definition noteServerExchange :: "u64 option \<Rightarrow> u64 \<Rightarrow> (bool \<times> u64 option) option" where
  "noteServerExchange highest sid = (case highest of
      None \<Rightarrow> Some (if sid \<noteq> 1 then (False, highest) else (True, Some sid))
    | Some previous \<Rightarrow>
      if sid \<le> previous then Some (True, highest)
      else if 2 ^ 64 \<le> unat previous + 4 then None
      else Some (if unat sid \<noteq> unat previous + 4 then (False, highest) else (True, Some sid)))"

text \<open>\<open>std.unicode.utf8ValidateSlice\<close>: well-formed UTF-8, without surrogates and overlong forms.\<close>

definition utf8_cont :: "byte \<Rightarrow> bool" where "utf8_cont b \<longleftrightarrow> 0x80 \<le> b \<and> b \<le> 0xBF"

fun utf8_valid :: "bytes \<Rightarrow> bool" where
  "utf8_valid [] = True"
| "utf8_valid (b # bs) =
    (if b < 0x80 then utf8_valid bs
     else if 0xC2 \<le> b \<and> b \<le> 0xDF then
       (case bs of c1 # r \<Rightarrow> utf8_cont c1 \<and> utf8_valid r | _ \<Rightarrow> False)
     else if 0xE0 \<le> b \<and> b \<le> 0xEF then
       (case bs of c1 # c2 # r \<Rightarrow> utf8_cont c1 \<and> (b = 0xE0 \<longrightarrow> 0xA0 \<le> c1) \<and> (b = 0xED \<longrightarrow> c1 \<le> 0x9F)
           \<and> utf8_cont c2 \<and> utf8_valid r
        | _ \<Rightarrow> False)
     else if 0xF0 \<le> b \<and> b \<le> 0xF4 then
       (case bs of c1 # c2 # c3 # r \<Rightarrow> utf8_cont c1 \<and> (b = 0xF0 \<longrightarrow> 0x90 \<le> c1) \<and> (b = 0xF4 \<longrightarrow> c1 \<le> 0x8F)
           \<and> utf8_cont c2 \<and> utf8_cont c3 \<and> utf8_valid r
        | _ \<Rightarrow> False)
     else False)"

definition validClosePayload :: "bytes \<Rightarrow> bool" where
  "validClosePayload pl =
    (if length pl = 0 then True else if length pl = 1 then False
     else let code = be_dec (seg 0 2 pl) in
       if code < 1000 \<or> 5000 \<le> code \<or> code = 1004 \<or> code = 1005 \<or> code = 1006 \<or> code = 1015 then False
       else if 1016 \<le> code \<and> code \<le> 2999 then False
       else utf8_valid (drop 2 pl))"

subsection \<open>State and transport operations\<close>

datatype conn_state = TlsHandshake | HttpUpgrade | StOpen | StClosing

record wss_conn =
  c_state :: conn_state
  c_plain :: bytes
  c_asm :: assembler
  c_output :: out_queue
  c_session :: bool
  c_highest_client :: "u64 option"
  c_highest_server :: "u64 option"
  c_close_after_flush :: bool

definition beginImmediateClose :: "wss_conn \<Rightarrow> wss_conn" where
  "beginImmediateClose c = (if c_state c = StClosing then c else c\<lparr>c_state := StClosing\<rparr>)"

definition protocolClose :: "wss_conn \<Rightarrow> nat \<Rightarrow> wss_conn" where
  "protocolClose c code = (case enqueueControl (c_output c) OpClose (be_enc 2 code) of
      Inl _ \<Rightarrow> beginImmediateClose c
    | Inr q \<Rightarrow> c\<lparr>c_output := q, c_close_after_flush := True\<rparr>)"

datatype transport_op =
    OpClaim u64 | OpWrite u64 bytes bool | OpEphemeral bytes
  | OpResetSend u64 u64 | OpStopReceive u64 u64 | OpDiscard u64 u64 | OpCloseSession u64

datatype op_result = ROk | RClaim bool | RStreamWriteFailed | REphemeralSendFailed

definition transportClaimInboundExchange :: "wss_conn \<Rightarrow> u64 \<Rightarrow> bool \<times> wss_conn" where
  "transportClaimInboundExchange c sid =
    (if c_state c \<noteq> StOpen \<or> sid AND 3 \<noteq> 0 then (False, c)
     else case claimMonotonic (c_highest_client c) sid of
       (ok, highest) \<Rightarrow> (ok, c\<lparr>c_highest_client := highest\<rparr>))"

definition enqueueOrClose :: "wss_conn \<Rightarrow> wss_record \<Rightarrow> delivery \<Rightarrow> bool \<times> wss_conn" where
  "enqueueOrClose c r d = (case enqueueRecord (c_output c) r d of
      Inl _ \<Rightarrow> (False, beginImmediateClose c)
    | Inr (_, q) \<Rightarrow> (True, c\<lparr>c_output := q\<rparr>))"

definition transportWrite :: "wss_conn \<Rightarrow> u64 \<Rightarrow> bytes \<Rightarrow> bool \<Rightarrow> (op_result \<times> wss_conn) option" where
  "transportWrite c sid bs fn =
    (if c_state c \<noteq> StOpen then Some (RStreamWriteFailed, c)
     else case (if sid AND 3 = 1 then noteServerExchange (c_highest_server c) sid
                else Some (True, c_highest_server c)) of
       None \<Rightarrow> None
     | Some (noted, highest) \<Rightarrow>
       let c1 = c\<lparr>c_highest_server := highest\<rparr> in
       if \<not> noted then Some (RStreamWriteFailed, beginImmediateClose c1)
       else case enqueueOrClose c1 \<lparr>record_type = RtStream, fin = fn, stream_id = sid,
                                    app_error_code = 0, payload = bs\<rparr> Reliable of
         (ok, c2) \<Rightarrow> Some (if ok then ROk else RStreamWriteFailed, c2))"

definition transportEphemeral :: "wss_conn \<Rightarrow> bytes \<Rightarrow> op_result \<times> wss_conn" where
  "transportEphemeral c bs =
    (if c_state c \<noteq> StOpen then (REphemeralSendFailed, c)
     else case enqueueRecord (c_output c) \<lparr>record_type = RtEphemeral, fin = False, stream_id = 0,
                 app_error_code = 0, payload = bs\<rparr> EphemeralDelivery of
       Inl _ \<Rightarrow> (REphemeralSendFailed, c)
     | Inr (_, q) \<Rightarrow> (ROk, c\<lparr>c_output := q\<rparr>))"

definition enqueueDirectionControl :: "wss_conn \<Rightarrow> record_type \<Rightarrow> u64 \<Rightarrow> u64 \<Rightarrow> wss_conn" where
  "enqueueDirectionControl c rt sid code =
    (if c_state c \<noteq> StOpen then c
     else snd (enqueueOrClose c (control_record rt sid (narrowAppError code)) Reliable))"

definition transportDiscard :: "wss_conn \<Rightarrow> u64 \<Rightarrow> u64 \<Rightarrow> wss_conn option" where
  "transportDiscard c sid code =
    (if c_state c \<noteq> StOpen then Some c
     else case enqueueDiscard (c_output c) sid (narrowAppError code) of
       Inl _ \<Rightarrow> Some (beginImmediateClose c)
     | Inr None \<Rightarrow> None
     | Inr (Some q) \<Rightarrow> Some (c\<lparr>c_output := q\<rparr>))"

definition transportClose :: "wss_conn \<Rightarrow> u64 \<Rightarrow> wss_conn" where
  "transportClose c code = (if c_state c = StClosing then c else protocolClose c (websocketCloseCode code))"

definition transport :: "wss_conn \<Rightarrow> transport_op \<Rightarrow> (op_result \<times> wss_conn) option" where
  "transport c op = (case op of
      OpClaim sid \<Rightarrow> Some (case transportClaimInboundExchange c sid of (ok, c1) \<Rightarrow> (RClaim ok, c1))
    | OpWrite sid bs fn \<Rightarrow> transportWrite c sid bs fn
    | OpEphemeral bs \<Rightarrow> Some (transportEphemeral c bs)
    | OpResetSend sid code \<Rightarrow> Some (ROk, enqueueDirectionControl c RtReset sid code)
    | OpStopReceive sid code \<Rightarrow> Some (ROk, enqueueDirectionControl c RtStop sid code)
    | OpDiscard sid code \<Rightarrow> map_option (\<lambda>c1. (ROk, c1)) (transportDiscard c sid code)
    | OpCloseSession code \<Rightarrow> Some (ROk, transportClose c code))"

fun transports :: "wss_conn \<Rightarrow> transport_op list \<Rightarrow> wss_conn option" where
  "transports c [] = Some c"
| "transports c (op # ops) = (case transport c op of None \<Rightarrow> None | Some (_, c1) \<Rightarrow> transports c1 ops)"

subsection \<open>Input\<close>

datatype wss_event = EvStreamData u64 bytes bool | EvReset u64 | EvStop u64 | EvEphemeral bytes

type_synonym 'h worker = "'h \<Rightarrow> wss_conn \<Rightarrow> wss_event \<Rightarrow> 'h \<times> transport_op list"

definition dispatch :: "'h worker \<Rightarrow> 'h \<Rightarrow> wss_conn \<Rightarrow> wss_event \<Rightarrow> ('h \<times> wss_conn) option" where
  "dispatch worker h c ev = (case worker h c ev of (h1, ops) \<Rightarrow>
     map_option (\<lambda>c1. (h1, c1)) (transports c ops))"

text \<open>The checks of the \<open>.binary\<close> branch before the record goes to the Worker.\<close>

definition record_event :: "u64 option \<Rightarrow> wss_record \<Rightarrow> wss_event option" where
  "record_event highest_server r =
    (if record_type r \<noteq> RtEphemeral \<and> stream_id r AND 2 \<noteq> 0 then None
     else if record_type r \<noteq> RtEphemeral \<and> stream_id r AND 3 = 1 \<and>
       (case highest_server of None \<Rightarrow> True
        | Some highest \<Rightarrow> highest < stream_id r \<or> (record_type r = RtStream \<and> (\<not> fin r \<or> length (payload r) \<noteq> 0)))
     then None
     else Some (case record_type r of
         RtStream \<Rightarrow> EvStreamData (stream_id r) (payload r) (fin r)
       | RtReset \<Rightarrow> EvReset (stream_id r)
       | RtStop \<Rightarrow> EvStop (stream_id r)
       | RtEphemeral \<Rightarrow> EvEphemeral (payload r)))"

text \<open>\<open>handleMessage\<close>: \<open>Inl ()\<close> is its error \<open>SessionMissing\<close>, \<open>None\<close> a panic below it. The last
  component lists the event handed to the Worker, if any.\<close>

definition handle_message :: "'h worker \<Rightarrow> 'h \<Rightarrow> wss_conn \<Rightarrow> ws_message
    \<Rightarrow> (unit + 'h \<times> wss_conn \<times> wss_event list) option" where
  "handle_message worker h c m =
    (if \<not> c_session c then Some (Inl ())
     else case m of
       MIncomplete \<Rightarrow> Some (Inr (h, c, []))
     | MPong _ \<Rightarrow> Some (Inr (h, c, []))
     | MPing pl \<Rightarrow> (case enqueueControl (c_output c) OpPong pl of
           Inl _ \<Rightarrow> Some (Inr (h, beginImmediateClose c, []))
         | Inr q \<Rightarrow> Some (Inr (h, c\<lparr>c_output := q\<rparr>, [])))
     | MClose pl \<Rightarrow>
         if \<not> validClosePayload pl then Some (Inr (h, protocolClose c close_protocol_error, []))
         else (case enqueueControl (c_output c) OpClose pl of
             Inl _ \<Rightarrow> Some (Inr (h, beginImmediateClose c, []))
           | Inr q \<Rightarrow> Some (Inr (h, c\<lparr>c_output := q, c_close_after_flush := True\<rparr>, [])))
     | MBinary bs \<Rightarrow> (case env_decode bs of
           Inl _ \<Rightarrow> Some (Inr (h, protocolClose c close_protocol_error, []))
         | Inr r \<Rightarrow> (case record_event (c_highest_server c) r of
               None \<Rightarrow> Some (Inr (h, protocolClose c close_protocol_error, []))
             | Some ev \<Rightarrow> map_option (\<lambda>(h1, c1). Inr (h1, c1, [ev])) (dispatch worker h c ev))))"

text \<open>One turn of the \<open>.open\<close> branch of \<open>processPlain\<close>; the flag says whether the loop goes on.\<close>

definition open_turn :: "'h worker \<Rightarrow> 'h \<Rightarrow> wss_conn \<Rightarrow> (unit + 'h \<times> wss_conn \<times> wss_event list \<times> bool) option" where
  "open_turn worker h c =
    (case parseClientFrame (c_plain c) max_record_size of
       Inl e \<Rightarrow> Some (Inr (if e = WsNeedMore then (h, c, [], False)
                           else (h, protocolClose c close_protocol_error, [], False)))
     | Inr (f, consumed) \<Rightarrow> (case asm_accept (c_asm c) f of
         Inl _ \<Rightarrow> Some (Inr (h, protocolClose c close_protocol_error, [], False))
       | Inr (m, a) \<Rightarrow> (case handle_message worker h (c\<lparr>c_asm := a\<rparr>) m of
           None \<Rightarrow> None
         | Some (Inl e) \<Rightarrow> Some (Inl e)
         | Some (Inr (h1, c1, evs)) \<Rightarrow>
             Some (Inr (h1, c1\<lparr>c_plain := drop consumed (c_plain c1)\<rparr>, evs, \<not> c_close_after_flush c1)))))"

subsection \<open>The input loop\<close>

text \<open>What transport operations leave alone.\<close>

lemma beginImmediateClose_simps [simp]:
  "c_state (beginImmediateClose c) = StClosing" "c_plain (beginImmediateClose c) = c_plain c"
  "c_asm (beginImmediateClose c) = c_asm c" "c_output (beginImmediateClose c) = c_output c"
  "c_session (beginImmediateClose c) = c_session c"
  "c_highest_client (beginImmediateClose c) = c_highest_client c"
  "c_highest_server (beginImmediateClose c) = c_highest_server c"
  "c_close_after_flush (beginImmediateClose c) = c_close_after_flush c"
  by (simp_all add: beginImmediateClose_def)

lemma protocolClose_keeps:
  "c_plain (protocolClose c code) = c_plain c" "c_asm (protocolClose c code) = c_asm c"
  "c_session (protocolClose c code) = c_session c"
  "c_highest_client (protocolClose c code) = c_highest_client c"
  "c_highest_server (protocolClose c code) = c_highest_server c"
  by (simp_all add: protocolClose_def beginImmediateClose_def split: sum.split)

lemma transport_keeps:
  "transport c op = Some (r, c') \<Longrightarrow> c_plain c' = c_plain c \<and> c_asm c' = c_asm c \<and> c_session c' = c_session c"
  by (auto simp: transport_def transportClaimInboundExchange_def transportWrite_def transportEphemeral_def
      enqueueDirectionControl_def enqueueOrClose_def transportDiscard_def transportClose_def beginImmediateClose_def
      protocolClose_keeps Let_def split: transport_op.splits if_splits sum.splits option.splits prod.splits)

lemma transports_keeps:
  "transports c ops = Some c' \<Longrightarrow> c_plain c' = c_plain c \<and> c_asm c' = c_asm c \<and> c_session c' = c_session c"
  by (induction ops arbitrary: c) (auto dest!: transport_keeps split: option.splits)

lemma handle_message_keeps:
  assumes "handle_message worker h c m = Some (Inr (h', c', evs))"
  shows "c_plain c' = c_plain c \<and> c_asm c' = c_asm c \<and> c_session c' = c_session c"
  using assms
  by (auto simp: handle_message_def dispatch_def beginImmediateClose_def protocolClose_keeps
      dest!: transports_keeps split: if_splits ws_message.splits sum.splits option.splits prod.splits)

lemma open_turn_shrinks:
  assumes "open_turn worker h c = Some (Inr (h', c', evs, True))"
  shows "length (c_plain c') < length (c_plain c)"
proof -
  obtain f n where p: "parseClientFrame (c_plain c) max_record_size = Inr (f, n)"
    using assms by (cases "parseClientFrame (c_plain c) max_record_size") (auto simp: open_turn_def split: if_splits)
  then obtain m a where a: "asm_accept (c_asm c) f = Inr (m, a)"
    using assms by (cases "asm_accept (c_asm c) f") (auto simp: open_turn_def)
  then obtain c1 where c1: "handle_message worker h (c\<lparr>c_asm := a\<rparr>) m = Some (Inr (h', c1, evs))"
      "c' = c1\<lparr>c_plain := drop n (c_plain c1)\<rparr>"
    using assms p by (auto simp: open_turn_def split: option.splits sum.splits)
  then show ?thesis
    using handle_message_keeps [OF c1(1)] parseClientFrame_used [OF p] by (simp, linarith)
qed

text \<open>\<open>processPlain\<close> in state \<open>.open\<close>. The last component says whether it ended with the error.\<close>

function processPlain_loop :: "'h worker \<Rightarrow> 'h \<Rightarrow> wss_conn \<Rightarrow> ('h \<times> wss_conn \<times> wss_event list \<times> bool) option" where
  "processPlain_loop worker h c =
    (if c_plain c = [] \<or> c_state c = StClosing then Some (h, c, [], False)
     else case open_turn worker h c of
       None \<Rightarrow> None
     | Some (Inl _) \<Rightarrow> Some (h, c, [], True)
     | Some (Inr (h1, c1, evs, False)) \<Rightarrow> Some (h1, c1, evs, False)
     | Some (Inr (h1, c1, evs, True)) \<Rightarrow>
         map_option (\<lambda>(h2, c2, evs2, err). (h2, c2, evs @ evs2, err)) (processPlain_loop worker h1 c1))"
  by pat_completeness auto
termination
  by (relation "measure (\<lambda>(worker, h, c). length (c_plain c))") (auto dest!: open_turn_shrinks)

declare processPlain_loop.simps [simp del]

definition processPlain :: "'h worker \<Rightarrow> 'h \<Rightarrow> wss_conn \<Rightarrow> ('h \<times> wss_conn \<times> wss_event list \<times> bool) option" where
  "processPlain worker h c =
    (if c_close_after_flush c then Some (h, c, [], False) else processPlain_loop worker h c)"

text \<open>
  One turn of \<open>drive\<close> as far as plain input goes: with \<open>bs\<close> decrypted and waiting, it reads as much as
  the buffer holds, processes it, and closes the connection on an error. The result names what is
  still waiting.
\<close>

definition plain_buffer_size :: nat where
  "plain_buffer_size = max 8192 (max_record_size + 14)"

definition drive_read :: "'h worker \<Rightarrow> 'h \<Rightarrow> wss_conn \<Rightarrow> bytes \<Rightarrow> ('h \<times> wss_conn \<times> wss_event list \<times> bytes) option" where
  "drive_read worker h c bs =
    (if c_state c \<noteq> StOpen \<or> c_close_after_flush c then Some (h, c, [], bs)
     else if length (c_plain c) = plain_buffer_size then Some (h, beginImmediateClose c, [], bs)
     else let n = plain_buffer_size - length (c_plain c) in
       map_option (\<lambda>(h1, c1, evs, err). (h1, if err then beginImmediateClose c1 else c1, evs, drop n bs))
         (processPlain worker h (c\<lparr>c_plain := c_plain c @ take n bs\<rparr>)))"

subsection \<open>The invariant of a connection\<close>

definition conn_inv :: "wss_conn \<Rightarrow> bool" where
  "conn_inv c \<longleftrightarrow> queue_inv (c_output c) \<and> asm_inv (c_asm c)
     \<and> (\<forall>k. c_highest_client c = Some k \<longrightarrow> k AND 3 = 0)
     \<and> (\<forall>k. c_highest_server c = Some k \<longrightarrow> k AND 3 = 1)"

lemma conn_inv_immediate [inv_intros]: "conn_inv c \<Longrightarrow> conn_inv (beginImmediateClose c)"
  by (simp add: conn_inv_def)

lemma conn_inv_output [inv_intros]: "conn_inv c \<Longrightarrow> queue_inv q \<Longrightarrow> conn_inv (c\<lparr>c_output := q\<rparr>)"
  by (simp add: conn_inv_def)

lemma conn_inv_protocolClose [inv_intros]: "conn_inv c \<Longrightarrow> conn_inv (protocolClose c code)"
  using enqueueControl_refines [of "c_output c" OpClose "be_enc 2 code"]
  by (auto simp: protocolClose_def conn_inv_immediate conn_inv_def split: sum.split)

lemma conn_inv_enqueueOrClose [inv_intros]:
  "conn_inv c \<Longrightarrow> enqueueOrClose c r d = (ok, c') \<Longrightarrow> conn_inv c'"
  using enqueueRecord_refines [of "c_output c" r d]
  by (auto simp: enqueueOrClose_def conn_inv_immediate conn_inv_def split: sum.splits prod.splits)

lemma unat_and3: "unat ((x :: u64) AND 3) = unat x mod 4"
proof -
  have "x AND 3 = take_bit 2 x" by (simp only: take_bit_eq_mask) (simp add: mask_eq_exp_minus_1)
  moreover have "unat (take_bit 2 x) = take_bit 2 (unat x)" by (rule unsigned_take_bit_eq)
  moreover have "take_bit 2 (unat x) = unat x mod 4" by (simp add: take_bit_eq_mod)
  ultimately show ?thesis by metis
qed

lemma and3_1: "(x :: u64) AND 3 = 1 \<longleftrightarrow> unat x mod 4 = 1"
  using unat_and3 [of x] by (metis unsigned_1 unsigned_word_eqI)

lemma and3_0: "(x :: u64) AND 3 = 0 \<longleftrightarrow> unat x mod 4 = 0"
  using unat_and3 [of x] by (metis unsigned_0 unsigned_word_eqI)

lemma conn_inv_transport [inv_intros]:
  assumes inv: "conn_inv c" and t: "transport c op = Some (r, c')"
  shows "conn_inv c'"
proof (cases op)
  case (OpClaim sid)
  then show ?thesis
    using inv t by (auto simp: transport_def transportClaimInboundExchange_def claimMonotonic_def conn_inv_def
        split: if_splits option.splits)
next
  case (OpWrite sid bs fn)
  show ?thesis
  proof (cases "c_state c = StOpen")
    case False
    then show ?thesis using inv t OpWrite by (simp add: transport_def transportWrite_def)
  next
    case True
    then obtain noted highest where n: "(if sid AND 3 = 1 then noteServerExchange (c_highest_server c) sid
        else Some (True, c_highest_server c)) = Some (noted, highest)"
      using t OpWrite by (auto simp: transport_def transportWrite_def split: if_splits option.splits)
    have "\<forall>k. highest = Some k \<longrightarrow> k AND 3 = 1"
      using n inv by (auto simp: conn_inv_def noteServerExchange_def split: if_splits option.splits)
    then have inv1: "conn_inv (c\<lparr>c_highest_server := highest\<rparr>)" using inv by (simp add: conn_inv_def)
    show ?thesis
      using t OpWrite True n conn_inv_immediate [OF inv1] conn_inv_enqueueOrClose [OF inv1]
      by (auto simp: transport_def transportWrite_def Let_def split: if_splits prod.splits)
  qed
next
  case (OpEphemeral bs)
  then show ?thesis
    using inv t enqueueRecord_refines [of "c_output c"]
    by (auto simp: transport_def transportEphemeral_def conn_inv_def split: if_splits sum.splits prod.splits)
next
  case (OpResetSend sid code)
  then show ?thesis
    using inv t conn_inv_enqueueOrClose [OF inv, of "control_record RtReset sid (narrowAppError code)" Reliable]
    by (cases "enqueueOrClose c (control_record RtReset sid (narrowAppError code)) Reliable")
      (auto simp: transport_def enqueueDirectionControl_def split: if_splits)
next
  case (OpStopReceive sid code)
  then show ?thesis
    using inv t conn_inv_enqueueOrClose [OF inv, of "control_record RtStop sid (narrowAppError code)" Reliable]
    by (cases "enqueueOrClose c (control_record RtStop sid (narrowAppError code)) Reliable")
      (auto simp: transport_def enqueueDirectionControl_def split: if_splits)
next
  case (OpDiscard sid code)
  have q: "queue_inv (c_output c)" using inv by (simp add: conn_inv_def)
  show ?thesis
  proof (cases "hasCapacity (c_output c) 44 2")
    case True
    then show ?thesis
      using inv t OpDiscard enqueueDiscard_refines [OF q True, of sid "narrowAppError code"]
      by (auto simp: transport_def transportDiscard_def conn_inv_output split: if_splits)
  next
    case False
    then show ?thesis
      using inv t OpDiscard by (auto simp: transport_def transportDiscard_def enqueueDiscard_eq conn_inv_immediate split: if_splits)
  qed
next
  case (OpCloseSession code)
  then show ?thesis
    using inv t by (auto simp: transport_def transportClose_def conn_inv_protocolClose split: if_splits)
qed

lemma conn_inv_transports [inv_intros]: "conn_inv c \<Longrightarrow> transports c ops = Some c' \<Longrightarrow> conn_inv c'"
  by (induction ops arbitrary: c) (auto dest: conn_inv_transport split: option.splits)

lemma conn_inv_handle_message [inv_intros]:
  assumes inv: "conn_inv c" and m: "handle_message worker h c m = Some (Inr (h', c', evs))"
  shows "conn_inv c'"
proof -
  have q: "queue_inv q'" if "enqueueControl (c_output c) oc xs = Inr q'" for oc xs q'
    using inv that enqueueControl_refines [of "c_output c" oc xs] by (simp add: conn_inv_def)
  have ct: "conn_inv (c\<lparr>c_output := q', c_close_after_flush := b\<rparr>)" if "queue_inv q'" for q' b
    using inv that by (simp add: conn_inv_def)
  show ?thesis
    using m inv
    by (auto simp: handle_message_def dispatch_def conn_inv_immediate conn_inv_protocolClose conn_inv_output q ct
        dest: conn_inv_transports split: if_splits ws_message.splits sum.splits option.splits prod.splits)
qed

lemma conn_inv_open_turn [inv_intros]:
  assumes inv: "conn_inv c" and t: "open_turn worker h c = Some (Inr (h', c', evs, go))"
  shows "conn_inv c'"
proof (cases "parseClientFrame (c_plain c) max_record_size")
  case (Inl e)
  then show ?thesis using inv t by (auto simp: open_turn_def conn_inv_protocolClose split: if_splits)
next
  case (Inr fn)
  then obtain f n where p: "parseClientFrame (c_plain c) max_record_size = Inr (f, n)" by (cases fn) auto
  show ?thesis
  proof (cases "asm_accept (c_asm c) f")
    case (Inl e)
    then show ?thesis using inv t p by (auto simp: open_turn_def conn_inv_protocolClose)
  next
    case (Inr ma)
    then obtain m a where a: "asm_accept (c_asm c) f = Inr (m, a)" by (cases ma) auto
    have inv1: "conn_inv (c\<lparr>c_asm := a\<rparr>)"
      using inv asm_accept_inv [OF _ a] by (simp add: conn_inv_def)
    obtain c1 where c1: "handle_message worker h (c\<lparr>c_asm := a\<rparr>) m = Some (Inr (h', c1, evs))"
        "c' = c1\<lparr>c_plain := drop n (c_plain c1)\<rparr>"
      using t p a by (auto simp: open_turn_def split: option.splits sum.splits)
    then show ?thesis using conn_inv_handle_message [OF inv1 c1(1)] by (simp add: conn_inv_def)
  qed
qed

text \<open>Induction over the loop: what every turn keeps holds at its end, and of every event it hands on.\<close>

lemma processPlain_loop_invariant:
  assumes step: "\<And>h c h' c' evs go. P c \<Longrightarrow> open_turn worker h c = Some (Inr (h', c', evs, go)) \<Longrightarrow>
      P c' \<and> (\<forall>ev \<in> set evs. Q ev)"
  shows "P c \<Longrightarrow> processPlain_loop worker h c = Some (h', c', evs, err) \<Longrightarrow> P c' \<and> (\<forall>ev \<in> set evs. Q ev)"
proof (induction "length (c_plain c)" arbitrary: c h evs rule: less_induct)
  case less
  show ?case
  proof (cases "c_plain c = [] \<or> c_state c = StClosing")
    case True
    then show ?thesis using less.prems processPlain_loop.simps [of worker h c] by auto
  next
    case False
    note L = less.prems(2) [unfolded processPlain_loop.simps [of worker h c] if_not_P [OF False]]
    from L obtain r where r: "open_turn worker h c = Some r" by (cases "open_turn worker h c") auto
    show ?thesis
    proof (cases r)
      case (Inl u)
      then show ?thesis using L r less.prems(1) by simp
    next
      case (Inr x)
      obtain h1 c1 evs1 go where x: "r = Inr (h1, c1, evs1, go)" using Inr by (cases x) auto
      note st = step [OF less.prems(1) r [unfolded x]]
      show ?thesis
      proof (cases go)
        case False
        then show ?thesis using L r x st by simp
      next
        case True
        then obtain evs2 where "processPlain_loop worker h1 c1 = Some (h', c', evs2, err)" "evs = evs1 @ evs2"
          using L r x by auto
        moreover have "length (c_plain c1) < length (c_plain c)"
          using open_turn_shrinks [of worker h c h1 c1 evs1] r x True by simp
        ultimately show ?thesis using less.hyps [of c1 h1 evs2] st by auto
      qed
    qed
  qed
qed

lemma processPlain_loop_stop:
  "open_turn worker h c = Some (Inr (h1, c1, evs, False)) \<Longrightarrow> c_plain c \<noteq> [] \<Longrightarrow> c_state c \<noteq> StClosing \<Longrightarrow>
    processPlain_loop worker h c = Some (h1, c1, evs, False)"
  by (subst processPlain_loop.simps) simp

lemma conn_inv_drive_read [inv_intros]:
  assumes inv: "conn_inv c" and d: "drive_read worker h c bs = Some (h', c', evs, rest)"
  shows "conn_inv c'"
proof (cases "c_state c \<noteq> StOpen \<or> c_close_after_flush c \<or> length (c_plain c) = plain_buffer_size")
  case True
  then show ?thesis using inv d by (auto simp: drive_read_def conn_inv_immediate split: if_splits)
next
  case False
  let ?n = "plain_buffer_size - length (c_plain c)"
  have "conn_inv (c\<lparr>c_plain := c_plain c @ take ?n bs\<rparr>)" using inv by (simp add: conn_inv_def)
  moreover obtain c1 err where p: "processPlain worker h (c\<lparr>c_plain := c_plain c @ take ?n bs\<rparr>) = Some (h', c1, evs, err)"
      "c' = (if err then beginImmediateClose c1 else c1)"
    using d False by (auto simp: drive_read_def Let_def)
  moreover have "processPlain_loop worker h (c\<lparr>c_plain := c_plain c @ take ?n bs\<rparr>) = Some (h', c1, evs, err)"
    using p(1) False by (simp add: processPlain_def)
  ultimately have "conn_inv c1"
    using processPlain_loop_invariant [where P = conn_inv and Q = "\<lambda>_. True" and worker = worker]
      conn_inv_open_turn [where worker = worker] by blast
  then show ?thesis using p conn_inv_immediate by simp
qed

subsection \<open>Properties\<close>

definition conn_new :: "out_queue \<Rightarrow> wss_conn" where
  "conn_new q = \<lparr>c_state = StOpen, c_plain = [], c_asm = assembler_init max_record_size, c_output = q,
     c_session = True, c_highest_client = None, c_highest_server = None, c_close_after_flush = False\<rparr>"

text \<open>C2: Whatever the client sends and whatever the Worker does in answer, a connection keeps its output
  queue and its assembler consistent, and its two high-water marks are ids of the right side.\<close>

theorem connection_invariant:
  assumes "conn_inv c" "drive_read worker h c bs = Some (h', c', evs, rest)"
  shows "queue_inv (c_output c') \<and> asm_inv (c_asm c')
    \<and> (\<forall>k. c_highest_client c' = Some k \<longrightarrow> unat k mod 4 = 0) \<and> (\<forall>k. c_highest_server c' = Some k \<longrightarrow> unat k mod 4 = 1)"
  using conn_inv_drive_read [OF assms] by (simp add: conn_inv_def and3_0 and3_1)

definition demo_queue :: out_queue where
  "demo_queue = \<lparr>q_bytes = replicate 64 0, q_entries = replicate 2 entry_zero, byte_write = 0, bytes_used = 0,
     entry_head = 0, entry_count = 0\<rparr>"

lemma demo_queue_inv: "queue_inv demo_queue \<and> queue_abs demo_queue = []"
  by (rule queue_init_inv [of 64 2]) (simp add: queue_init_def demo_queue_def)

lemma demo_conn_inv: "conn_inv (conn_new demo_queue)"
  using demo_queue_inv asm_inv_init by (simp add: conn_inv_def conn_new_def)

text \<open>A read of the first byte of a frame, which waits in the input buffer.\<close>

lemma demo_read:
  "drive_read (\<lambda>h c ev. (h, [])) () (conn_new demo_queue) [0x82]
   = Some ((), (conn_new demo_queue)\<lparr>c_plain := [0x82]\<rparr>, [], [])"
proof -
  let ?w = "\<lambda>(h :: unit) c ev. (h, [])" and ?c = "(conn_new demo_queue)\<lparr>c_plain := [0x82]\<rparr>"
  have "open_turn ?w () ?c = Some (Inr ((), ?c, [], False))"
    by (simp add: open_turn_def parseClientFrame_def)
  then have "processPlain_loop ?w () ?c = Some ((), ?c, [], False)"
    by (rule processPlain_loop_stop) (simp_all add: conn_new_def)
  moreover have "0 < plain_buffer_size" "take plain_buffer_size [0x82 :: byte] = [0x82]" "drop plain_buffer_size [0x82 :: byte] = []"
    by (simp_all add: plain_buffer_size_def)
  ultimately show ?thesis by (simp add: drive_read_def processPlain_def conn_new_def)
qed

theorem connection_invariant_witness:
  "\<exists>c'. drive_read (\<lambda>h c ev. (h, [])) () (conn_new demo_queue) [0x82] = Some ((), c', [], [])
     \<and> queue_inv (c_output c')"
  using connection_invariant [OF demo_conn_inv demo_read] demo_read by blast

fun event_id :: "wss_event \<Rightarrow> u64 option" where
  "event_id (EvStreamData sid pl fn) = Some sid"
| "event_id (EvReset sid) = Some sid"
| "event_id (EvStop sid) = Some sid"
| "event_id (EvEphemeral pl) = None"

lemma and2_0: "(x :: u64) AND 2 = 0 \<Longrightarrow> x AND 3 = 0 \<or> x AND 3 = 1"
proof -
  assume x: "x AND 2 = 0"
  have "x AND (1 OR 2) = (x AND 1) OR (x AND 2)"
    by (rule bit.conj_disj_distrib)
  then have "x AND 3 = x AND 1" using x by simp
  moreover have "x AND 1 = 0 \<or> x AND 1 = 1"
    unfolding and_one_eq using not_mod_2_eq_0_eq_1 [of x] by blast
  ultimately show ?thesis by metis
qed

lemma record_event_id:
  assumes "record_event hs r = Some ev" "event_id ev = Some sid"
  shows "sid AND 3 = 0 \<or> (sid AND 3 = 1 \<and> (\<exists>k. hs = Some k \<and> sid \<le> k) \<and>
    (\<forall>pl fn. ev = EvStreamData sid pl fn \<longrightarrow> pl = [] \<and> fn))"
proof -
  have ne: "record_type r \<noteq> RtEphemeral" and sid: "sid = stream_id r"
    using assms by (auto simp: record_event_def split: if_splits record_type.splits)
  then have "stream_id r AND 2 = 0" using assms(1) by (auto simp: record_event_def split: if_splits)
  then show ?thesis
    using and2_0 [of "stream_id r"] assms ne sid
    by (auto simp: record_event_def not_less split: if_splits option.splits record_type.splits)
qed

text \<open>C9: What the Worker is handed: stream data and controls only for ids of the client's side, or for a
  gateway-initiated exchange that was really opened (its id is at most the highest one written), and
  of the latter only the empty FIN that closes the client's half. Ids of unidirectional streams and
  forged push ids never reach it.\<close>

theorem worker_sees_valid_streams:
  assumes "handle_message worker h c m = Some (Inr (h', c', evs))" "ev \<in> set evs" "event_id ev = Some sid"
  shows "unat sid mod 4 = 0 \<or> (unat sid mod 4 = 1 \<and> (\<exists>k. c_highest_server c = Some k \<and> sid \<le> k) \<and>
    (\<forall>pl fn. ev = EvStreamData sid pl fn \<longrightarrow> pl = [] \<and> fn))"
proof -
  have "\<exists>r. record_event (c_highest_server c) r = Some ev"
    using assms(1,2) by (auto simp: handle_message_def split: if_splits ws_message.splits sum.splits option.splits)
  then show ?thesis using record_event_id [OF _ assms(3)] by (metis and3_0 and3_1)
qed

theorem worker_sees_valid_streams_witness:
  "\<exists>c'. handle_message (\<lambda>h c ev. (h, [])) () (conn_new demo_queue)
     (MBinary [1, 2, 0, 0, 0, 0, 0, 0, 0, 0, 0, 8, 0, 0, 0, 7, 0, 0, 0, 0]) = Some (Inr ((), c', [EvReset 8]))
   \<and> unat (8 :: u64) mod 4 = 0"
proof -
  have e: "env_decode [1, 2, 0, 0, 0, 0, 0, 0, 0, 0, 0, 8, 0, 0, 0, 7, 0, 0, 0, 0] =
      Inr \<lparr>record_type = RtReset, fin = False, stream_id = 8, app_error_code = 7, payload = []\<rparr>"
    by (simp add: env_decode_def envelope_sizes record_type_decode_def seg_def env_validate_def Let_def)
  have h: "handle_message (\<lambda>h c ev. (h, [])) () (conn_new demo_queue)
     (MBinary [1, 2, 0, 0, 0, 0, 0, 0, 0, 0, 0, 8, 0, 0, 0, 7, 0, 0, 0, 0]) =
     Some (Inr ((), conn_new demo_queue, [EvReset 8]))"
    by (simp add: handle_message_def e record_event_def dispatch_def conn_new_def)
  from worker_sees_valid_streams [OF h, of "EvReset 8" 8] h show ?thesis by auto
qed

text \<open>The ids whose claim succeeded, over a sequence of transport operations.\<close>

fun claimed :: "wss_conn \<Rightarrow> transport_op list \<Rightarrow> u64 list" where
  "claimed c [] = []"
| "claimed c (op # ops) = (case transport c op of None \<Rightarrow> []
     | Some (r, c1) \<Rightarrow>
        (case op of OpClaim sid \<Rightarrow> if r = RClaim True then [sid] else [] | _ \<Rightarrow> []) @ claimed c1 ops)"

lemma transport_client_mark:
  assumes "transport c op = Some (r, c1)"
  shows "c_highest_client c1 = (case op of OpClaim sid \<Rightarrow> if r = RClaim True then Some sid else c_highest_client c
     | _ \<Rightarrow> c_highest_client c)"
    and "op = OpClaim sid \<Longrightarrow> r = RClaim True \<Longrightarrow>
      sid AND 3 = 0 \<and> (\<forall>k. c_highest_client c = Some k \<longrightarrow> k < sid)"
  using assms
  by (auto simp: transport_def transportClaimInboundExchange_def claimMonotonic_def transportWrite_def
      transportEphemeral_def enqueueDirectionControl_def enqueueOrClose_def transportDiscard_def transportClose_def
      protocolClose_keeps Let_def split: transport_op.splits if_splits sum.splits option.splits prod.splits)

text \<open>No exchange id is accepted twice: over any sequence of transport operations the ids claimed
  with success are strictly increasing, above the mark the connection starts with, and of the
  client's side.\<close>

theorem claims_strictly_increase:
  "sorted_wrt (<) (claimed c ops) \<and> (\<forall>sid \<in> set (claimed c ops). unat sid mod 4 = 0)
   \<and> (\<forall>k sid. c_highest_client c = Some k \<and> sid \<in> set (claimed c ops) \<longrightarrow> k < sid)"
proof (induction ops arbitrary: c)
  case Nil
  then show ?case by simp
next
  case (Cons op ops)
  show ?case
  proof (cases "transport c op")
    case None
    then show ?thesis by simp
  next
    case (Some x)
    obtain r c1 where t: "transport c op = Some (r, c1)" using Some by (cases x) auto
    note IH = Cons.IH [of c1] and m = transport_client_mark [OF t]
    show ?thesis
    proof (cases "\<exists>sid. op = OpClaim sid \<and> r = RClaim True")
      case True
      then obtain sid where sid: "op = OpClaim sid" "r = RClaim True" by blast
      have "c_highest_client c1 = Some sid" using m(1) sid by simp
      then show ?thesis using IH m(2) [OF sid] sid t and3_0 by fastforce
    next
      case False
      then have "c_highest_client c1 = c_highest_client c" "claimed c (op # ops) = claimed c1 ops"
        using m(1) t by (auto split: transport_op.splits)
      then show ?thesis using IH by simp
    qed
  qed
qed

theorem claims_strictly_increase_witness:
  "claimed (conn_new demo_queue) [OpClaim 0, OpClaim 4, OpClaim 4, OpClaim 5] = [0, 4]
   \<and> sorted_wrt (<) (claimed (conn_new demo_queue) [OpClaim 0, OpClaim 4, OpClaim 4, OpClaim 5])"
  using claims_strictly_increase [of "conn_new demo_queue" "[OpClaim 0, OpClaim 4, OpClaim 4, OpClaim 5]"]
  by (simp add: transport_def transportClaimInboundExchange_def claimMonotonic_def conn_new_def)

subsection \<open>Gateway-initiated exchanges (\<open>src/session/transport.zig\<close>)\<close>

text \<open>\<open>TransportSession\<close> numbers the exchanges the gateway opens; the overflow of its counter is \<open>None\<close>.\<close>

definition reserveOutboundExchange :: "u64 \<Rightarrow> (u64 \<times> u64) option" where
  "reserveOutboundExchange next_id = (if 2 ^ 64 \<le> unat next_id + 4 then None else Some (next_id, next_id + 4))"

definition session_open :: "u64 \<Rightarrow> wss_conn \<Rightarrow> bytes \<Rightarrow> bool \<Rightarrow> ((op_result + u64) \<times> u64 \<times> wss_conn) option" where
  "session_open next_id c bs fn = (case reserveOutboundExchange next_id of None \<Rightarrow> None
     | Some (sid, next1) \<Rightarrow> (case transportWrite c sid bs fn of None \<Rightarrow> None
        | Some (r, c1) \<Rightarrow> Some (if r = ROk then Inr sid else Inl r, next1, c1)))"

text \<open>The mark of the connection and the counter of the session above it agree.\<close>

definition ids_agree :: "u64 \<Rightarrow> wss_conn \<Rightarrow> bool" where
  "ids_agree next_id c \<longleftrightarrow> c_state c = StOpen \<longrightarrow>
     unat next_id mod 4 = 1 \<and>
     (case c_highest_server c of None \<Rightarrow> next_id = 1 | Some k \<Rightarrow> unat next_id = unat k + 4)"

lemma ids_agree_new: "ids_agree 1 (conn_new q)"
  by (simp add: ids_agree_def conn_new_def)

lemma unat_add4: "unat (x :: u64) + 4 < 2 ^ 64 \<Longrightarrow> unat (x + 4) = unat x + 4"
  by (simp add: unat_word_ariths(1))

text \<open>The ids a session reserves are the ones its WSS connection expects: while the connection is open,
  opening an exchange never trips the check against skipped ids. It is numbered one past the last
  (1, 5, 9 and so on), the connection's mark moves to it, and the two stay in agreement.\<close>

theorem open_uses_expected_id:
  assumes "ids_agree next_id c" "c_state c = StOpen" "unat next_id + 4 < 2 ^ 64"
  shows "\<exists>r next1 c1. session_open next_id c bs fn = Some (r, next1, c1)
    \<and> c_highest_server c1 = Some next_id \<and> next1 = next_id + 4 \<and> ids_agree next1 c1
    \<and> (r = Inr next_id \<and> c_state c1 = StOpen \<or> r = Inl RStreamWriteFailed \<and> c_state c1 = StClosing)"
proof -
  have mod1: "unat next_id mod 4 = 1" using assms(1,2) by (simp add: ids_agree_def)
  then have and1: "next_id AND 3 = 1" by (simp add: and3_1)
  have nx: "reserveOutboundExchange next_id = Some (next_id, next_id + 4)"
    using assms(3) by (simp add: reserveOutboundExchange_def)
  have noted: "noteServerExchange (c_highest_server c) next_id = Some (True, Some next_id)"
    using assms by (auto simp: noteServerExchange_def ids_agree_def word_le_nat_alt split: option.splits)
  let ?c = "c\<lparr>c_highest_server := Some next_id\<rparr>"
  obtain ok c2 where e: "enqueueOrClose ?c \<lparr>record_type = RtStream, fin = fn, stream_id = next_id,
      app_error_code = 0, payload = bs\<rparr> Reliable = (ok, c2)"
    by (cases "enqueueOrClose ?c \<lparr>record_type = RtStream, fin = fn, stream_id = next_id,
      app_error_code = 0, payload = bs\<rparr> Reliable") auto
  then have c2: "c_highest_server c2 = Some next_id" "c_state c2 = (if ok then StOpen else StClosing)"
    using assms(2) by (auto simp: enqueueOrClose_def split: sum.splits prod.splits)
  have "transportWrite c next_id bs fn = Some (if ok then ROk else RStreamWriteFailed, c2)"
    using assms(2) and1 noted e by (simp add: transportWrite_def Let_def)
  then have "session_open next_id c bs fn =
      Some (if ok then Inr next_id else Inl RStreamWriteFailed, next_id + 4, c2)"
    by (simp add: session_open_def nx)
  moreover have "ids_agree (next_id + 4) c2"
    using mod1 assms(3) c2 by (simp add: ids_agree_def unat_add4)
  ultimately show ?thesis using c2 by auto
qed

theorem open_uses_expected_id_witness:
  "\<exists>r c1. session_open 1 (conn_new demo_queue) [7] True = Some (r, 5, c1) \<and> c_highest_server c1 = Some 1"
  using open_uses_expected_id [of 1 "conn_new demo_queue" "[7]" True] ids_agree_new
  by (auto simp: conn_new_def)

subsection \<open>Closing\<close>

text \<open>C17: After a Close frame has been queued the gateway's own writes still go out behind it: while the
  connection waits for the flush, a write is accepted like any other and its data message follows
  the Close in the output.\<close>

theorem write_after_close_is_queued:
  assumes "conn_inv c" "c_state c = StOpen" "enqueueControl (c_output c) OpClose (be_enc 2 code) = Inr q"
    and "env_ok \<lparr>record_type = RtStream, fin = fn, stream_id = sid, app_error_code = 0, payload = bs\<rparr>"
    and "hasCapacity q (length (record_wire \<lparr>record_type = RtStream, fin = fn, stream_id = sid,
           app_error_code = 0, payload = bs\<rparr>)) 1"
    and "unat sid mod 4 = 0"
  shows "\<exists>c'. transportWrite (protocolClose c code) sid bs fn = Some (ROk, c')
    \<and> queue_abs (c_output c') = queue_abs (c_output c) @ [ws_header OpClose 2 @ be_enc 2 code]
        @ [record_wire \<lparr>record_type = RtStream, fin = fn, stream_id = sid, app_error_code = 0, payload = bs\<rparr>]"
proof -
  let ?r = "\<lparr>record_type = RtStream, fin = fn, stream_id = sid, app_error_code = 0, payload = bs\<rparr>"
  have q: "queue_inv q" "queue_abs q = queue_abs (c_output c) @ [ws_header OpClose 2 @ be_enc 2 code]"
    using enqueueControl_refines [OF _ assms(3)] assms(1) by (auto simp: conn_inv_def)
  have pc: "protocolClose c code = c\<lparr>c_output := q, c_close_after_flush := True\<rparr>"
    using assms(3) by (simp add: protocolClose_def)
  have "sid AND 3 \<noteq> 1" using assms(6) and3_1 by simp
  have "length (record_wire ?r) \<le> length (q_bytes q)"
    using assms(5) unfolding hasCapacity_def by linarith
  then obtain q2 where q2: "enqueueRecord q ?r Reliable = Inr (Queued, q2)"
    using assms(4,5) by (simp add: enqueueRecord_eq)
  have "queue_abs q2 = queue_abs q @ [record_wire ?r]" using enqueueRecord_refines [OF q(1) q2] by simp
  moreover have "transportWrite (protocolClose c code) sid bs fn =
      Some (ROk, (protocolClose c code)\<lparr>c_output := q2\<rparr>)"
    using assms(2) q2 \<open>sid AND 3 \<noteq> 1\<close> by (simp add: pc transportWrite_def enqueueOrClose_def Let_def)
  ultimately show ?thesis using q(2) by simp
qed

theorem write_after_close_is_queued_witness:
  "\<exists>c'. transportWrite (protocolClose (conn_new demo_queue) 1002) 4 [7] True = Some (ROk, c')
    \<and> length (queue_abs (c_output c')) = 2"
proof -
  let ?r = "\<lparr>record_type = RtStream, fin = True, stream_id = 4, app_error_code = 0, payload = [7]\<rparr>"
  have r: "env_ok ?r" "length (record_wire ?r) = 23"
    by (simp_all add: env_ok_def env_validate_def max_payload_size_def frame_sizes length_record_wire length_ws_header)
  obtain q where q: "enqueueControl demo_queue OpClose (be_enc 2 1002) = Inr q"
    by (simp add: enqueueControl_def encodeServerHeader_control length_ws_header hasCapacity_def demo_queue_def Let_def)
  then have "bytes_used q = 4 \<and> entry_count q = 1 \<and> length (q_bytes q) = 64 \<and> length (q_entries q) = 2"
    using demo_queue_inv enqueuePieces_refines [of demo_queue "[ws_header OpClose 2, be_enc 2 1002]"]
    by (auto simp: enqueueControl_def encodeServerHeader_control length_ws_header hasCapacity_def demo_queue_def Let_def
        split: if_splits)
  then have cap: "hasCapacity q (length (record_wire ?r)) 1" by (simp add: hasCapacity_def r)
  have "enqueueControl (c_output (conn_new demo_queue)) OpClose (be_enc 2 1002) = Inr q"
    using q by (simp add: conn_new_def)
  from write_after_close_is_queued [OF demo_conn_inv _ this r(1) cap] show ?thesis
    using demo_queue_inv by (auto simp: conn_new_def)
qed

subsection \<open>The input buffer never fills\<close>

lemma needMore_bound:
  assumes "parseClientFrame bs m = Inl WsNeedMore"
  shows "length bs < m + 14"
proof (cases "length bs < 2")
  case True
  then show ?thesis by simp
next
  case False
  show ?thesis
  proof (cases "ws_length bs")
    case (Inl e)
    then have "length bs < 10"
      using assms False by (auto simp: parseClientFrame_def ws_length_def Let_def split: if_splits option.splits)
    then show ?thesis by simp
  next
    case (Inr r)
    then obtain n off where r: "ws_length bs = Inr (n, off)" by (cases r) auto
    have "off \<le> 10" using r by (auto simp: ws_length_def Let_def split: if_splits)
    moreover have "n \<le> m \<and> length bs < off + 4 + n"
      using assms False r by (auto simp: parseClientFrame_def Let_def split: if_splits option.splits)
    ultimately show ?thesis by linarith
  qed
qed

lemma protocolClose_closes: "c_state (protocolClose c code) = StClosing \<or> c_close_after_flush (protocolClose c code)"
  by (simp add: protocolClose_def split: sum.split)

lemma open_turn_stop:
  assumes "open_turn worker h c = Some (Inr (h', c', evs, False))"
  shows "c_state c' = StClosing \<or> c_close_after_flush c' \<or> length (c_plain c') < max_record_size + 14"
proof (cases "parseClientFrame (c_plain c) max_record_size")
  case (Inl e)
  then show ?thesis
    using assms protocolClose_closes needMore_bound [of "c_plain c" max_record_size]
    by (auto simp: open_turn_def split: if_splits)
next
  case (Inr x)
  obtain f n where p: "parseClientFrame (c_plain c) max_record_size = Inr (f, n)" using Inr by (cases x) auto
  then show ?thesis
    using assms protocolClose_closes by (auto simp: open_turn_def split: sum.splits option.splits)
qed

lemma processPlain_loop_end:
  "processPlain_loop worker h c = Some (h', c', evs, err) \<Longrightarrow>
    err \<or> c_state c' = StClosing \<or> c_close_after_flush c' \<or> length (c_plain c') < max_record_size + 14"
proof (induction "length (c_plain c)" arbitrary: c h evs rule: less_induct)
  case less
  show ?case
  proof (cases "c_plain c = [] \<or> c_state c = StClosing")
    case True
    then show ?thesis using less.prems processPlain_loop.simps [of worker h c] by auto
  next
    case False
    note L = less.prems [unfolded processPlain_loop.simps [of worker h c] if_not_P [OF False]]
    from L obtain r where r: "open_turn worker h c = Some r" by (cases "open_turn worker h c") auto
    show ?thesis
    proof (cases r)
      case (Inl u)
      then show ?thesis using L r by simp
    next
      case (Inr x)
      obtain h1 c1 evs1 go where x: "r = Inr (h1, c1, evs1, go)" using Inr by (cases x) auto
      show ?thesis
      proof (cases go)
        case False
        then show ?thesis using L r x open_turn_stop [of worker h c h1 c1 evs1] by simp
      next
        case True
        then obtain evs2 where "processPlain_loop worker h1 c1 = Some (h', c', evs2, err)"
          using L r x by auto
        moreover have "length (c_plain c1) < length (c_plain c)"
          using open_turn_shrinks [of worker h c h1 c1 evs1] r x True by simp
        ultimately show ?thesis using less.hyps by blast
      qed
    qed
  qed
qed

text \<open>C16: The plain-input buffer of an open connection always has room again when the input has been
  processed, so the driver's error \<open>PlainInputTooLarge\<close> cannot happen to an open connection: the
  longest frame the parser may still wait for is shorter than the buffer.\<close>

theorem input_buffer_never_full:
  assumes "drive_read worker h c bs = Some (h', c', evs, rest)" "length (c_plain c) < plain_buffer_size"
    and "c_state c' = StOpen" "\<not> c_close_after_flush c'"
  shows "length (c_plain c') < plain_buffer_size"
proof (cases "c_state c \<noteq> StOpen \<or> c_close_after_flush c")
  case True
  then show ?thesis using assms by (simp add: drive_read_def)
next
  case False
  then obtain c1 err where p: "processPlain_loop worker h (c\<lparr>c_plain := c_plain c @ take (plain_buffer_size - length (c_plain c)) bs\<rparr>)
        = Some (h', c1, evs, err)" "c' = (if err then beginImmediateClose c1 else c1)"
    using assms(1,2) by (auto simp: drive_read_def processPlain_def Let_def)
  then have "\<not> err" using assms(3) by auto
  then have "length (c_plain c') < max_record_size + 14"
    using processPlain_loop_end [OF p(1)] p(2) assms(3,4) by auto
  then show ?thesis by (simp add: plain_buffer_size_def)
qed

theorem input_buffer_never_full_witness:
  "\<exists>c'. drive_read (\<lambda>h c ev. (h, [])) () (conn_new demo_queue) [0x82] = Some ((), c', [], [])
     \<and> length (c_plain c') < plain_buffer_size"
proof -
  have "length (c_plain (conn_new demo_queue)) < plain_buffer_size"
    "c_state ((conn_new demo_queue)\<lparr>c_plain := [0x82]\<rparr>) = StOpen"
    "\<not> c_close_after_flush ((conn_new demo_queue)\<lparr>c_plain := [0x82]\<rparr>)"
    by (simp_all add: conn_new_def plain_buffer_size_def)
  from input_buffer_never_full [OF demo_read this] demo_read show ?thesis by blast
qed

end
