(* ===== verification/Wss_Handshake.thy ===== *)
theory Wss_Handshake
  imports Wss_Connection Wss_Upgrade
begin

section \<open>The Upgrade on a connection (\<open>src/wss/listener.zig\<close>, \<open>processPlain\<close>)\<close>

text \<open>
  The \<open>.http_upgrade\<close> branch of \<open>processPlain\<close> and the whole of it. The handler's \<open>accept\<close> is outside:
  \<open>accepted\<close> says whether it takes the session. An error leaves \<open>drive\<close>, whose callers close the
  connection at once, so nothing queued before it is sent.
\<close>

datatype conn_error =
    CeUpgrade upgrade_error | CeOriginRejected | CeHostSniMismatch | CeResponse response_error
  | CeQueue queue_error | CeSessionRejected | CeSessionMissing

record wss_gate =
  gate_policy :: origin_policy
  gate_server_name :: "bytes option"
  gate_accepts :: bool

definition upgrade_buffer :: nat where "upgrade_buffer = 256"

text \<open>\<open>Inr None\<close> waits for more input.\<close>

definition upgrade_turn :: "(bytes \<Rightarrow> bytes) \<Rightarrow> wss_gate \<Rightarrow> wss_conn \<Rightarrow> conn_error + wss_conn option" where
  "upgrade_turn digest g c = (case parseUpgrade (c_plain c) of
      Inl e \<Rightarrow> if e = NeedMore then Inr None else Inl (CeUpgrade e)
    | Inr req \<Rightarrow>
      if \<not> origin_allows (gate_policy g) (ur_origin req) then Inl CeOriginRejected
      else if \<not> hostMatchesServerName (ur_host req) (gate_server_name g) then Inl CeHostSniMismatch
      else case buildUpgradeResponse digest upgrade_buffer (ur_key req) of Inl e \<Rightarrow> Inl (CeResponse e)
      | Inr bs \<Rightarrow> (case enqueueRaw (c_output c) bs of Inl e \<Rightarrow> Inl (CeQueue e)
        | Inr q \<Rightarrow>
          if \<not> gate_accepts g then Inl CeSessionRejected
          else Inr (Some (c\<lparr>c_output := q, c_session := True, c_state := StOpen,
                            c_plain := drop (ur_consumed req) (c_plain c)\<rparr>))))"

definition process_input :: "(bytes \<Rightarrow> bytes) \<Rightarrow> wss_gate \<Rightarrow> 'h worker \<Rightarrow> 'h \<Rightarrow> wss_conn
    \<Rightarrow> (conn_error option \<times> 'h \<times> wss_conn \<times> wss_event list) option" where
  "process_input digest g worker h c =
    (if c_close_after_flush c \<or> c_plain c = [] \<or> c_state c = StClosing then Some (None, h, c, [])
     else if c_state c = HttpUpgrade then
       (case upgrade_turn digest g c of
          Inl e \<Rightarrow> Some (Some e, h, c, [])
        | Inr None \<Rightarrow> Some (None, h, c, [])
        | Inr (Some c1) \<Rightarrow> map_option (\<lambda>(h1, c2, evs, err). (if err then Some CeSessionMissing else None, h1, c2, evs))
            (processPlain_loop worker h c1))
     else map_option (\<lambda>(h1, c2, evs, err). (if err then Some CeSessionMissing else None, h1, c2, evs))
       (processPlain_loop worker h c))"

text \<open>A connection whose TLS handshake is done.\<close>

definition conn_before :: "out_queue \<Rightarrow> wss_conn" where
  "conn_before q = (conn_new q)\<lparr>c_state := HttpUpgrade, c_session := False\<rparr>"

lemma process_input_upgraded:
  assumes "upgrade_turn digest g c = Inr (Some c1)" "c_plain c1 = []" "c_state c = HttpUpgrade"
    "\<not> c_close_after_flush c" "c_plain c \<noteq> []"
  shows "process_input digest g worker h c = Some (None, h, c1, [])"
  using assms by (simp add: process_input_def processPlain_loop.simps)

lemma process_input_refused:
  assumes "upgrade_turn digest g c = Inl e" "c_state c = HttpUpgrade" "\<not> c_close_after_flush c" "c_plain c \<noteq> []"
  shows "process_input digest g worker h c = Some (Some e, h, c, [])"
  using assms by (simp add: process_input_def)

end
