(* ===== verification/Negative_Upgrades.thy ===== *)
theory Negative_Upgrades
  imports Wss_Handshake Smoke_Connect
begin

section \<open>Upgrade requests, good and bad (\<open>validation/wss-negative.mjs\<close>)\<close>

text \<open>
  \<open>upgradeRequest\<close> and \<open>expectUpgradeRejected\<close> of the negative gate, and what the gateway does with
  the requests: the one the clients send opens the connection on both sides, each bad one is refused.
  The random key is a parameter.
\<close>

record upgrade_options =
  uo_host :: bytes
  uo_origin :: bytes
  uo_path :: bytes
  uo_version :: bytes
  uo_protocol :: bytes
  uo_extra :: bytes

definition upgrade_defaults :: upgrade_options where
  "upgrade_defaults = \<lparr>uo_host = ascii ''localhost:8444'', uo_origin = ascii ''http://127.0.0.1:5173'',
     uo_path = ascii ''/lyune/v2'', uo_version = ascii ''13'', uo_protocol = ascii ''lyune.v2'', uo_extra = []\<rparr>"

definition upgradeRequest :: "upgrade_options \<Rightarrow> bytes \<Rightarrow> bytes" where
  "upgradeRequest opts key =
     ascii ''GET '' @ uo_path opts @ ascii '' HTTP/1.1'' @ crlf
     @ ascii ''Host: '' @ uo_host opts @ crlf
     @ ascii ''Origin: '' @ uo_origin opts @ crlf
     @ ascii ''Upgrade: websocket'' @ crlf
     @ ascii ''Connection: Upgrade'' @ crlf
     @ ascii ''Sec-WebSocket-Version: '' @ uo_version opts @ crlf
     @ ascii ''Sec-WebSocket-Key: '' @ key @ crlf
     @ ascii ''Sec-WebSocket-Protocol: '' @ uo_protocol opts @ crlf @ uo_extra opts @ crlf"

text \<open>The Node client sends the request with the defaults.\<close>

lemma smoke_request_default: "smoke_upgrade_request key = upgradeRequest upgrade_defaults key"
  by (simp add: smoke_upgrade_request_def upgradeRequest_def upgrade_defaults_def smoke_host_def smoke_origin_def)

subsection \<open>Waiting for the refusal\<close>

datatype rejection_error = RejectionTimeout | InvalidUpgradeAccepted | RejectionTlsError

record rejection =
  rj_response :: bytes
  rj_secure :: bool
  rj_settled :: bool
  rj_timer :: bool
  rj_destroyed :: bool
  rj_result :: "(rejection_error + unit) option"

definition rejection_start :: rejection where
  "rejection_start = \<lparr>rj_response = [], rj_secure = False, rj_settled = False, rj_timer = True,
     rj_destroyed = False, rj_result = None\<rparr>"

definition switched :: "bytes \<Rightarrow> bool" where
  "switched response \<longleftrightarrow> starts_with (ascii ''HTTP/1.1 101 '') (ascii_head response)"

definition rejection_finish :: "rejection \<Rightarrow> rejection_error option \<Rightarrow> rejection" where
  "rejection_finish s err =
    (if rj_settled s then s
     else s\<lparr>rj_settled := True, rj_timer := False, rj_destroyed := True,
            rj_result := Some (case err of Some e \<Rightarrow> Inl e
              | None \<Rightarrow> if switched (rj_response s) then Inl InvalidUpgradeAccepted else Inr ())\<rparr>)"

definition rejection_timeout :: "rejection \<Rightarrow> rejection" where
  "rejection_timeout s = rejection_finish (s\<lparr>rj_timer := False\<rparr>) (Some RejectionTimeout)"

definition rejection_secure :: "rejection \<Rightarrow> bytes \<Rightarrow> rejection \<times> smoke_effect list" where
  "rejection_secure s request = (s\<lparr>rj_secure := True\<rparr>, [SRaw request])"

definition rejection_data :: "rejection \<Rightarrow> bytes \<Rightarrow> rejection" where
  "rejection_data s chunk =
    (let s1 = s\<lparr>rj_response := rj_response s @ chunk\<rparr> in
     if switched (rj_response s1) then rejection_finish s1 (Some InvalidUpgradeAccepted) else s1)"

definition rejection_closed :: "rejection \<Rightarrow> rejection" where
  "rejection_closed s = rejection_finish s None"

definition rejection_failed :: "rejection \<Rightarrow> rejection" where
  "rejection_failed s = (if rj_secure s then rejection_finish s None else rejection_finish s (Some RejectionTlsError))"

inductive rejection_step :: "rejection \<Rightarrow> rejection \<Rightarrow> bool" where
  rej_timeout: "rj_timer s \<Longrightarrow> rejection_step s (rejection_timeout s)"
| rej_secure: "\<not> rj_destroyed s \<Longrightarrow> rejection_step s (fst (rejection_secure s request))"
| rej_data: "\<not> rj_destroyed s \<Longrightarrow> rejection_step s (rejection_data s chunk)"
| rej_closed: "rejection_step s (rejection_closed s)"
| rej_failed: "rejection_step s (rejection_failed s)"

inductive rejection_reach :: "rejection \<Rightarrow> rejection \<Rightarrow> bool" for s where
  rej_refl: "rejection_reach s s"
| rej_trans: "rejection_reach s s' \<Longrightarrow> rejection_step s' s'' \<Longrightarrow> rejection_reach s s''"

definition rejection_inv :: "rejection \<Rightarrow> bool" where
  "rejection_inv s \<longleftrightarrow> (rj_settled s \<longleftrightarrow> rj_result s \<noteq> None) \<and> (rj_timer s \<longleftrightarrow> \<not> rj_settled s)
     \<and> (rj_destroyed s \<longleftrightarrow> rj_settled s) \<and> (rj_result s = Some (Inr ()) \<longrightarrow> \<not> switched (rj_response s))
     \<and> (\<not> rj_settled s \<longrightarrow> \<not> switched (rj_response s))"

lemma rejection_inv_start: "rejection_inv rejection_start"
  by (simp add: rejection_inv_def rejection_start_def switched_def starts_with_def ascii_head_def)

lemma rejection_inv_step: "rejection_inv s \<Longrightarrow> rejection_step s s' \<Longrightarrow> rejection_inv s'"
  by (erule rejection_step.cases)
    (auto simp: rejection_inv_def rejection_timeout_def rejection_secure_def rejection_data_def rejection_closed_def
      rejection_failed_def rejection_finish_def Let_def split: option.splits if_splits)

lemma rejection_reach_inv: "rejection_reach s s' \<Longrightarrow> rejection_inv s \<Longrightarrow> rejection_inv s'"
  by (induction rule: rejection_reach.induct) (auto intro: rejection_inv_step)

text \<open>The negative gate counts an Upgrade as refused only if the gateway never answered 101: in every run
  the promise is resolved only while what was received does not start with a 101 status line, a
  received 101 rejects it at once, it is settled by the close or the timer at the latest, and its
  timer is armed exactly until then.\<close>

theorem rejection_test_sound:
  assumes "rejection_reach rejection_start s"
  shows "(rj_result s = Some (Inr ()) \<longrightarrow> \<not> switched (rj_response s))
    \<and> (switched (rj_response s) \<longrightarrow> (\<exists>e. rj_result s = Some (Inl e)))
    \<and> (rj_timer s \<longleftrightarrow> rj_result s = None)
    \<and> rj_result (rejection_timeout s) \<noteq> None \<and> rj_result (rejection_closed s) \<noteq> None"
proof -
  have inv: "rejection_inv s" by (rule rejection_reach_inv [OF assms rejection_inv_start])
  show ?thesis
  proof (cases "rj_result s")
    case None
    then show ?thesis using inv by (auto simp: rejection_inv_def rejection_timeout_def rejection_closed_def rejection_finish_def)
  next
    case (Some r)
    then show ?thesis using inv
      by (cases r) (auto simp: rejection_inv_def rejection_timeout_def rejection_closed_def rejection_finish_def)
  qed
qed

theorem rejection_test_sound_witness:
  "rj_result (rejection_data rejection_start (ascii ''HTTP/1.1 101 Switching'')) \<noteq> None
   \<and> rj_result (rejection_closed rejection_start) \<noteq> None"
proof -
  let ?s = "rejection_data rejection_start (ascii ''HTTP/1.1 101 Switching'')"
  have "rejection_reach rejection_start ?s"
    by (rule rej_trans [OF rej_refl rej_data]) (simp add: rejection_start_def)
  moreover have "switched (rj_response ?s)"
    by (simp add: rejection_data_def rejection_start_def rejection_finish_def switched_def ascii_head_def starts_with_def Let_def)
  ultimately show ?thesis
    using rejection_test_sound [of ?s] rejection_test_sound [OF rej_refl] by auto
qed

subsection \<open>What the gateway reads\<close>

definition field_ok :: "bytes \<Rightarrow> bool" where
  "field_ok x \<longleftrightarrow> x \<noteq> [] \<and> hd x \<notin> {32, 9} \<and> last x \<notin> {32, 9} \<and> validHeaderValue x"

definition options_ok :: "upgrade_options \<Rightarrow> bytes \<Rightarrow> bool" where
  "options_ok opts key \<longleftrightarrow> field_ok (uo_host opts) \<and> field_ok (uo_origin opts) \<and> field_ok (uo_version opts)
     \<and> field_ok (uo_protocol opts) \<and> field_ok key \<and> 32 \<notin> set (uo_path opts) \<and> 13 \<notin> set (uo_path opts)"

definition request_lines :: "upgrade_options \<Rightarrow> bytes \<Rightarrow> bytes list" where
  "request_lines opts key =
    [header_text (ascii ''Host'') (uo_host opts), header_text (ascii ''Origin'') (uo_origin opts),
     header_text (ascii ''Upgrade'') (ascii ''websocket''), header_text (ascii ''Connection'') (ascii ''Upgrade''),
     header_text (ascii ''Sec-WebSocket-Version'') (uo_version opts), header_text (ascii ''Sec-WebSocket-Key'') key,
     header_text (ascii ''Sec-WebSocket-Protocol'') (uo_protocol opts)]"

definition first_line :: "upgrade_options \<Rightarrow> bytes" where
  "first_line opts = ascii ''GET '' @ uo_path opts @ ascii '' HTTP/1.1''"

lemma request_as_lines:
  "uo_extra opts = with_crlf extras \<Longrightarrow>
    upgradeRequest opts key = with_crlf (first_line opts # request_lines opts key @ extras) @ crlf"
  by (simp add: upgradeRequest_def first_line_def request_lines_def with_crlf_def header_text_def)

lemma field_ok_plain: "field_ok x \<Longrightarrow> 13 \<notin> set x"
  by (auto simp: field_ok_def validHeaderValue_def list_all_iff)

lemma request_lines_plain:
  assumes "options_ok opts key" "plain_lines extras"
  shows "plain_lines (first_line opts # request_lines opts key @ extras)"
  using assms field_ok_plain
  by (auto simp: options_ok_def plain_lines_def first_line_def request_lines_def header_text_def)

lemma field_trim: "field_ok x \<Longrightarrow> trimOws (32 # x) = x \<and> validHeaderValue x"
  by (simp add: field_ok_def trimOws_lead trimOws_id)

lemma header_line_field:
  "validHeaderName n \<Longrightarrow> field_ok x \<Longrightarrow> header_line v (header_text n x) = header_field v n x"
  using field_trim [of x] by (simp add: header_line_text)

lemma request_names:
  "validHeaderName (ascii ''Host'')" "validHeaderName (ascii ''Origin'')" "validHeaderName (ascii ''Upgrade'')"
  "validHeaderName (ascii ''Connection'')" "validHeaderName (ascii ''Sec-WebSocket-Version'')"
  "validHeaderName (ascii ''Sec-WebSocket-Key'')" "validHeaderName (ascii ''Sec-WebSocket-Protocol'')"
  by (simp_all add: validHeaderName_def isAlphanumeric_def isDigit_def header_marks_def)

lemma fixed_fields: "field_ok (ascii ''websocket'')" "field_ok (ascii ''Upgrade'')"
  by (simp_all add: field_ok_def validHeaderValue_def)

lemma lower_simps: "lower 65 = 97" "lower 67 = 99" "lower 69 = 101" "lower 72 = 104" "lower 75 = 107" "lower 79 = 111" "lower 80 = 112"
    "lower 83 = 115" "lower 85 = 117" "lower 86 = 118" "lower 87 = 119"
    "97 \<le> b \<Longrightarrow> lower b = b" "b \<le> 64 \<Longrightarrow> lower b = b"
  by (auto simp: lower_def word_le_nat_alt)

lemma fixed_tokens:
  "containsToken (ascii ''websocket'') (ascii ''websocket'')" "containsToken (ascii ''Upgrade'') (ascii ''upgrade'')"
  by (simp_all add: containsToken_def trimOws_def eqlIgnoreCase_def lower_simps)

definition request_vars :: "upgrade_options \<Rightarrow> bytes \<Rightarrow> upgrade_vars" where
  "request_vars opts key = \<lparr>uv_host = Some (uo_host opts), uv_key = Some key, uv_origin = Some (uo_origin opts),
     uv_upgrade = True, uv_connection = True, uv_version13 = (uo_version opts = ascii ''13''), uv_versionSeen = True,
     uv_protocol = containsToken (uo_protocol opts) ws_subprotocol\<rparr>"

lemma header_fields:
  "header_field v (ascii ''Host'') x = (if uv_host v \<noteq> None then Inl DuplicateHost else Inr (v\<lparr>uv_host := Some x\<rparr>))"
  "header_field v (ascii ''Origin'') x = (if uv_origin v \<noteq> None then Inl DuplicateOrigin else Inr (v\<lparr>uv_origin := Some x\<rparr>))"
  "header_field v (ascii ''Upgrade'') x = Inr (v\<lparr>uv_upgrade := uv_upgrade v \<or> containsToken x (ascii ''websocket'')\<rparr>)"
  "header_field v (ascii ''Connection'') x = Inr (v\<lparr>uv_connection := uv_connection v \<or> containsToken x (ascii ''upgrade'')\<rparr>)"
  "header_field v (ascii ''Sec-WebSocket-Version'') x = (if uv_versionSeen v then Inl DuplicateWebSocketVersion
     else Inr (v\<lparr>uv_versionSeen := True, uv_version13 := (x = ascii ''13'')\<rparr>))"
  "header_field v (ascii ''Sec-WebSocket-Key'') x = (if uv_key v \<noteq> None then Inl DuplicateWebSocketKey
     else Inr (v\<lparr>uv_key := Some x\<rparr>))"
  "header_field v (ascii ''Sec-WebSocket-Protocol'') x = Inr (v\<lparr>uv_protocol := uv_protocol v \<or> containsToken x ws_subprotocol\<rparr>)"
  by (simp_all add: header_field_def eqlIgnoreCase_def lower_simps)

lemma request_header_lines:
  assumes "options_ok opts key"
  shows "header_lines upgrade_vars0 (request_lines opts key) = Inr (request_vars opts key)"
  using assms fixed_fields fixed_tokens
  by (simp only: options_ok_def request_lines_def header_lines.simps header_line_field request_names header_fields
      upgrade_vars0_def request_vars_def) simp

lemma request_first_line:
  assumes "options_ok opts key"
  shows "request_line (first_line opts) = (if uo_path opts = ws_path then Inr () else Inl WrongPath)"
proof -
  have sp: "32 \<notin> set (uo_path opts)" using assms by (simp add: options_ok_def)
  have "first_line opts = ascii ''GET'' @ 32 # uo_path opts @ 32 # ascii ''HTTP/1.1''"
    by (simp add: first_line_def)
  then have "split_on 32 (first_line opts) = [ascii ''GET'', uo_path opts, ascii ''HTTP/1.1'']"
    using sp by (simp only: split_on_skip) (simp add: split_on_skip split_on_last)
  then show ?thesis by (simp add: request_line_def)
qed

text \<open>The parser's verdict on a request of \<open>upgradeRequest\<close>, in the order of its checks.\<close>

lemma parse_upgradeRequest:
  assumes "options_ok opts key" "uo_extra opts = []"
  shows "parseUpgrade (upgradeRequest opts key) =
    (if max_http_head_size < length (upgradeRequest opts key) then Inl HeaderTooLarge
     else if uo_path opts \<noteq> ws_path then Inl WrongPath
     else if \<not> validKey key then Inl InvalidWebSocketKey
     else if uo_version opts \<noteq> ascii ''13'' then Inl WrongWebSocketVersion
     else if \<not> containsToken (uo_protocol opts) ws_subprotocol then Inl MissingSubprotocol
     else Inr \<lparr>ur_key = key, ur_origin = Some (uo_origin opts), ur_host = uo_host opts,
               ur_consumed = length (upgradeRequest opts key)\<rparr>)"
proof -
  have r: "upgradeRequest opts key = with_crlf (first_line opts # request_lines opts key) @ crlf"
    using request_as_lines [of opts "[]"] assms(2) by (simp add: with_crlf_def)
  have len: "length (upgradeRequest opts key) = length (with_crlf (first_line opts # request_lines opts key)) + 2"
    by (simp add: r crlf_def)
  have p: "plain_lines (first_line opts # request_lines opts key)"
    using request_lines_plain [OF assms(1), of "[]"] by (simp add: plain_lines_def)
  have ne: "request_lines opts key \<noteq> []" "uo_host opts \<noteq> []"
    using assms(1) by (simp_all add: request_lines_def options_ok_def field_ok_def)
  have "parseUpgrade (upgradeRequest opts key) = (if max_http_head_size < length (upgradeRequest opts key) then Inl HeaderTooLarge
     else upgrade_lines (first_line opts) (request_lines opts key) (length (upgradeRequest opts key)))"
    using parseUpgrade_lines [OF p ne(1), of "[]"] r len by simp
  then show ?thesis
    using ne(2) by (simp add: upgrade_lines_def request_first_line [OF assms(1)] request_header_lines [OF assms(1)]
        upgrade_checks_def request_vars_def)
qed

lemma parse_oversized:
  assumes "options_ok opts key" "uo_extra opts = with_crlf extras" "plain_lines extras"
    and "max_http_head_size < length (upgradeRequest opts key)"
  shows "parseUpgrade (upgradeRequest opts key) = Inl HeaderTooLarge"
proof -
  have p: "plain_lines (first_line opts # request_lines opts key @ extras)"
    by (rule request_lines_plain [OF assms(1,3)])
  have "request_lines opts key @ extras \<noteq> []" by (simp add: request_lines_def)
  from parseUpgrade_lines [OF p this, of "[]"] show ?thesis
    using assms(4) request_as_lines [OF assms(2), of key] by (simp add: crlf_def)
qed

subsection \<open>The six bad requests\<close>

definition fill_line :: bytes where
  "fill_line = ascii ''X-Fill: '' @ replicate 9000 120"

definition bad_requests :: "(upgrade_options \<times> conn_error) list" where
  "bad_requests =
    [(upgrade_defaults\<lparr>uo_origin := ascii ''https://evil.example''\<rparr>, CeOriginRejected),
     (upgrade_defaults\<lparr>uo_host := ascii ''evil.example:8444''\<rparr>, CeHostSniMismatch),
     (upgrade_defaults\<lparr>uo_path := ascii ''/wrong''\<rparr>, CeUpgrade WrongPath),
     (upgrade_defaults\<lparr>uo_protocol := ascii ''other.v1''\<rparr>, CeUpgrade MissingSubprotocol),
     (upgrade_defaults\<lparr>uo_version := ascii ''12''\<rparr>, CeUpgrade WrongWebSocketVersion),
     (upgrade_defaults\<lparr>uo_extra := fill_line @ crlf\<rparr>, CeUpgrade HeaderTooLarge)]"

text \<open>The gateway of the validation stack: its origin list and the name its TLS client asked for.\<close>

definition validation_gate :: "wss_gate \<Rightarrow> bool" where
  "validation_gate g \<longleftrightarrow> op_allowed (gate_policy g) = [ascii ''http://127.0.0.1:5173''] \<and> gate_server_name g = Some (ascii ''localhost'')"

lemma validKey_byte:
  assumes "validKey key" "b \<in> set key"
  shows "isAlphanumeric b \<or> b = 43 \<or> b = 47 \<or> b = 61"
proof -
  have "key = take 22 key @ [61, 61]" using assms(1) by (metis append_take_drop_id validKey_def)
  then have "b \<in> set (take 22 key) \<or> b = 61" using assms(2) by (metis Un_iff empty_iff insert_iff list.set set_append)
  then show ?thesis
    using assms(1) by (auto simp: validKey_def list_all_iff base64_value_def isAlphanumeric_def split: if_splits)
qed

lemma alnum_text: "isAlphanumeric b \<or> b = 43 \<or> b = 47 \<or> b = 61 \<Longrightarrow> 33 \<le> b \<and> b < 128"
  by (auto simp: isAlphanumeric_def isDigit_def word_le_nat_alt word_less_nat_alt)

lemma validKey_field: "validKey key \<Longrightarrow> field_ok key"
proof -
  assume k: "validKey key"
  then have ne: "key \<noteq> []" by (auto simp: validKey_def)
  have b: "33 \<le> b" if "b \<in> set key" for b using validKey_byte [OF k that] alnum_text by blast
  then have "b \<notin> {32, 9, 0, 13, 10} \<and> \<not> b < 0x20" if "b \<in> set key" for b
    using that by (fastforce simp: word_le_nat_alt word_less_nat_alt)
  then show ?thesis using ne by (auto simp: field_ok_def validHeaderValue_def list_all_iff)
qed

lemma field_ok_computed:
  "field_ok (ascii ''localhost:8444'')" "field_ok (ascii ''http://127.0.0.1:5173'')" "field_ok (ascii ''13'')"
  "field_ok (ascii ''lyune.v2'')" "field_ok (ascii ''https://evil.example'')" "field_ok (ascii ''evil.example:8444'')"
  "field_ok (ascii ''other.v1'')" "field_ok (ascii ''12'')"
  by (simp_all add: field_ok_def validHeaderValue_def)

lemma tokens_computed: "containsToken (ascii ''lyune.v2'') ws_subprotocol" "\<not> containsToken (ascii ''other.v1'') ws_subprotocol"
  by (simp_all add: containsToken_def trimOws_def eqlIgnoreCase_def lower_simps ws_subprotocol_def)

lemma hosts_computed:
  "hostMatchesServerName (ascii ''localhost:8444'') (Some (ascii ''localhost''))"
  "\<not> hostMatchesServerName (ascii ''evil.example:8444'') (Some (ascii ''localhost''))"
  by (simp_all add: hostMatchesServerName_def eqlIgnoreCase_def lower_simps isDigit_def dec_value_def Let_def)

lemma key_length: "validKey key \<Longrightarrow> length key = 24"
  by (simp add: validKey_def)

lemma texts_computed:
  "length ws_path = 9" "ascii ''/lyune/v2'' = ws_path" "ascii ''/wrong'' \<noteq> ws_path" "ascii ''12'' \<noteq> ascii ''13''"
  "ascii ''https://evil.example'' \<noteq> ascii ''http://127.0.0.1:5173''"
  by (simp_all add: ws_path_def)

lemmas texts = field_ok_computed tokens_computed hosts_computed texts_computed

text \<open>The gateway's verdict on a request without extra lines.\<close>

lemma turn_verdict:
  assumes "validKey key" "validation_gate g" "options_ok opts key" "uo_extra opts = []"
    and "length (upgradeRequest opts key) \<le> max_http_head_size" "c_plain c = upgradeRequest opts key"
    and "uo_path opts \<noteq> ws_path \<and> e = CeUpgrade WrongPath
      \<or> uo_path opts = ws_path \<and> uo_version opts \<noteq> ascii ''13'' \<and> e = CeUpgrade WrongWebSocketVersion
      \<or> uo_path opts = ws_path \<and> uo_version opts = ascii ''13'' \<and> \<not> containsToken (uo_protocol opts) ws_subprotocol
          \<and> e = CeUpgrade MissingSubprotocol
      \<or> uo_path opts = ws_path \<and> uo_version opts = ascii ''13'' \<and> containsToken (uo_protocol opts) ws_subprotocol
          \<and> uo_origin opts \<noteq> ascii ''http://127.0.0.1:5173'' \<and> e = CeOriginRejected
      \<or> uo_path opts = ws_path \<and> uo_version opts = ascii ''13'' \<and> containsToken (uo_protocol opts) ws_subprotocol
          \<and> uo_origin opts = ascii ''http://127.0.0.1:5173''
          \<and> \<not> hostMatchesServerName (uo_host opts) (Some (ascii ''localhost'')) \<and> e = CeHostSniMismatch"
  shows "upgrade_turn digest g c = Inl e"
proof -
  have g: "origin_allows (gate_policy g) (Some x) \<longleftrightarrow> x = ascii ''http://127.0.0.1:5173''" for x
    using assms(2) by (auto simp: origin_allows_def validation_gate_def simp del: ascii_simps)
  have sn: "gate_server_name g = Some (ascii ''localhost'')" using assms(2) by (simp add: validation_gate_def)
  have len: "\<not> max_http_head_size < length (upgradeRequest opts key)" using assms(5) by simp
  note parse = parse_upgradeRequest [OF assms(3,4), unfolded if_not_P [OF len]]
  show ?thesis
    using assms(1,7) by (elim disjE conjE) (simp_all add: upgrade_turn_def assms(6) parse g sn del: ascii_simps)
qed

lemma default_options_ok:
  "field_ok key \<Longrightarrow> field_ok host \<Longrightarrow> field_ok origin \<Longrightarrow> field_ok version \<Longrightarrow> field_ok protocol \<Longrightarrow>
    32 \<notin> set pth \<Longrightarrow> 13 \<notin> set pth \<Longrightarrow> options_ok \<lparr>uo_host = host, uo_origin = origin, uo_path = pth, uo_version = version,
      uo_protocol = protocol, uo_extra = x\<rparr> key"
  by (simp add: options_ok_def)

lemma paths_plain: "32 \<notin> set ws_path" "13 \<notin> set ws_path" "32 \<notin> set (ascii ''/wrong'')" "13 \<notin> set (ascii ''/wrong'')"
  by (simp_all add: ws_path_def)

lemma request_length:
  "length (upgradeRequest opts key) = length (uo_path opts) + length (uo_host opts) + length (uo_origin opts)
     + length (uo_version opts) + length (uo_protocol opts) + length (uo_extra opts) + length key + 148"
  by (simp add: upgradeRequest_def crlf_def)

lemma bad_request_refused:
  assumes "validKey key" "validation_gate g" "c_plain c = upgradeRequest opts key" "(opts, e) \<in> set bad_requests"
  shows "upgrade_turn digest g c = Inl e"
proof -
  have k: "field_ok key" "length key = 24" using assms(1) by (simp_all add: validKey_field key_length)
  note ok = default_options_ok [OF k(1)] and short = texts(1-8)
  have len: "length (upgradeRequest o1 key) \<le> max_http_head_size"
    if "length (uo_path o1) + length (uo_host o1) + length (uo_origin o1) + length (uo_version o1)
      + length (uo_protocol o1) + length (uo_extra o1) \<le> 8000" for o1
    using that k(2) by (simp add: request_length max_http_head_size_def)
  from assms(4) consider "opts = upgrade_defaults\<lparr>uo_origin := ascii ''https://evil.example''\<rparr>" "e = CeOriginRejected"
    | "opts = upgrade_defaults\<lparr>uo_host := ascii ''evil.example:8444''\<rparr>" "e = CeHostSniMismatch"
    | "opts = upgrade_defaults\<lparr>uo_path := ascii ''/wrong''\<rparr>" "e = CeUpgrade WrongPath"
    | "opts = upgrade_defaults\<lparr>uo_protocol := ascii ''other.v1''\<rparr>" "e = CeUpgrade MissingSubprotocol"
    | "opts = upgrade_defaults\<lparr>uo_version := ascii ''12''\<rparr>" "e = CeUpgrade WrongWebSocketVersion"
    | "opts = upgrade_defaults\<lparr>uo_extra := fill_line @ crlf\<rparr>" "e = CeUpgrade HeaderTooLarge"
    unfolding bad_requests_def by (simp only: list.set insert_iff empty_iff prod.inject) blast
  then show ?thesis
  proof cases
    case 6
    have "options_ok opts key"
      unfolding 6 upgrade_defaults_def by (simp only: upgrade_options.update_convs ok texts paths_plain not_False_eq_True)
    moreover have "uo_extra opts = with_crlf [fill_line]" "plain_lines [fill_line]"
      by (simp_all add: 6 with_crlf_def plain_lines_def fill_line_def)
    moreover have "max_http_head_size < length (upgradeRequest opts key)"
      by (simp add: 6 request_length max_http_head_size_def fill_line_def)
    ultimately have "parseUpgrade (upgradeRequest opts key) = Inl HeaderTooLarge" by (rule parse_oversized)
    then show ?thesis using assms(3) 6(2) by (simp add: upgrade_turn_def)
  qed (rule turn_verdict [OF assms(1,2) _ _ len assms(3)];
      simp add: upgrade_defaults_def ok texts paths_plain del: ascii_simps(2))+
qed

text \<open>C28: Each of the six bad Upgrade requests of the negative gate is refused by the gateway with the error it is
  meant to provoke, whatever the key: \<open>processPlain\<close> fails with it and nothing is queued, so no 101
  answer can go out.\<close>

theorem bad_upgrades_refused:
  assumes "validKey key" "validation_gate g" "(opts, e) \<in> set bad_requests"
    and "c = (conn_before q)\<lparr>c_plain := upgradeRequest opts key\<rparr>"
  shows "process_input digest g worker h c = Some (Some e, h, c, [])"
  by (rule process_input_refused [OF bad_request_refused [OF assms(1,2) _ assms(3)]])
    (simp_all add: assms(4) conn_before_def conn_new_def upgradeRequest_def)

definition demo_key :: bytes where "demo_key = ascii ''dGhlIHNhbXBsZSBub25jZQ==''"

lemma demo_key_valid: "validKey demo_key"
  by (simp add: validKey_def demo_key_def base64_value_def isDigit_def)

definition demo_gate :: wss_gate where
  "demo_gate = \<lparr>gate_policy = \<lparr>op_allowed = [ascii ''http://127.0.0.1:5173''], op_allow_missing = False\<rparr>,
     gate_server_name = Some (ascii ''localhost''), gate_accepts = True\<rparr>"

lemma demo_gate_ok: "validation_gate demo_gate"
  by (simp add: validation_gate_def demo_gate_def)

theorem bad_upgrades_refused_witness:
  "\<exists>c opts. (opts, CeHostSniMismatch) \<in> set bad_requests
     \<and> process_input (\<lambda>_. []) demo_gate (\<lambda>h c ev. (h, [])) () c = Some (Some CeHostSniMismatch, (), c, [])"
proof -
  have m: "(upgrade_defaults\<lparr>uo_host := ascii ''evil.example:8444''\<rparr>, CeHostSniMismatch) \<in> set bad_requests"
    unfolding bad_requests_def by (simp only: list.set insert_iff simp_thms)
  from bad_upgrades_refused [OF demo_key_valid demo_gate_ok m refl, of "\<lambda>_. []" "\<lambda>h c ev. (h, [])" "()" demo_queue] m
  show ?thesis by blast
qed

subsection \<open>The handshake of a good client\<close>

text \<open>What \<open>digest\<close> gives: the base64 form of a SHA-1 value.\<close>

definition digest_text :: "bytes \<Rightarrow> bool" where
  "digest_text d \<longleftrightarrow> length d = 28 \<and> (\<forall>b \<in> set d. isAlphanumeric b \<or> b = 43 \<or> b = 47 \<or> b = 61)"

lemma any_suffix_app: "any_suffix p s \<Longrightarrow> any_suffix p (pre @ s)"
  by (induction pre) auto

lemma any_suffix_self: "p s \<Longrightarrow> any_suffix p s"
  by (cases s) auto

lemma index_of_infix: "pat \<noteq> [] \<Longrightarrow> index_of pat (pre @ pat @ post) \<noteq> None"
  by (induction pre) (auto simp: index_of_here)

lemma response_lines:
  "upgrade_response accept = joined [ascii ''HTTP/1.1 101 Switching Protocols'', ascii ''Upgrade: websocket'',
     ascii ''Connection: Upgrade'', ascii ''Sec-WebSocket-Accept: '' @ accept, ascii ''Sec-WebSocket-Protocol: '' @ ws_subprotocol]
   @ crlf @ crlf"
  by (simp add: upgrade_response_def)

lemma digest_plain: "digest_text d \<Longrightarrow> 13 \<notin> set d"
  using alnum_text by (fastforce simp: digest_text_def word_le_nat_alt)

lemma response_end:
  assumes "digest_text accept"
  shows "index_of (crlf @ crlf) (upgrade_response accept) = Some (length (upgrade_response accept) - 4)"
proof -
  have "plain_lines [ascii ''HTTP/1.1 101 Switching Protocols'', ascii ''Upgrade: websocket'',
     ascii ''Connection: Upgrade'', ascii ''Sec-WebSocket-Accept: '' @ accept, ascii ''Sec-WebSocket-Protocol: '' @ ws_subprotocol]"
    using digest_plain [OF assms] by (simp add: plain_lines_def ws_subprotocol_def)
  from head_end [OF this, of "[]"] show ?thesis
    unfolding response_lines by (simp add: crlf_def)
qed

lemma and_7f: "b < 128 \<Longrightarrow> b AND 0x7f = (b :: byte)"
proof -
  assume "b < 128"
  then have "take_bit 7 (unat b) = unat b" by (simp add: word_less_nat_alt take_bit_nat_eq_self)
  moreover have "unat (take_bit 7 b) = take_bit 7 (unat b)" by (rule unsigned_take_bit_eq)
  ultimately have "take_bit 7 b = b" by (metis unsigned_word_eqI)
  then show ?thesis by (simp add: take_bit_eq_mask mask_eq_exp_minus_1)
qed

lemma ascii_head_id: "(\<forall>b \<in> set bs. b < 128) \<Longrightarrow> ascii_head bs = bs"
  by (simp add: ascii_head_def map_idI and_7f)

lemma response_ascii:
  assumes "digest_text accept"
  shows "ascii_head (upgrade_response accept) = upgrade_response accept"
proof (rule ascii_head_id)
  have "\<forall>b \<in> set accept. b < 128" using assms alnum_text by (auto simp: digest_text_def)
  then show "\<forall>b \<in> set (upgrade_response accept). b < 128"
    by (auto simp: upgrade_response_def ws_subprotocol_def crlf_def)
qed

lemma response_accepted:
  assumes "digest_text (digest (key @ websocket_guid))"
  shows "head_accepted digest key (upgrade_response (digest (key @ websocket_guid))) = Inr ()"
proof -
  let ?d = "digest (key @ websocket_guid)" and ?r = "upgrade_response (digest (key @ websocket_guid))"
  have s: "starts_with (ascii ''HTTP/1.1 101 '') ?r"
    by (simp add: starts_with_def upgrade_response_def)
  have "map lower ?r = map lower (ascii ''HTTP/1.1 101 Switching Protocols'' @ crlf
     @ ascii ''Upgrade: websocket'' @ crlf @ ascii ''Connection: Upgrade'' @ crlf
     @ ascii ''Sec-WebSocket-Accept: '' @ ?d @ crlf)
     @ (ascii ''sec-websocket-protocol:'' @ 32 # ws_subprotocol @ crlf @ crlf)"
    by (simp add: upgrade_response_def lower_simps ws_subprotocol_def crlf_def)
  moreover have "any_suffix (\<lambda>s. starts_with (ascii ''sec-websocket-protocol:'') s
     \<and> starts_with ws_subprotocol (dropWhile js_blank (drop 23 s))) (pre @ ascii ''sec-websocket-protocol:'' @ 32 # ws_subprotocol @ crlf @ crlf)" for pre
    by (rule any_suffix_app, rule any_suffix_self) (simp add: starts_with_def js_blank_def ws_subprotocol_def)
  ultimately have p: "protocol_confirmed (map lower ?r)" unfolding protocol_confirmed_def by (simp only:)
  have e: "map lower ?r = map lower (ascii ''HTTP/1.1 101 Switching Protocols'' @ crlf
     @ ascii ''Upgrade: websocket'' @ crlf @ ascii ''Connection: Upgrade'' @ crlf)
     @ map lower (ascii ''sec-websocket-accept: '' @ ?d)
     @ map lower (crlf @ ascii ''Sec-WebSocket-Protocol: '' @ ws_subprotocol @ crlf @ crlf)"
    by (simp add: upgrade_response_def lower_simps)
  have "index_of (map lower (ascii ''sec-websocket-accept: '' @ ?d)) (map lower ?r) \<noteq> None"
    unfolding e by (rule index_of_infix) simp
  then show ?thesis using s p by (simp add: head_accepted_def)
qed

lemma default_fields:
  "uo_host upgrade_defaults = ascii ''localhost:8444''" "uo_origin upgrade_defaults = ascii ''http://127.0.0.1:5173''"
  "uo_path upgrade_defaults = ws_path" "uo_version upgrade_defaults = ascii ''13''"
  "uo_protocol upgrade_defaults = ascii ''lyune.v2''" "uo_extra upgrade_defaults = []"
  by (simp_all add: upgrade_defaults_def ws_path_def)

lemma default_turn:
  assumes "validKey key" "validation_gate g" "gate_accepts g" "c_plain c = smoke_upgrade_request key"
    and "digest_text (digest (key @ websocket_guid))"
    and "enqueueRaw (c_output c) (upgrade_response (digest (key @ websocket_guid))) = Inr q'"
  shows "upgrade_turn digest g c = Inr (Some (c\<lparr>c_output := q', c_session := True, c_state := StOpen, c_plain := []\<rparr>))"
proof -
  have k: "field_ok key" "length key = 24" using assms(1) by (simp_all add: validKey_field key_length)
  have req: "c_plain c = upgradeRequest upgrade_defaults key" using assms(4) by (simp add: smoke_request_default)
  have ok: "options_ok upgrade_defaults key"
    unfolding upgrade_defaults_def by (simp add: default_options_ok [OF k(1)] texts paths_plain del: ascii_simps(2))
  have ex: "uo_extra upgrade_defaults = []" by (simp add: upgrade_defaults_def)
  have len: "\<not> max_http_head_size < length (upgradeRequest upgrade_defaults key)"
    using k(2) by (simp add: request_length max_http_head_size_def upgrade_defaults_def)
  note parse = parse_upgradeRequest [OF ok ex, unfolded if_not_P [OF len]]
  have g: "origin_allows (gate_policy g) (Some (ascii ''http://127.0.0.1:5173''))" "gate_server_name g = Some (ascii ''localhost'')"
    using assms(2) by (simp_all add: origin_allows_def validation_gate_def)
  have r: "buildUpgradeResponse digest upgrade_buffer key = Inr (upgrade_response (digest (key @ websocket_guid)))"
    using assms(1,5) by (simp add: buildUpgradeResponse_def upgrade_buffer_def length_upgrade_response digest_text_def)
  show ?thesis
    using assms(1,3,6) g
    by (simp add: upgrade_turn_def req parse r default_fields texts del: ascii_simps)
qed

text \<open>C27: The handshake completes: the Node client's Upgrade request, with any valid key, opens the gateway's
  connection and queues the 101 response, and on that response \<open>connect\<close> resolves, with its timer
  cleared and no byte left over. \<open>digest\<close> need only give some base64 text of 28 characters.\<close>

theorem handshake_completes:
  assumes "validKey key" "validation_gate g" "gate_accepts g" "digest_text (digest (key @ websocket_guid))"
    and "enqueueRaw q (upgrade_response (digest (key @ websocket_guid))) = Inr q'"
  shows "(\<exists>c'. process_input digest g worker h ((conn_before q)\<lparr>c_plain := smoke_upgrade_request key\<rparr>) = Some (None, h, c', [])
      \<and> c_state c' = StOpen \<and> c_session c' \<and> c_plain c' = [] \<and> c_output c' = q')
    \<and> (\<exists>l. connect_data digest utf8 json (connect_start key) (upgrade_response (digest (key @ websocket_guid))) = (None, l, [])
      \<and> sl_promise l = Some (Inr ()) \<and> sc_upgraded (sl_client l) \<and> \<not> sl_timer l \<and> sc_input (sl_client l) = [])"
proof
  let ?c = "(conn_before q)\<lparr>c_plain := smoke_upgrade_request key\<rparr>"
  let ?d = "digest (key @ websocket_guid)"
  have c: "c_plain ?c = smoke_upgrade_request key" "c_output ?c = q"
    by (simp_all add: conn_before_def conn_new_def)
  have t: "upgrade_turn digest g ?c = Inr (Some (?c\<lparr>c_output := q', c_session := True, c_state := StOpen, c_plain := []\<rparr>))"
    by (rule default_turn [where key = key and digest = digest]) (simp_all only: c assms)
  have "process_input digest g worker h ?c = Some (None, h, ?c\<lparr>c_output := q', c_session := True, c_state := StOpen, c_plain := []\<rparr>, [])"
    by (rule process_input_upgraded [OF t])
      (simp_all add: conn_before_def conn_new_def smoke_upgrade_request_def)
  then show "\<exists>c'. process_input digest g worker h ?c = Some (None, h, c', [])
      \<and> c_state c' = StOpen \<and> c_session c' \<and> c_plain c' = [] \<and> c_output c' = q'"
    by (intro exI conjI) (assumption, simp_all)
  have len: "length (upgrade_response ?d) - 4 + 4 = length (upgrade_response ?d)"
    by (simp add: length_upgrade_response)
  show "\<exists>l. connect_data digest utf8 json (connect_start key) (upgrade_response ?d) = (None, l, [])
      \<and> sl_promise l = Some (Inr ()) \<and> sc_upgraded (sl_client l) \<and> \<not> sl_timer l \<and> sc_input (sl_client l) = []"
    using response_end [OF assms(4)] response_accepted [where digest = digest and key = key, OF assms(4)] response_ascii [OF assms(4)] len
    by (simp add: connect_data_def connect_start_def smoke_new_def settle_link_def drain_idle serverFrame_def Let_def)
qed

definition wide_queue :: out_queue where
  "wide_queue = demo_queue\<lparr>q_bytes := replicate 256 0\<rparr>"

theorem handshake_completes_witness:
  "\<exists>q' c'. process_input (\<lambda>_. replicate 28 65) demo_gate (\<lambda>h c ev. (h, [])) ()
     ((conn_before wide_queue)\<lparr>c_plain := smoke_upgrade_request demo_key\<rparr>) = Some (None, (), c', []) \<and> c_output c' = q'"
proof -
  have d: "digest_text (replicate 28 65)" by (simp add: digest_text_def isAlphanumeric_def)
  obtain q' where q: "enqueueRaw wide_queue (upgrade_response (replicate 28 65)) = Inr q'"
    by (cases "enqueueRaw wide_queue (upgrade_response (replicate 28 65))")
      (auto simp: enqueueRaw_def wide_queue_def demo_queue_def length_upgrade_response hasCapacity_def Let_def)
  have a: "gate_accepts demo_gate" by (simp add: demo_gate_def)
  show ?thesis
    using handshake_completes [where digest = "\<lambda>_. replicate 28 65" and worker = "\<lambda>h c ev. (h, [])" and h = "()"
        and key = demo_key and g = demo_gate and q = wide_queue and q' = q', OF demo_key_valid demo_gate_ok a d q] by blast
qed

end
