(* ===== verification/Node_To_Gateway.thy ===== *)
theory Node_To_Gateway
  imports Smoke_Client Wss_Connection
begin

section \<open>From the validation client to the Worker\<close>

text \<open>
  The composition of \<open>validation/wss-smoke.mjs\<close> with \<open>src/wss\<close>: a record the Node client encodes, masks
  and sends is parsed, unmasked, reassembled and decoded by the gateway's connection to the event that
  the Worker is handed; a message may be cut into fragments with control frames between them.
\<close>

subsection \<open>Masked frames\<close>

lemma maskedFrame_layout:
  "maskedFrame mk pl oc fn = [(if fn then 0x80 else 0) OR of_nat oc, 0x80 OR ws_len7 (length pl)]
     @ ws_len_ext (length pl) @ mk @ unmask mk pl"
  by (simp add: maskedFrame_def ws_len7_def ws_len_ext_def unmask_def Let_def)

definition wire_frame :: "bytes \<Rightarrow> ws_frame \<Rightarrow> bytes" where
  "wire_frame mk f = maskedFrame mk (w_payload f) (unat (opcode_code (w_opcode f))) (w_fin f)"

text \<open>The frames the gateway takes: the payload fits, a control frame is short and whole.\<close>

definition sendable :: "ws_frame \<Rightarrow> bool" where
  "sendable f \<longleftrightarrow> length (w_payload f) \<le> max_record_size \<and>
     (isControl (w_opcode f) \<longrightarrow> w_fin f \<and> length (w_payload f) \<le> 125 \<and> (w_opcode f = OpClose \<longrightarrow> length (w_payload f) \<noteq> 1))"

lemma first_byte:
  "(((if fn then 0x80 else 0) OR opcode_code oc) AND 0x70 :: byte) = 0"
  "opcode_decode (((if fn then 0x80 else 0) OR opcode_code oc) AND 0x0F) = Some oc"
  "((((if fn then 0x80 else 0) OR opcode_code oc) AND 0x80 :: byte) \<noteq> 0) = fn"
  by (cases oc; cases fn; simp add: opcode_decode_def)+

lemma length_wire_frame:
  "length mk = 4 \<Longrightarrow> length (wire_frame mk f) = 6 + length (ws_len_ext (length (w_payload f))) + length (w_payload f)"
  by (simp add: wire_frame_def maskedFrame_layout)

lemma wire_frame_nonempty: "length mk = 4 \<Longrightarrow> wire_frame mk f \<noteq> []"
  using length_wire_frame [of mk f] by auto

lemma max_record_size_value: "max_record_size = 65563"
  by (simp add: envelope_sizes frame_sizes)

lemma parse_wire_frame:
  assumes "length mk = 4" "sendable f"
  shows "parseClientFrame (wire_frame mk f @ rest) max_record_size = Inr (f, length (wire_frame mk f))"
proof -
  let ?n = "length (w_payload f)" and ?b = "(if w_fin f then 0x80 else 0) OR opcode_code (w_opcode f)"
  have n: "?n < 2 ^ 63" "?n \<le> max_record_size" using assms(2) by (simp_all add: sendable_def max_record_size_value)
  have "parseClientFrame ([?b, 0x80 OR ws_len7 ?n] @ ws_len_ext ?n @ mk @ unmask mk (w_payload f) @ rest) max_record_size =
    Inr (\<lparr>w_opcode = w_opcode f, w_fin = (?b AND 0x80 \<noteq> 0), w_payload = unmask mk (unmask mk (w_payload f))\<rparr>,
         2 + length (ws_len_ext ?n) + 4 + ?n)"
    by (rule parseClientFrame_masked [OF n assms(1) length_unmask first_byte(1,2)])
      (use assms(2) in \<open>auto simp: sendable_def first_byte\<close>)
  then show ?thesis
    using assms(1) by (simp add: wire_frame_def maskedFrame_layout first_byte)
qed

definition wire_frames :: "(bytes \<times> ws_frame) list \<Rightarrow> bytes" where
  "wire_frames fs = concat (map (\<lambda>(mk, f). wire_frame mk f) fs)"

lemma scan_wire_frames:
  "\<forall>(mk, f) \<in> set fs. length mk = 4 \<and> sendable f \<Longrightarrow>
    scan (ws_parser max_record_size) (wire_frames fs) = (map snd fs, None, [])"
proof (induction fs)
  case Nil
  then show ?case by (simp add: wire_frames_def ws_stream.scan_Nil)
next
  case (Cons x fs)
  obtain mk f where x: "x = (mk, f)" by (cases x)
  have "ws_parser max_record_size (wire_frame mk f @ wire_frames fs) = Inr (Some (f, length (wire_frame mk f)))"
    using parse_wire_frame [of mk f] Cons.prems x by (simp add: ws_parser_def)
  from scan_item [where p = "ws_parser max_record_size", OF this] Cons x show ?case
    using wire_frame_nonempty [of mk f] by (simp add: wire_frames_def)
qed

subsection \<open>Records\<close>

definition control_type_of :: "nat \<Rightarrow> record_type" where
  "control_type_of t = (if t = 2 then RtReset else RtStop)"

lemma smoke_encodeEnvelope_eq:
  assumes "streamID < 2 ^ 64" "appError < 2 ^ 32" "length pl < 2 ^ 32"
  shows "smoke_encodeEnvelope streamID pl fn ty appError =
    Inr (js_encodeEnvelope \<lparr>e_type = ty, e_fin = fn, e_streamID = streamID, e_appError = appError, e_payload = pl\<rparr>)"
  using assms by (simp add: smoke_encodeEnvelope_def js_encodeEnvelope_def js_constants Let_def)

lemma smoke_encodeEnvelope_Inr:
  assumes "smoke_encodeEnvelope streamID pl fn ty appError = Inr bs"
  shows "streamID < 2 ^ 64 \<and> appError < 2 ^ 32 \<and> length pl < 2 ^ 32"
  using assms by (auto simp: smoke_encodeEnvelope_def Let_def split: if_splits)

lemma js_envelope_is_record:
  assumes "sid < 2 ^ 64" "code < 2 ^ 32" "of_nat ty = record_type_code rt"
  shows "js_encodeEnvelope \<lparr>e_type = ty, e_fin = fn, e_streamID = sid, e_appError = code, e_payload = pl\<rparr>
    = env_header \<lparr>record_type = rt, fin = fn, stream_id = of_nat sid, app_error_code = of_nat code, payload = pl\<rparr> @ pl"
  using assms by (simp add: js_encodeEnvelope_eq env_header_def env_version_def unsigned_of_nat take_bit_eq_mod)

text \<open>What \<open>sendStreamRecord\<close> and \<open>sendControlRecord\<close> hand to \<open>maskedBinary\<close> decodes to the record meant.\<close>

lemma stream_record_decodes:
  assumes "sendStreamRecord sid pl fn = Inr effs" "length pl \<le> max_payload_size"
  obtains bs where "effs = [SMasked bs]" "length bs \<le> max_record_size"
    "env_decode bs = Inr \<lparr>record_type = RtStream, fin = fn, stream_id = of_nat sid, app_error_code = 0, payload = pl\<rparr>"
proof -
  obtain bs where e: "smoke_encodeEnvelope sid pl fn 1 0 = Inr bs" "effs = [SMasked bs]"
    using assms(1) by (auto simp: sendStreamRecord_def split: sum.splits)
  note b = smoke_encodeEnvelope_Inr [OF e(1)]
  let ?r = "\<lparr>record_type = RtStream, fin = fn, stream_id = of_nat sid, app_error_code = 0, payload = pl\<rparr> :: wss_record"
  have bs: "bs = env_header ?r @ payload ?r"
    using e(1) b smoke_encodeEnvelope_eq [of sid 0 pl fn 1] js_envelope_is_record [of sid 0 1 RtStream fn pl] by simp
  have ok: "env_ok ?r" using assms(2) by (simp add: env_ok_def env_validate_def)
  have "env_decode bs = Inr ?r" using env_decode_header [OF ok] bs by simp
  moreover have "length bs \<le> max_record_size" using bs env_ok_size [OF ok] by simp
  ultimately show ?thesis using e(2) that by blast
qed

lemma control_record_decodes:
  assumes "sendControlRecord ty sid code = Inr effs"
  obtains bs where "effs = [SMasked bs]" "length bs \<le> max_record_size"
    "env_decode bs = Inr \<lparr>record_type = control_type_of ty, fin = False, stream_id = of_nat sid,
       app_error_code = of_nat code, payload = []\<rparr>"
proof -
  have ty: "ty = 2 \<or> ty = 3" using assms by (auto simp: sendControlRecord_def split: if_splits)
  then obtain bs where e: "smoke_encodeEnvelope sid [] False ty code = Inr bs" "effs = [SMasked bs]"
    using assms by (auto simp: sendControlRecord_def split: sum.splits if_splits)
  note b = smoke_encodeEnvelope_Inr [OF e(1)]
  let ?r = "\<lparr>record_type = control_type_of ty, fin = False, stream_id = of_nat sid, app_error_code = of_nat code,
    payload = []\<rparr> :: wss_record"
  have "of_nat ty = record_type_code (control_type_of ty)" using ty by (auto simp: control_type_of_def)
  then have bs: "bs = env_header ?r @ payload ?r"
    using e(1) b smoke_encodeEnvelope_eq [of sid code "[]" False ty] js_envelope_is_record [of sid code ty "control_type_of ty" False "[]"] by simp
  have ok: "env_ok ?r" using ty by (auto simp: env_ok_def env_validate_def control_type_of_def)
  have "env_decode bs = Inr ?r" using env_decode_header [OF ok] bs by simp
  moreover have "length bs \<le> max_record_size" using bs env_ok_size [OF ok] by simp
  ultimately show ?thesis using e(2) that by blast
qed

subsection \<open>One message at the gateway\<close>

text \<open>The output queue after the pongs that answer the pings among some frames.\<close>

fun pongs :: "out_queue \<Rightarrow> ws_frame list \<Rightarrow> out_queue option" where
  "pongs q [] = Some q"
| "pongs q (f # fs) = (if w_opcode f = OpPing then
      (case enqueueControl q OpPong (w_payload f) of Inl e \<Rightarrow> None | Inr q1 \<Rightarrow> pongs q1 fs)
    else pongs q fs)"

lemma loop_go:
  "c_plain c \<noteq> [] \<Longrightarrow> c_state c \<noteq> StClosing \<Longrightarrow> open_turn worker h c = Some (Inr (h1, c1, [], True)) \<Longrightarrow>
    processPlain_loop worker h c = processPlain_loop worker h1 c1"
  by (subst processPlain_loop.simps) (cases "processPlain_loop worker h1 c1", auto)

lemma loop_empty: "c_plain c = [] \<Longrightarrow> processPlain_loop worker h c = Some (h, c, [], False)"
  by (subst processPlain_loop.simps) simp

text \<open>A frame that only moves the assembler, or is a ping, is taken off the input.\<close>

lemma turn_quiet:
  assumes "length mk = 4" "sendable f" "c_plain c = wire_frame mk f @ rest" "c_session c"
    and "asm_accept (c_asm c) f = Inr (MIncomplete, a)" "\<not> c_close_after_flush c"
  shows "open_turn worker h c = Some (Inr (h, c\<lparr>c_asm := a, c_plain := rest\<rparr>, [], True))"
  using assms by (simp add: open_turn_def parse_wire_frame handle_message_def)

lemma turn_control:
  assumes "length mk = 4" "sendable f" "c_plain c = wire_frame mk f @ rest" "c_session c"
    and "w_opcode f = OpPing \<or> w_opcode f = OpPong" "\<not> c_close_after_flush c" "pongs (c_output c) [f] = Some q"
  shows "open_turn worker h c = Some (Inr (h, c\<lparr>c_output := q, c_plain := rest\<rparr>, [], True))"
  using assms by (auto simp: open_turn_def parse_wire_frame handle_message_def asm_accept_def split: sum.splits)

definition quiet :: "ws_frame \<Rightarrow> bool" where
  "quiet f \<longleftrightarrow> w_opcode f = OpPing \<or> w_opcode f = OpPong \<or> (w_opcode f = OpContinuation \<and> \<not> w_fin f)"

lemma loop_quiet:
  assumes "\<forall>(mk, f) \<in> set fs. length mk = 4 \<and> sendable f \<and> quiet f"
    and "fragmented (c_asm c)" "length (scratch (c_asm c)) + length (data_of (map snd fs)) \<le> scratch_cap (c_asm c)"
    and "c_plain c = wire_frames fs @ rest" "c_session c" "\<not> c_close_after_flush c" "c_state c \<noteq> StClosing"
    and "pongs (c_output c) (map snd fs) = Some q"
  shows "processPlain_loop worker h c = processPlain_loop worker h
    (c\<lparr>c_plain := rest, c_output := q, c_asm := (c_asm c)\<lparr>scratch := scratch (c_asm c) @ data_of (map snd fs)\<rparr>\<rparr>)"
  using assms
proof (induction fs arbitrary: c)
  case Nil
  then have "c\<lparr>c_plain := rest, c_output := q, c_asm := (c_asm c)\<lparr>scratch := scratch (c_asm c) @ data_of (map snd [])\<rparr>\<rparr> = c"
    by (cases c; cases "c_asm c") (simp add: wire_frames_def data_of_def)
  then show ?case by simp
next
  case (Cons x fs)
  obtain mk f where x: "x = (mk, f)" by (cases x)
  note p = Cons.prems [unfolded x]
  have plain: "c_plain c = wire_frame mk f @ (wire_frames fs @ rest)"
    using p(4) by (simp add: wire_frames_def)
  have mkf: "length mk = 4" "sendable f" "quiet f" using p(1) by auto
  have ne: "c_plain c \<noteq> []" using plain wire_frame_nonempty [OF mkf(1)] by simp
  show ?case
  proof (cases "isControl (w_opcode f)")
    case True
    then have ctl: "w_opcode f = OpPing \<or> w_opcode f = OpPong" using mkf(3) by (auto simp: quiet_def)
    obtain q1 where q1: "pongs (c_output c) [f] = Some q1" "pongs q1 (map snd fs) = Some q"
      using p(8) by (auto split: if_splits sum.splits)
    have d: "data_of (map snd (x # fs)) = data_of (map snd fs)" using True x by (simp add: data_of_def)
    let ?c = "c\<lparr>c_output := q1, c_plain := wire_frames fs @ rest\<rparr>"
    have "processPlain_loop worker h c = processPlain_loop worker h ?c"
      by (rule loop_go [OF ne p(7) turn_control [OF mkf(1,2) plain p(5) ctl p(6) q1(1)]])
    also have "\<dots> = processPlain_loop worker h (?c\<lparr>c_plain := rest, c_output := q,
        c_asm := (c_asm ?c)\<lparr>scratch := scratch (c_asm ?c) @ data_of (map snd fs)\<rparr>\<rparr>)"
      by (rule Cons.IH) (use p q1 d x in auto)
    finally show ?thesis using d by simp
  next
    case False
    then have cont: "w_opcode f = OpContinuation" "\<not> w_fin f" using mkf(3) by (auto simp: quiet_def)
    have d: "data_of (map snd (x # fs)) = w_payload f @ data_of (map snd fs)" using False x by (simp add: data_of_def)
    let ?a = "(c_asm c)\<lparr>scratch := scratch (c_asm c) @ w_payload f\<rparr>"
    let ?c = "c\<lparr>c_asm := ?a, c_plain := wire_frames fs @ rest\<rparr>"
    have a: "asm_accept (c_asm c) f = Inr (MIncomplete, ?a)"
      using cont p(2,3) d x by (simp add: asm_accept_def asm_append_def)
    have "processPlain_loop worker h c = processPlain_loop worker h ?c"
      by (rule loop_go [OF ne p(7) turn_quiet [OF mkf(1,2) plain p(5) a p(6)]])
    also have "\<dots> = processPlain_loop worker h (?c\<lparr>c_plain := rest, c_output := q,
        c_asm := (c_asm ?c)\<lparr>scratch := scratch (c_asm ?c) @ data_of (map snd fs)\<rparr>\<rparr>)"
      by (rule Cons.IH) (use p d x cont in auto)
    finally show ?thesis using d by simp
  qed
qed

text \<open>The last frame of a message: its record goes to the Worker and the loop ends with the input.\<close>

lemma loop_message:
  assumes "length mk = 4" "sendable f" "c_plain c = wire_frame mk f" "c_session c" "c_state c \<noteq> StClosing"
    and "asm_accept (c_asm c) f = Inr (MBinary bs, a)" "env_decode bs = Inr r"
    and "record_event (c_highest_server c) r = Some ev"
    and "dispatch worker h (c\<lparr>c_asm := a\<rparr>) ev = Some (h1, c1)"
  shows "processPlain_loop worker h c = Some (h1, c1\<lparr>c_plain := []\<rparr>, [ev], False)"
proof -
  have "c_plain c1 = c_plain c"
    using assms(9) transports_keeps by (fastforce simp: dispatch_def split: prod.splits)
  then have t: "open_turn worker h c = Some (Inr (h1, c1\<lparr>c_plain := []\<rparr>, [ev], \<not> c_close_after_flush c1))"
    using assms parse_wire_frame [OF assms(1,2), of "[]"]
    by (simp add: open_turn_def handle_message_def)
  have "c_plain c \<noteq> []" using assms(3) wire_frame_nonempty [OF assms(1)] by simp
  then show ?thesis
    using t assms(5) by (subst processPlain_loop.simps) (simp add: loop_empty split: bool.split)
qed

subsection \<open>Properties\<close>

definition idle :: "wss_conn \<Rightarrow> bool" where
  "idle c \<longleftrightarrow> c_plain c = [] \<and> c_session c \<and> c_state c = StOpen \<and> \<not> c_close_after_flush c \<and> \<not> fragmented (c_asm c)"

lemma record_event_client:
  "unat sid mod 4 = 0 \<Longrightarrow>
    record_event hs \<lparr>record_type = RtStream, fin = fn, stream_id = sid, app_error_code = e, payload = pl\<rparr>
      = Some (EvStreamData sid pl fn)"
proof -
  assume "unat sid mod 4 = 0"
  then have s: "sid AND 3 = 0" by (simp add: and3_0)
  have "sid AND 2 = (sid AND 3) AND 2" by (simp add: and.assoc)
  then show ?thesis using s by (simp add: record_event_def)
qed

text \<open>C25: What the Node client sends on an exchange of its own arrives: under whatever mask, the gateway hands
  the Worker exactly one event, with the stream id, the payload and the FIN the client meant, and has
  then used up its input.\<close>

theorem node_record_reaches_worker:
  assumes "sendStreamRecord sid pl fn = Inr effs" "length pl \<le> max_payload_size" "sid mod 4 = 0"
    and "length mk = 4" "idle c"
  shows "\<exists>bs. effs = [SMasked bs] \<and>
    (\<forall>worker h h1 c1. dispatch worker h (c\<lparr>c_plain := maskedFrame mk bs 2 True\<rparr>) (EvStreamData (of_nat sid) pl fn) = Some (h1, c1)
      \<longrightarrow> processPlain worker h (c\<lparr>c_plain := maskedFrame mk bs 2 True\<rparr>)
          = Some (h1, c1\<lparr>c_plain := []\<rparr>, [EvStreamData (of_nat sid) pl fn], False))"
proof -
  obtain bs where bs: "effs = [SMasked bs]" "length bs \<le> max_record_size"
    "env_decode bs = Inr \<lparr>record_type = RtStream, fin = fn, stream_id = of_nat sid, app_error_code = 0, payload = pl\<rparr>"
    using stream_record_decodes [OF assms(1,2)] .
  have lt: "sid < 2 ^ 64"
    using assms(1) smoke_encodeEnvelope_Inr by (fastforce simp: sendStreamRecord_def split: sum.splits)
  then have m: "unat (of_nat sid :: u64) mod 4 = 0"
    using assms(3) by (simp add: unsigned_of_nat take_bit_eq_mod)
  let ?f = "\<lparr>w_opcode = OpBinary, w_fin = True, w_payload = bs\<rparr>"
  let ?c = "c\<lparr>c_plain := maskedFrame mk bs 2 True\<rparr>"
  have f: "sendable ?f" "maskedFrame mk bs 2 True = wire_frame mk ?f"
    using bs(2) by (simp_all add: sendable_def wire_frame_def)
  have c: "c_session ?c" "c_state ?c \<noteq> StClosing" "\<not> c_close_after_flush ?c"
    "asm_accept (c_asm ?c) ?f = Inr (MBinary bs, c_asm ?c)" "c_plain ?c = wire_frame mk ?f"
    using assms(5) f(2) by (simp_all add: idle_def asm_accept_def)
  have "processPlain worker h ?c = Some (h1, c1\<lparr>c_plain := []\<rparr>, [EvStreamData (of_nat sid) pl fn], False)"
    if "dispatch worker h ?c (EvStreamData (of_nat sid) pl fn) = Some (h1, c1)" for worker h h1 c1
    using loop_message [OF assms(4) f(1) c(5,1,2,4) bs(3) record_event_client [OF m]] that c(3)
    by (simp add: processPlain_def)
  then show ?thesis using bs(1) by blast
qed

lemma idle_new: "idle (conn_new q)"
  by (simp add: idle_def conn_new_def assembler_init_def)

theorem node_record_reaches_worker_witness:
  "\<exists>bs. sendStreamRecord 8 [7, 7] True = Inr [SMasked bs] \<and>
     processPlain (\<lambda>h c ev. (h, [])) () ((conn_new demo_queue)\<lparr>c_plain := maskedFrame [1, 2, 3, 4] bs 2 True\<rparr>)
       = Some ((), conn_new demo_queue, [EvStreamData 8 [7, 7] True], False)"
proof -
  obtain effs where effs: "sendStreamRecord 8 [7, 7] True = Inr effs"
    by (simp add: sendStreamRecord_def smoke_encodeEnvelope_eq)
  have len: "length [7, 7 :: byte] \<le> max_payload_size" and sid: "(8 :: nat) mod 4 = 0" and mk: "length [1, 2, 3, 4 :: byte] = 4"
    by (simp_all add: max_payload_size_def frame_sizes)
  from node_record_reaches_worker [OF effs len sid mk idle_new [of demo_queue], where 'a = unit]
  obtain bs where bs: "effs = [SMasked bs]" and d: "\<forall>worker (h :: unit) h1 c1. dispatch worker h
      ((conn_new demo_queue)\<lparr>c_plain := maskedFrame [1, 2, 3, 4] bs 2 True\<rparr>) (EvStreamData (of_nat 8) [7, 7] True) = Some (h1, c1)
    \<longrightarrow> processPlain worker h ((conn_new demo_queue)\<lparr>c_plain := maskedFrame [1, 2, 3, 4] bs 2 True\<rparr>)
      = Some (h1, c1\<lparr>c_plain := []\<rparr>, [EvStreamData (of_nat 8) [7, 7] True], False)"
    by blast
  have "((conn_new demo_queue)\<lparr>c_plain := maskedFrame [1, 2, 3, 4] bs 2 True\<rparr>)\<lparr>c_plain := []\<rparr> = conn_new demo_queue"
    by (simp add: conn_new_def)
  then show ?thesis
    using d [rule_format, of "\<lambda>h c ev. (h, [])" "()"] bs effs by (simp add: dispatch_def)
qed

lemma asm_accept_first:
  "w_opcode f = OpBinary \<Longrightarrow> \<not> w_fin f \<Longrightarrow> \<not> fragmented a \<Longrightarrow> length (w_payload f) \<le> scratch_cap a \<Longrightarrow>
    asm_accept a f = Inr (MIncomplete, a\<lparr>fragmented := True, scratch := w_payload f\<rparr>)"
  by (simp add: asm_accept_def asm_append_def)

lemma fragments_delivered:
  assumes masks: "\<forall>(mk, f) \<in> set ((mk0, f0) # mids @ [(mk1, f1)]). length mk = 4 \<and> sendable f"
    and shape: "w_opcode f0 = OpBinary" "\<not> w_fin f0" "\<forall>f \<in> set (map snd mids). quiet f" "w_opcode f1 = OpContinuation" "w_fin f1"
    and rec: "env_decode (w_payload f0 @ data_of (map snd mids) @ w_payload f1) = Inr r"
    and event: "record_event (c_highest_server c) r = Some ev"
    and conn: "idle c" "scratch_cap (c_asm c) = max_record_size" "pongs (c_output c) (map snd mids) = Some q"
    and worker: "dispatch worker h (c\<lparr>c_plain := wire_frame mk1 f1, c_output := q, c_asm := (c_asm c)\<lparr>fragmented := False, scratch := []\<rparr>\<rparr>) ev = Some (h1, c1)"
  shows "processPlain worker h (c\<lparr>c_plain := wire_frames ((mk0, f0) # mids @ [(mk1, f1)])\<rparr>)
    = Some (h1, c1\<lparr>c_plain := []\<rparr>, [ev], False)"
proof -
  let ?d = "data_of (map snd mids)" and ?a = "c_asm c"
  have "length (w_payload f0 @ ?d @ w_payload f1) \<le> max_record_size"
    using env_decode_Inr [OF rec] env_ok_size [of r] by (metis length_append length_env_header)
  then have len: "length (w_payload f0) + length ?d + length (w_payload f1) \<le> max_record_size" by simp
  let ?c = "c\<lparr>c_plain := wire_frames ((mk0, f0) # mids @ [(mk1, f1)])\<rparr>"
  let ?aA = "?a\<lparr>fragmented := True, scratch := w_payload f0\<rparr>"
  let ?cA = "?c\<lparr>c_asm := ?aA, c_plain := wire_frames mids @ wire_frame mk1 f1\<rparr>"
  let ?aB = "?a\<lparr>fragmented := True, scratch := w_payload f0 @ ?d\<rparr>"
  let ?cB = "?cA\<lparr>c_plain := wire_frame mk1 f1, c_output := q, c_asm := ?aB\<rparr>"
  have m: "length mk0 = 4" "sendable f0" "length mk1 = 4" "sendable f1"
    "\<forall>(mk, f) \<in> set mids. length mk = 4 \<and> sendable f \<and> quiet f"
    using masks shape(3) by auto
  have i: "c_session c" using conn(1) by (simp add: idle_def)
  have i2: "c_state c \<noteq> StClosing" using conn(1) by (simp add: idle_def)
  have i3: "\<not> c_close_after_flush c" using conn(1) by (simp add: idle_def)
  have i4: "\<not> fragmented (c_asm c)" using conn(1) by (simp add: idle_def)
  note i = i i2 i3 i4
  have a0: "asm_accept (c_asm ?c) f0 = Inr (MIncomplete, ?aA)"
    using asm_accept_first [OF shape(1,2) i(4)] len conn(2) by simp
  have "length (w_payload f1) \<le> max_record_size - (length (w_payload f0) + length ?d)" using len by simp
  then have a1: "asm_accept ?aB f1 = Inr (MBinary (w_payload f0 @ ?d @ w_payload f1), ?a\<lparr>fragmented := False, scratch := []\<rparr>)"
    using shape i conn(2) by (simp add: asm_accept_def asm_append_def)
  have "processPlain worker h ?c = processPlain_loop worker h ?c" using i by (simp add: processPlain_def)
  also have "\<dots> = processPlain_loop worker h ?cA"
  proof (rule loop_go [OF _ _ turn_quiet [OF m(1,2) _ _ a0]])
    show "c_plain ?c = wire_frame mk0 f0 @ wire_frames mids @ wire_frame mk1 f1"
      by (simp add: wire_frames_def)
    then show "c_plain ?c \<noteq> []" using wire_frame_nonempty [OF m(1)] by simp
  qed (use i in simp_all)
  also have "\<dots> = processPlain_loop worker h ?cB"
  proof -
    have "processPlain_loop worker h ?cA = processPlain_loop worker h (?cA\<lparr>c_plain := wire_frame mk1 f1, c_output := q,
      c_asm := (c_asm ?cA)\<lparr>scratch := scratch (c_asm ?cA) @ ?d\<rparr>\<rparr>)"
      by (rule loop_quiet [OF m(5)]) (use i conn len in simp_all)
    then show ?thesis by simp
  qed
  also have "\<dots> = Some (h1, c1\<lparr>c_plain := []\<rparr>, [ev], False)"
    by (rule loop_message [OF m(3,4) _ _ _ _ rec]) (use i a1 event worker in simp_all)
  finally show ?thesis .
qed

text \<open>C26: A message may come in any number of fragments, with pings and pongs between them: the gateway
  answers the pings in order and hands the Worker the one record that the fragments' bytes make.\<close>

theorem any_fragmentation_delivered:
  assumes masks: "\<forall>(mk, f) \<in> set ((mk0, f0) # mids @ [(mk1, f1)]). length mk = 4 \<and> sendable f"
    and shape: "w_opcode f0 = OpBinary" "\<not> w_fin f0" "\<forall>f \<in> set (map snd mids). quiet f" "w_opcode f1 = OpContinuation" "w_fin f1"
    and rec: "env_decode (w_payload f0 @ data_of (map snd mids) @ w_payload f1) = Inr r"
    and event: "record_event (c_highest_server c) r = Some ev"
    and conn: "idle c" "scratch_cap (c_asm c) = max_record_size" "pongs (c_output c) (map snd mids) = Some q"
    and worker: "dispatch worker h (c\<lparr>c_plain := wire_frame mk1 f1, c_output := q, c_asm := (c_asm c)\<lparr>fragmented := False, scratch := []\<rparr>\<rparr>) ev = Some (h1, c1)"
  shows "processPlain worker h (c\<lparr>c_plain := wire_frames ((mk0, f0) # mids @ [(mk1, f1)])\<rparr>)
    = Some (h1, c1\<lparr>c_plain := []\<rparr>, [ev], False)"
  by (rule fragments_delivered [OF assms])

theorem any_fragmentation_delivered_witness:
  "\<exists>q. processPlain (\<lambda>h c ev. (h, [])) () ((conn_new demo_queue)\<lparr>c_plain :=
       maskedFrame [1, 2, 3, 4] [1, 2, 0, 0, 0, 0, 0, 0, 0, 0] 2 False
       @ maskedFrame [5, 6, 7, 8] [63] 9 True
       @ maskedFrame [9, 9, 9, 9] [0, 8, 0, 0, 0, 7, 0, 0, 0, 0] 0 True\<rparr>)
     = Some ((), (conn_new demo_queue)\<lparr>c_output := q\<rparr>, [EvReset 8], False)"
proof -
  let ?fA = "\<lparr>w_opcode = OpBinary, w_fin = False, w_payload = [1, 2, 0, 0, 0, 0, 0, 0, 0, 0]\<rparr>"
  let ?p = "\<lparr>w_opcode = OpPing, w_fin = True, w_payload = [63]\<rparr>"
  let ?fB = "\<lparr>w_opcode = OpContinuation, w_fin = True, w_payload = [0, 8, 0, 0, 0, 7, 0, 0, 0, 0]\<rparr>"
  let ?mids = "[([5, 6, 7, 8], ?p)] :: (bytes \<times> ws_frame) list"
  obtain q where q: "enqueueControl demo_queue OpPong [63] = Inr q"
    by (simp add: enqueueControl_def encodeServerHeader_control length_ws_header hasCapacity_def demo_queue_def Let_def)
  have e: "env_decode ([1, 2, 0, 0, 0, 0, 0, 0, 0, 0, 0, 8, 0, 0, 0, 7, 0, 0, 0, 0]) =
      Inr \<lparr>record_type = RtReset, fin = False, stream_id = 8, app_error_code = 7, payload = []\<rparr>"
    by (simp add: env_decode_def envelope_sizes record_type_decode_def seg_def env_validate_def Let_def)
  have "processPlain (\<lambda>h c ev. (h, [])) () ((conn_new demo_queue)\<lparr>c_plain := wire_frames (([1, 2, 3, 4], ?fA) # ?mids @ [([9, 9, 9, 9], ?fB)])\<rparr>)
    = Some ((), ((conn_new demo_queue)\<lparr>c_plain := wire_frame [9, 9, 9, 9] ?fB, c_output := q, c_asm := (c_asm (conn_new demo_queue))\<lparr>fragmented := False, scratch := []\<rparr>\<rparr>)\<lparr>c_plain := []\<rparr>, [EvReset 8], False)"
    by (rule any_fragmentation_delivered [where r = "\<lparr>record_type = RtReset, fin = False, stream_id = 8, app_error_code = 7, payload = []\<rparr>"])
      (use q e idle_new [of demo_queue] in \<open>simp_all add: sendable_def quiet_def max_record_size_value data_of_def
        record_event_def dispatch_def conn_new_def assembler_init_def\<close>)
  then show ?thesis by (simp add: wire_frames_def wire_frame_def conn_new_def assembler_init_def)
qed

end
