(* ===== verification/Frame_Codec.thy ===== *)
theory Frame_Codec
  imports Lyune_Frame
begin

section \<open>Frame encoder and scanner (\<open>src/protocol/codec.zig\<close>)\<close>

text \<open>
  \<open>FrameEncoder\<close> writes a header and a body into the caller's buffer and returns the filled part of
  it. \<open>FrameScanner\<close> walks over a byte range frame by frame; \<open>parseExactFrame\<close> accepts a buffer that
  is exactly one frame. The scanner is shown to be an incremental parser, so what it delivers does
  not depend on how the transport cuts the stream.
\<close>

subsection \<open>Encoder\<close>

definition encoder_write :: "bytes \<Rightarrow> frame_header \<Rightarrow> bytes \<Rightarrow> frame_error + bytes" where
  "encoder_write buf h body = (case header_encode h buf of Inl e \<Rightarrow> Inl e
     | Inr (buf1, header_size) \<Rightarrow>
       let total = header_size + length body in
       if length buf1 < total then Inl BufferTooSmall
       else let buf2 = (if 0 < length body then blit buf1 header_size body else buf1)
            in Inr (take total buf2))"

definition encodeOpen ::
    "bytes \<Rightarrow> dest_kind \<Rightarrow> route_id \<Rightarrow> response_mode \<Rightarrow> frame_flags \<Rightarrow> bytes \<Rightarrow> frame_error + bytes" where
  "encodeOpen buf dk route rm fl body =
    (if MAX_BODY_SIZE < length body then Inl BodyTooLarge
     else encoder_write buf (initOpen dk route rm fl (of_nat (length body))) body)"

definition encodeData :: "bytes \<Rightarrow> frame_flags \<Rightarrow> bytes \<Rightarrow> frame_error + bytes" where
  "encodeData buf fl body =
    (if MAX_BODY_SIZE < length body then Inl BodyTooLarge
     else encoder_write buf (initData fl (of_nat (length body))) body)"

definition encodeControlFrame :: "bytes \<Rightarrow> control_type \<Rightarrow> bytes \<Rightarrow> frame_error + bytes" where
  "encodeControlFrame buf ct body = encodeOpen buf DkGateway (route_init 0 ct) RmNone flags_last body"

definition encodeHeartbeat :: "bytes \<Rightarrow> frame_error + bytes" where
  "encodeHeartbeat buf = encodeControlFrame buf ct_heartbeat []"
definition encodeHeartbeatAck :: "bytes \<Rightarrow> frame_error + bytes" where
  "encodeHeartbeatAck buf = encodeControlFrame buf ct_heartbeat_ack []"
definition encodePing :: "bytes \<Rightarrow> bytes \<Rightarrow> frame_error + bytes" where
  "encodePing buf payload = encodeControlFrame buf ct_ping payload"
definition encodePong :: "bytes \<Rightarrow> bytes \<Rightarrow> frame_error + bytes" where
  "encodePong buf payload = encodeControlFrame buf ct_pong payload"
definition encodeAuthRequest :: "bytes \<Rightarrow> bytes \<Rightarrow> frame_error + bytes" where
  "encodeAuthRequest buf token = encodeControlFrame buf ct_auth_request token"
definition encodeAuthSuccess :: "bytes \<Rightarrow> bytes \<Rightarrow> frame_error + bytes" where
  "encodeAuthSuccess buf granted = encodeControlFrame buf ct_auth_success granted"
definition encodeAuthFailure :: "bytes \<Rightarrow> bytes \<Rightarrow> frame_error + bytes" where
  "encodeAuthFailure buf reason = encodeControlFrame buf ct_auth_failure reason"
definition encodeGatewayError :: "bytes \<Rightarrow> bytes \<Rightarrow> frame_error + bytes" where
  "encodeGatewayError buf info = encodeControlFrame buf ct_gateway_error info"

text \<open>The encoder's result in closed form: header bytes, then the body.\<close>

lemma encoder_write_eq:
  assumes "fh_type h \<noteq> FtDatagram"
  shows "encoder_write buf h body =
    (if length buf < headerSize h + length body then Inl BufferTooSmall
     else Inr (header_bytes h @ body))"
proof (cases "length buf < headerSize h")
  case True
  then show ?thesis
    using assms by (simp add: encoder_write_def header_encode_errors)
next
  case False
  then show ?thesis
    using assms by (auto simp: encoder_write_def header_encode_eq Let_def blit_def)
qed

lemma fh_initOpen [simp]:
  "fh_type (initOpen dk r rm fl n) = FtOpen" "fh_body_len (initOpen dk r rm fl n) = n"
  "fh_flags (initOpen dk r rm fl n) = fl" "headerSize (initOpen dk r rm fl n) = 8"
  "fh_dest (initOpen dk r rm fl n) = dk" "fh_response (initOpen dk r rm fl n) = rm"
  "fh_group (initOpen dk r rm fl n) = ri_group r" "fh_route_key (initOpen dk r rm fl n) = ri_route_key r"
  by (simp_all add: initOpen_def headerSize_def frame_sizes)

lemma fh_initData [simp]:
  "fh_type (initData fl n) = FtData" "fh_body_len (initData fl n) = n"
  "fh_flags (initData fl n) = fl" "headerSize (initData fl n) = 4"
  by (simp_all add: initData_def headerSize_def frame_sizes)

lemma header_wf_init [simp]:
  "header_wf (initOpen dk r rm fl n) \<longleftrightarrow> rsv fl = 0"
  "header_wf (initData fl n) \<longleftrightarrow> rsv fl = 0 \<and> \<not> report fl"
  by (auto simp: header_wf_def initOpen_def initData_def)

subsection \<open>Scanner\<close>

record frame =
  f_header :: frame_header
  f_body :: bytes
  f_bytes :: bytes

record scanner =
  sc_data :: bytes
  sc_offset :: nat
  sc_max :: nat

definition scanner_next :: "scanner \<Rightarrow> frame_error + frame option \<times> scanner" where
  "scanner_next sc = (let rest = drop (sc_offset sc) (sc_data sc) in
     if length rest = 0 then Inr (None, sc)
     else case frame_type_decode (rest ! 0) of Inl e \<Rightarrow> Inl e
     | Inr ft \<Rightarrow>
       if ft = FtDatagram then Inl DatagramOnStream
       else let header_size = frame_type_headerSize ft in
         if length rest < header_size then Inr (None, sc)
         else (case header_decode (take header_size rest) of Inl e \<Rightarrow> Inl e
         | Inr h \<Rightarrow> let total = frameSize h in
             if sc_max sc < total then Inl FrameTooLarge
             else if length rest < total then Inr (None, sc)
             else Inr (Some \<lparr>f_header = h, f_body = drop header_size (take total rest),
                             f_bytes = take total rest\<rparr>,
                       sc\<lparr>sc_offset := sc_offset sc + total\<rparr>)))"

definition remainder :: "scanner \<Rightarrow> bytes" where
  "remainder sc = drop (sc_offset sc) (sc_data sc)"

definition parseExactFrame :: "bytes \<Rightarrow> frame_error + frame" where
  "parseExactFrame bs = (case header_decode bs of Inl e \<Rightarrow> Inl e
     | Inr h \<Rightarrow> let total = frameSize h in
       if length bs \<noteq> total then Inl FrameLengthMismatch
       else Inr \<lparr>f_header = h, f_body = drop (headerSize h) bs, f_bytes = bs\<rparr>)"

text \<open>One scanner step seen as a parser of the bytes that are left.\<close>

definition frame_parser :: "nat \<Rightarrow> (byte, frame_error, frame) parser" where
  "frame_parser m bs = (case scanner_next \<lparr>sc_data = bs, sc_offset = 0, sc_max = m\<rparr> of
     Inl e \<Rightarrow> Inl e
   | Inr (None, sc) \<Rightarrow> Inr None
   | Inr (Some f, sc) \<Rightarrow> Inr (Some (f, sc_offset sc)))"

lemma scanner_next_parser:
  "scanner_next sc = (case frame_parser (sc_max sc) (remainder sc) of
     Inl e \<Rightarrow> Inl e
   | Inr None \<Rightarrow> Inr (None, sc)
   | Inr (Some (f, n)) \<Rightarrow> Inr (Some f, sc\<lparr>sc_offset := sc_offset sc + n\<rparr>))"
  by (simp add: frame_parser_def scanner_next_def remainder_def Let_def split: sum.split)

text \<open>A well-formed frame: a decodable header and the body it announces.\<close>

definition frame_of :: "frame_header \<Rightarrow> bytes \<Rightarrow> frame" where
  "frame_of h body = \<lparr>f_header = h, f_body = body, f_bytes = header_bytes h @ body\<rparr>"

definition frame_ok :: "nat \<Rightarrow> frame_header \<Rightarrow> bytes \<Rightarrow> bool" where
  "frame_ok m h body \<longleftrightarrow> header_wf h \<and> length body = unat (fh_body_len h) \<and> frameSize h \<le> m"

lemma header_wf_not_datagram: "header_wf h \<Longrightarrow> fh_type h \<noteq> FtDatagram"
  by (simp add: header_wf_def)

lemma length_frame_bytes:
  "header_wf h \<Longrightarrow> length body = unat (fh_body_len h) \<Longrightarrow> length (header_bytes h @ body) = frameSize h"
  by (simp add: header_wf_not_datagram frameSize_def)

lemma header_bytes_nth0 [simp]: "(header_bytes h @ r) ! 0 = frame_type_code (fh_type h)"
  by (simp add: header_bytes_def)

lemma header_bytes_not_Nil [simp]: "header_bytes h \<noteq> []"
  by (simp add: header_bytes_def)

lemma frame_parser_frame:
  assumes "frame_ok m h body"
  shows "frame_parser m (header_bytes h @ body @ rest) = Inr (Some (frame_of h body, frameSize h))"
proof -
  have wf: "header_wf h" and nd: "fh_type h \<noteq> FtDatagram" and lb: "length body = unat (fh_body_len h)"
    and m: "frameSize h \<le> m"
    using assms by (auto simp: frame_ok_def header_wf_def)
  have hs: "frame_type_headerSize (fh_type h) = headerSize h"
    by (simp add: headerSize_def)
  have tk: "take (headerSize h) (header_bytes h @ body @ rest) = header_bytes h"
    using nd by simp
  have dec: "header_decode (header_bytes h) = Inr h"
    using header_decode_bytes [OF wf, of "[]"] by simp
  have fs: "frameSize h = headerSize h + length body"
    using lb by (simp add: frameSize_def)
  show ?thesis
    using nd m fs
    by (simp add: frame_parser_def scanner_next_def Let_def hs tk dec frame_of_def
        del: take_append)
       (simp add: take_add)
qed

lemma header_decode_type: "header_decode bs = Inr h \<Longrightarrow> frame_type_decode (bs ! 0) = Inr (fh_type h)"
  by (auto dest!: header_decode_Inr)

lemma frame_parser_def2:
  "frame_parser m bs =
    (if bs = [] then Inr None
     else case frame_type_decode (bs ! 0) of Inl e \<Rightarrow> Inl e
     | Inr ft \<Rightarrow>
       if ft = FtDatagram then Inl DatagramOnStream
       else if length bs < frame_type_headerSize ft then Inr None
       else (case header_decode (take (frame_type_headerSize ft) bs) of Inl e \<Rightarrow> Inl e
         | Inr h \<Rightarrow>
             if m < frameSize h then Inl FrameTooLarge
             else if length bs < frameSize h then Inr None
             else Inr (Some (\<lparr>f_header = h, f_body = drop (frame_type_headerSize ft) (take (frameSize h) bs),
                              f_bytes = take (frameSize h) bs\<rparr>, frameSize h))))"
  by (simp add: frame_parser_def scanner_next_def Let_def split: sum.split)

lemma frame_parser_ItemE:
  assumes "frame_parser m bs = Inr (Some (f, n))"
  obtains h body rest where "frame_ok m h body" and "bs = header_bytes h @ body @ rest"
    and "f = frame_of h body" and "n = frameSize h"
proof -
  from assms obtain ft h where
        ft: "frame_type_decode (bs ! 0) = Inr ft" "ft \<noteq> FtDatagram"
    and dec: "header_decode (take (frame_type_headerSize ft) bs) = Inr h"
    and hl: "frame_type_headerSize ft \<le> length bs"
    and sz: "frameSize h \<le> m" "frameSize h \<le> length bs"
    and f: "f = \<lparr>f_header = h, f_body = drop (frame_type_headerSize ft) (take (frameSize h) bs),
                 f_bytes = take (frameSize h) bs\<rparr>" and n: "n = frameSize h"
    by (auto simp: frame_parser_def2 split: if_splits sum.splits)
  from dec obtain r where wf: "header_wf h" and tk: "take (frame_type_headerSize ft) bs = header_bytes h @ r"
    using header_decode_Inr by blast
  note nd = header_wf_not_datagram [OF wf]
  have "bs ! 0 = frame_type_code (fh_type h)"
  proof -
    have "0 < frame_type_headerSize ft" using ft(2) by (cases ft) (auto simp: frame_sizes)
    then have "bs ! 0 = take (frame_type_headerSize ft) bs ! 0" by simp
    then show ?thesis by (simp add: tk)
  qed
  then have fth: "frame_type_headerSize ft = headerSize h"
    using ft(1) by (simp add: frame_type_decode_Inr headerSize_def)
  have "length (header_bytes h @ r) = headerSize h"
    using hl tk [symmetric] fth by simp
  then have r: "r = []" using nd by simp
  define body where "body = drop (headerSize h) (take (frameSize h) bs)"
  have le: "headerSize h \<le> frameSize h" by (simp add: frameSize_def)
  have bytes: "take (frameSize h) bs = header_bytes h @ body"
    using tk r fth le unfolding body_def
    by (metis append.right_neutral append_take_drop_id min.absorb1 take_take)
  have lbody: "length body = unat (fh_body_len h)"
    using sz unfolding body_def by (simp add: frameSize_def)
  show ?thesis
  proof (rule that)
    show "frame_ok m h body" using wf lbody sz by (simp add: frame_ok_def)
    show "bs = header_bytes h @ body @ drop (frameSize h) bs"
      using bytes by (metis append.assoc append_take_drop_id)
    show "f = frame_of h body" using f bytes fth by (simp add: frame_of_def nd)
    show "n = frameSize h" by (rule n)
  qed
qed

lemma frame_parser_error_stable:
  assumes "frame_parser m bs = Inl e"
  shows "frame_parser m (bs @ cs) = Inl e"
proof -
  have ne: "bs \<noteq> []" using assms by (auto simp: frame_parser_def2)
  then have n0: "(bs @ cs) ! 0 = bs ! 0" by (simp add: nth_append)
  show ?thesis
  proof (cases "frame_type_decode (bs ! 0)")
    case (Inl e')
    then show ?thesis using assms ne n0 by (simp add: frame_parser_def2)
  next
    case (Inr ft)
    show ?thesis
    proof (cases "ft = FtDatagram \<or> length bs < frame_type_headerSize ft")
      case True
      then show ?thesis using assms ne n0 Inr by (auto simp: frame_parser_def2 split: if_splits)
    next
      case False
      then have "take (frame_type_headerSize ft) (bs @ cs) = take (frame_type_headerSize ft) bs" by simp
      then show ?thesis
        using assms ne n0 Inr False
        by (auto simp: frame_parser_def2 split: if_splits sum.splits)
    qed
  qed
qed

lemma frameSize_ge4: "header_wf h \<Longrightarrow> 4 \<le> frameSize h"
  using headerSize_bounds [of h] by (simp add: frameSize_def header_wf_not_datagram)

interpretation frame_stream: incremental_parser "frame_parser m" for m
proof unfold_locales
  show "frame_parser m [] = Inr None" by (simp add: frame_parser_def2)
next
  fix bs f n
  assume "frame_parser m bs = Inr (Some (f, n))"
  then show "0 < n \<and> n \<le> length bs"
  proof (rule frame_parser_ItemE)
    fix h body rest
    assume ok: "frame_ok m h body" and bs: "bs = header_bytes h @ body @ rest" and n: "n = frameSize h"
    have wf: "header_wf h" and lb: "length body = unat (fh_body_len h)" using ok by (auto simp: frame_ok_def)
    show ?thesis
      using frameSize_ge4 [OF wf] length_frame_bytes [OF wf lb] bs n by simp
  qed
next
  fix bs f n cs
  assume "frame_parser m bs = Inr (Some (f, n))"
  then show "frame_parser m (bs @ cs) = Inr (Some (f, n))"
    by (rule frame_parser_ItemE) (simp add: frame_parser_frame)
next
  fix bs e cs
  assume "frame_parser m bs = Inl e"
  then show "frame_parser m (bs @ cs) = Inl e"
    by (rule frame_parser_error_stable)
qed

lemma frame_parser_NoneD:
  assumes "frame_parser m bs = Inr None"
  shows "length bs < max 8 m"
proof -
  consider "bs = []"
    | ft where "length bs < frame_type_headerSize ft"
    | h where "\<not> m < frameSize h" "length bs < frameSize h"
    using assms by (auto simp: frame_parser_def2 split: if_splits sum.splits)
  then show ?thesis
  proof cases
    case (2 ft)
    then show ?thesis by (cases ft) (auto simp: frame_sizes)
  qed auto
qed

subsection \<open>Properties\<close>

lemma unat_of_nat_u16: "n \<le> MAX_BODY_SIZE \<Longrightarrow> unat (of_nat n :: u16) = n"
  by (simp add: MAX_BODY_SIZE_def unsigned_of_nat take_bit_eq_mod)

lemma parseExactFrame_frame:
  assumes "header_wf h" "length body = unat (fh_body_len h)"
  shows "parseExactFrame (header_bytes h @ body) = Inr (frame_of h body)"
  using assms header_decode_bytes [OF assms(1), of body] length_frame_bytes [OF assms]
  by (simp add: parseExactFrame_def frame_of_def header_wf_not_datagram)

text \<open>C14: The encoder's answer for an OPEN frame is exact: a body above 65535 bytes is \<open>BodyTooLarge\<close>, a
  buffer shorter than header and body is \<open>BufferTooSmall\<close>, and in every other case the bytes written are
  the 8 of the header and those of the body and parse back, as exactly one frame, to the same destination,
  route, mode, flags and body.\<close>

theorem encode_open_parses_back:
  assumes "rsv fl = 0"
  shows "if MAX_BODY_SIZE < length body then encodeOpen buf dk route rm fl body = Inl BodyTooLarge
    else if length buf < 8 + length body then encodeOpen buf dk route rm fl body = Inl BufferTooSmall
    else \<exists>bs. encodeOpen buf dk route rm fl body = Inr bs \<and> length bs = 8 + length body
      \<and> parseExactFrame bs = Inr (frame_of (initOpen dk route rm fl (of_nat (length body))) body)"
proof -
  let ?h = "initOpen dk route rm fl (of_nat (length body))"
  have nd: "fh_type ?h \<noteq> FtDatagram" and hs: "headerSize ?h = 8"
    by (simp_all add: headerSize_def frame_sizes)
  have wf: "header_wf ?h" using assms by simp
  have bl: "length body \<le> MAX_BODY_SIZE \<Longrightarrow> length body = unat (fh_body_len ?h)"
    by (simp add: unat_of_nat_u16)
  show ?thesis
    using encoder_write_eq [OF nd, of buf body] parseExactFrame_frame [OF wf bl] hs nd
    by (auto simp: encodeOpen_def not_less)
qed

theorem encode_open_parses_back_witness:
  "(\<exists>bs. encodeOpen (replicate 64 0) DkGateway (route_init 0 ct_ping) RmNone flags_last [1, 2] = Inr bs
    \<and> parseExactFrame bs = Inr (frame_of (initOpen DkGateway (route_init 0 ct_ping) RmNone flags_last 2) [1, 2]))
   \<and> encodeOpen (replicate 9 0) DkGateway (route_init 0 ct_ping) RmNone flags_last [1, 2] = Inl BufferTooSmall"
  using encode_open_parses_back [where fl = flags_last and buf = "replicate 64 0" and dk = DkGateway
      and route = "route_init 0 ct_ping" and rm = RmNone and body = "[1, 2]"]
    encode_open_parses_back [where fl = flags_last and buf = "replicate 9 0" and dk = DkGateway
      and route = "route_init 0 ct_ping" and rm = RmNone and body = "[1, 2]"]
  by (auto simp: MAX_BODY_SIZE_def)

text \<open>\<open>parseExactFrame\<close> takes a buffer only if it is one well-formed frame and nothing else: header and
  body are the whole of it, with the announced length. No second frame can ride behind the first.\<close>

theorem exact_frame_is_whole_buffer:
  "parseExactFrame bs = Inr f \<longleftrightarrow>
    header_wf (f_header f) \<and> length (f_body f) = unat (fh_body_len (f_header f))
    \<and> bs = header_bytes (f_header f) @ f_body f \<and> f_bytes f = bs"
proof
  assume r: "parseExactFrame bs = Inr f"
  then obtain h where h: "header_decode bs = Inr h" and len: "length bs = frameSize h"
      and f: "f = \<lparr>f_header = h, f_body = drop (headerSize h) bs, f_bytes = bs\<rparr>"
    by (auto simp: parseExactFrame_def Let_def split: sum.splits if_splits)
  obtain rest where wf: "header_wf h" and bs: "bs = header_bytes h @ rest" using header_decode_Inr [OF h] by blast
  have "drop (headerSize h) bs = rest" using bs header_wf_not_datagram [OF wf] by simp
  then show "header_wf (f_header f) \<and> length (f_body f) = unat (fh_body_len (f_header f))
    \<and> bs = header_bytes (f_header f) @ f_body f \<and> f_bytes f = bs"
    using f wf bs len header_wf_not_datagram [OF wf] by (simp add: frameSize_def)
next
  assume r: "header_wf (f_header f) \<and> length (f_body f) = unat (fh_body_len (f_header f))
    \<and> bs = header_bytes (f_header f) @ f_body f \<and> f_bytes f = bs"
  then have "frame_of (f_header f) (f_body f) = f" by (simp add: frame_of_def)
  then show "parseExactFrame bs = Inr f" using parseExactFrame_frame [of "f_header f" "f_body f"] r by simp
qed

end
