(* ===== verification/Gateway_To_Clients.thy ===== *)
theory Gateway_To_Clients
  imports Node_To_Gateway Frame_Codec
begin

section \<open>From the gateway to its clients\<close>

text \<open>
  The other direction: the records the output queue puts on the wire, read by the Node client's input
  loop (\<open>validation/wss-smoke.mjs\<close>) and by the browser's envelope decoder
  (\<open>validation/web-client/src/wss_session.ts\<close>), and the frames both sides exchange inside them.
\<close>

subsection \<open>Envelopes\<close>

definition js_of :: "wss_record \<Rightarrow> js_envelope" where
  "js_of r = \<lparr>e_type = unat (record_type_code (record_type r)), e_fin = fin r, e_streamID = unat (stream_id r),
     e_appError = unat (app_error_code r), e_payload = payload r\<rparr>"

lemma js_encode_of: "js_encodeEnvelope (js_of r) = env_header r @ payload r"
  by (simp add: js_of_def js_encodeEnvelope_eq env_header_def env_version_def)

lemma flag_bits: "(of_bool f :: byte) AND NOT 1 = 0" "((of_bool f :: byte) AND 1 \<noteq> 0) = f"
  by (cases f; simp)+

lemma record_code_known: "unat (record_type_code t) \<in> set [recordStream, recordReset, recordStop, recordEphemeral]"
  by (cases t) (simp_all add: js_constants)

lemma u64_lt: "unat (x :: u64) < 256 ^ 8"
  by (rule order_less_le_trans [OF unsigned_less]) simp

lemma u32_lt: "unat (x :: u32) < 256 ^ 4"
  by (rule order_less_le_trans [OF unsigned_less]) simp

lemma env_ok_payload: "env_ok r \<Longrightarrow> length (payload r) < 256 ^ 4"
  by (simp add: env_ok_def max_payload_size_def frame_sizes)

lemma js_decode_of:
  assumes "env_ok r"
  shows "js_decodeEnvelope (env_header r @ payload r) = Inr (js_of r)"
  using env_ok_payload [OF assms] record_code_known [of "record_type r"] u64_lt [of "stream_id r"] u32_lt [of "app_error_code r"]
  by (simp add: js_decodeEnvelope_def nth_env_header seg_env_header flag_bits env_version_def js_of_def Let_def js_constants)

text \<open>The browser's envelopes and the gateway's records are the same bytes: every message the gateway
  would accept is decoded by the browser to the same record, and what the browser encodes for a record
  that is valid is what the gateway encodes, and decodes back to it.\<close>

theorem browser_envelopes_interoperate:
  assumes "env_ok r"
  shows "env_encode max_record_size r = Inr (js_encodeEnvelope (js_of r))
    \<and> env_decode (js_encodeEnvelope (js_of r)) = Inr r
    \<and> js_decodeEnvelope (js_encodeEnvelope (js_of r)) = Inr (js_of r)"
  using assms env_ok_size [OF assms]
  by (simp add: js_encode_of env_encode_Inr env_decode_header js_decode_of)

theorem browser_envelopes_interoperate_witness:
  "js_decodeEnvelope [1, 2, 0, 0, 0, 0, 0, 0, 0, 0, 0, 8, 0, 0, 0, 7, 0, 0, 0, 0] =
     Inr \<lparr>e_type = 2, e_fin = False, e_streamID = 8, e_appError = 7, e_payload = []\<rparr>"
proof -
  let ?r = "\<lparr>record_type = RtReset, fin = False, stream_id = 8, app_error_code = 7, payload = []\<rparr>"
  have "env_ok ?r" by (simp add: env_ok_def env_validate_def)
  from browser_envelopes_interoperate [OF this] show ?thesis
    by (simp add: js_encodeEnvelope_eq js_of_def be_enc_numeral)
qed

subsection \<open>Frames\<close>

definition js_frame_of :: "frame_header \<Rightarrow> bytes \<Rightarrow> js_frame" where
  "js_frame_of h body = \<lparr>jf_type = unat (frame_type_code (fh_type h)), jf_flags = unat (flags_byte (fh_flags h)),
     jf_dest = (if isOpen h then unat (dest_kind_code (fh_dest h)) else 0),
     jf_response = (if isOpen h then unat (response_mode_code (fh_response h)) else 0),
     jf_group = (if isOpen h then unat (fh_group h) else 0),
     jf_route = (if isOpen h then unat (fh_route_key h) else 0), jf_body = body\<rparr>"

lemma u16_lt: "unat (x :: u16) < 65536"
  by (rule order_less_le_trans [OF unsigned_less]) simp

lemma be_enc_2E:
  assumes "n < 65536"
  obtains x y where "be_enc 2 n = [x, y]" "be_dec [x, y] = n"
proof -
  have "be_dec (be_enc 2 n) = n" using assms by simp
  then show ?thesis using that be_enc_2 [of n] by metis
qed

lemma js_frame_at_header:
  assumes "header_wf h" "length body = unat (fh_body_len h)"
  shows "js_frame_at (header_bytes h @ body @ rest) 0 = Inr (js_frame_of h body, length (header_bytes h @ body))"
proof -
  obtain x y where xy: "be_enc 2 (unat (fh_body_len h)) = [x, y]" "be_dec [x, y] = unat (fh_body_len h)"
    using be_enc_2E [OF u16_lt] .
  show ?thesis
  proof (cases "fh_type h")
    case FtOpen
    then show ?thesis
      using assms(2) xy
      by (simp add: js_frame_at_def header_bytes_def js_constants js_frame_of_def isOpen_def seg_def Let_def del: be_dec.simps)
  next
    case FtData
    then show ?thesis
      using assms(2) xy
      by (simp add: js_frame_at_def header_bytes_def js_constants js_frame_of_def isOpen_def seg_def Let_def del: be_dec.simps)
  next
    case FtDatagram
    then show ?thesis using assms by (simp add: header_wf_def)
  qed
qed

definition frames_wire :: "(frame_header \<times> bytes) list \<Rightarrow> bytes" where
  "frames_wire fs = concat (map (\<lambda>(h, body). header_bytes h @ body) fs)"

lemma js_decodeFrames_wire:
  "\<forall>(h, body) \<in> set fs. header_wf h \<and> length body = unat (fh_body_len h) \<Longrightarrow>
    js_decodeFrames (frames_wire fs) = Inr (map (\<lambda>(h, body). js_frame_of h body) fs)"
proof (induction fs)
  case Nil
  then show ?case by (simp add: frames_wire_def js_decodeFrames_unfold [of "[]"])
next
  case (Cons x fs)
  obtain h body where x: "x = (h, body)" by (cases x)
  then have wf: "header_wf h" "length body = unat (fh_body_len h)" using Cons.prems by auto
  have "frames_wire (x # fs) = header_bytes h @ body @ frames_wire fs" by (simp add: frames_wire_def x)
  then show ?case
    using js_frame_at_header [OF wf, of "frames_wire fs"] Cons
    by (subst js_decodeFrames_unfold) (auto simp: x)
qed

lemma smoke_decodeFrames_wire:
  "\<forall>(h, body) \<in> set fs. header_wf h \<and> length body = unat (fh_body_len h) \<Longrightarrow>
    smoke_decodeFrames (frames_wire fs) = Inr (map (\<lambda>(h, body). js_frame_of h body) fs)"
  using js_decodeFrames_wire [of fs] smoke_loop_agrees [of "frames_wire fs" 0 "[]"]
  by (auto simp: smoke_decodeFrames_def js_decodeFrames_def split: sum.splits)

text \<open>What the clients write for a request: the OPEN frame of one message, with EOF.\<close>

definition request_header :: "dest_kind \<Rightarrow> nat \<Rightarrow> nat \<Rightarrow> response_mode \<Rightarrow> nat \<Rightarrow> frame_header" where
  "request_header dk grp route rm n = initOpen dk (route_init (of_nat grp) (of_nat route)) rm flags_last (of_nat n)"

lemma client_frame_bytes:
  assumes "length body \<le> 65535" "of_nat dest = dest_kind_code dk" "of_nat response = response_mode_code rm"
  shows "js_encodeOpen_bytes dest grp route response body = Inr (header_bytes (request_header dk grp route rm (length body)) @ body)"
    and "openBytesFrame dest grp route response body True = Inr (header_bytes (request_header dk grp route rm (length body)) @ body)"
proof -
  have n: "unat (of_nat (length body) :: u16) = length body"
    using assms(1) by (simp add: unat_of_nat_u16 MAX_BODY_SIZE_def)
  show js: "js_encodeOpen_bytes dest grp route response body = Inr (header_bytes (request_header dk grp route rm (length body)) @ body)"
    using assms n
    by (simp add: js_encodeOpen_bytes_eq header_bytes_def request_header_def route_init_def flags_last_def flags_none_def flags_byte_def)
  have "openBytesFrame dest grp route response body True = (case js_encodeOpen_bytes dest grp route response body of
      Inl e \<Rightarrow> Inl RangeError | Inr bs \<Rightarrow> Inr bs)"
    by (simp add: openBytesFrame_def js_encodeOpen_bytes_def js_constants Let_def)
  then show "openBytesFrame dest grp route response body True = Inr (header_bytes (request_header dk grp route rm (length body)) @ body)"
    by (simp add: js)
qed

text \<open>C31: A request of either client is one frame to the gateway: the bytes \<open>encodeOpen\<close> of the browser and
  \<open>openBytesFrame\<close> of the Node client write for it are the same, and \<open>parseExactFrame\<close> reads the
  destination, route, response mode and body the client gave. In turn both clients read any sequence
  of well-formed frames of the gateway as those frames, in order.\<close>

theorem clients_and_gateway_share_frames:
  assumes "length body \<le> 65535" "of_nat dest = dest_kind_code dk" "of_nat response = response_mode_code rm"
    and "\<forall>(h, b) \<in> set fs. header_wf h \<and> length b = unat (fh_body_len h)"
  shows "(\<exists>bs. js_encodeOpen_bytes dest grp route response body = Inr bs
      \<and> openBytesFrame dest grp route response body True = Inr bs
      \<and> parseExactFrame bs = Inr (frame_of (request_header dk grp route rm (length body)) body))
    \<and> js_decodeFrames (frames_wire fs) = Inr (map (\<lambda>(h, b). js_frame_of h b) fs)
    \<and> smoke_decodeFrames (frames_wire fs) = Inr (map (\<lambda>(h, b). js_frame_of h b) fs)"
proof (intro conjI)
  have "header_wf (request_header dk grp route rm (length body))"
    "length body = unat (fh_body_len (request_header dk grp route rm (length body)))"
    using assms(1) by (simp_all add: request_header_def unat_of_nat_u16 MAX_BODY_SIZE_def)
  from parseExactFrame_frame [OF this] client_frame_bytes [OF assms(1-3)]
  show "\<exists>bs. js_encodeOpen_bytes dest grp route response body = Inr bs
      \<and> openBytesFrame dest grp route response body True = Inr bs
      \<and> parseExactFrame bs = Inr (frame_of (request_header dk grp route rm (length body)) body)"
    by simp
qed (rule js_decodeFrames_wire [OF assms(4)], rule smoke_decodeFrames_wire [OF assms(4)])

theorem clients_and_gateway_share_frames_witness:
  "\<exists>bs. openBytesFrame 0 0 2 0 [63] True = Inr bs
    \<and> parseExactFrame bs = Inr (frame_of (request_header DkGateway 0 2 RmRequired 1) [63])
    \<and> js_decodeFrames [1, 1, 0, 1, 9] = Inr [\<lparr>jf_type = 1, jf_flags = 1, jf_dest = 0, jf_response = 0, jf_group = 0,
        jf_route = 0, jf_body = [9]\<rparr>]"
proof -
  have fs: "\<forall>(h, b) \<in> set [(initData flags_last 1, [9 :: byte])]. header_wf h \<and> length b = unat (fh_body_len h)"
    by simp
  have b: "length [63 :: byte] \<le> 65535" "of_nat 0 = dest_kind_code DkGateway" "of_nat 0 = response_mode_code RmRequired"
    by simp_all
  have w: "frames_wire [(initData flags_last 1, [9])] = [1, 1, 0, 1, 9]"
    by (simp add: frames_wire_def header_bytes_def flags_byte_def flags_last_def flags_none_def be_enc_2)
  have j: "js_frame_of (initData flags_last 1) [9] =
      \<lparr>jf_type = 1, jf_flags = 1, jf_dest = 0, jf_response = 0, jf_group = 0, jf_route = 0, jf_body = [9]\<rparr>"
    by (simp add: js_frame_of_def isOpen_def flags_byte_def flags_last_def flags_none_def)
  from clients_and_gateway_share_frames [OF b fs, of 0 2] show ?thesis by (auto simp: w j)
qed

subsection \<open>The wire\<close>

lemma len7_bits:
  assumes "n < 2 ^ 63"
  shows "ws_len7 n AND 0x80 = 0" "unat (ws_len7 n AND 0x7f) = (if n \<le> 125 then n else if n \<le> 65535 then 126 else 127)"
proof -
  have small: "(of_nat k :: byte) AND 0x80 = 0 \<and> unat ((of_nat k :: byte) AND 0x7f) = k" if "k < 128" for k :: nat
  proof
    have "(of_nat k :: byte) AND 0x7f = take_bit 7 (of_nat k)" by (simp add: take_bit_eq_mask mask_eq_exp_minus_1)
    moreover have tb: "take_bit 7 (of_nat k :: byte) = of_nat k"
    proof -
      have "take_bit 7 k = k" using that by (simp add: take_bit_nat_eq_self)
      then show ?thesis by (metis take_bit_of_nat)
    qed
    ultimately have seven: "(of_nat k :: byte) AND 0x7f = of_nat k" by simp
    then show "unat ((of_nat k :: byte) AND 0x7f) = k" using that by (simp add: unsigned_of_nat take_bit_eq_mod)
    have "(of_nat k :: byte) AND 0x80 = ((of_nat k :: byte) AND 0x7f) AND 0x80" using seven by simp
    also have "\<dots> = 0" by (simp add: and.assoc)
    finally show "(of_nat k :: byte) AND 0x80 = 0" .
  qed
  show "ws_len7 n AND 0x80 = 0" "unat (ws_len7 n AND 0x7f) = (if n \<le> 125 then n else if n \<le> 65535 then 126 else 127)"
    using small [of n] by (auto simp: ws_len7_def)
qed

lemma serverFrame_wire:
  assumes "length body < 2 ^ 63"
  shows "serverFrame (ws_header oc (length body) @ body @ rest) =
    Inr (Some ((0x80 OR opcode_code oc, body), length (ws_header oc (length body) @ body)))"
proof -
  let ?n = "length body"
  note b = len7_bits [OF assms]
  consider "?n \<le> 125" | "125 < ?n" "?n \<le> 65535" | "65535 < ?n" by linarith
  then show ?thesis
  proof cases
    case 1
    then show ?thesis using b by (simp add: serverFrame_def ws_header_def ws_len_ext_def seg_def Let_def)
  next
    case 2
    then show ?thesis using b by (simp add: serverFrame_def ws_header_def ws_len_ext_def seg_def Let_def)
  next
    case 3
    then show ?thesis using b assms by (simp add: serverFrame_def ws_header_def ws_len_ext_def seg_def Let_def)
  qed
qed

lemma serverFrame_record:
  assumes "env_ok r"
  shows "serverFrame (record_wire r @ rest) = Inr (Some ((0x82, env_header r @ payload r), length (record_wire r)))"
proof -
  have "length (env_header r @ payload r) < 2 ^ 63" using env_ok_payload [OF assms] by simp
  from serverFrame_wire [OF this, of OpBinary rest] show ?thesis by (simp add: record_wire_def)
qed

text \<open>The client's handler called on one record after the other; its input buffer plays no part.\<close>

fun handle_records :: "(bytes \<Rightarrow> string option) \<Rightarrow> (string \<Rightarrow> jsval option) \<Rightarrow> smoke_client \<Rightarrow> wss_record list \<Rightarrow> smoke_outcome" where
  "handle_records utf8 json c [] = (None, c, [])"
| "handle_records utf8 json c (r # rs) = (case handleEnvelope utf8 json c (env_header r @ payload r) of
      (Some e, c1, effs) \<Rightarrow> (Some e, c1, effs)
    | (None, c1, effs) \<Rightarrow> (case handle_records utf8 json c1 rs of (e, c2, effs2) \<Rightarrow> (e, c2, effs @ effs2)))"

fun smoke_chunks :: "(bytes \<Rightarrow> string option) \<Rightarrow> (string \<Rightarrow> jsval option) \<Rightarrow> smoke_client \<Rightarrow> bytes list \<Rightarrow> smoke_outcome" where
  "smoke_chunks utf8 json c [] = (None, c, [])"
| "smoke_chunks utf8 json c (b # bs) = (case smoke_data utf8 json c b of
      (Some e, c1, effs) \<Rightarrow> (Some e, c1, effs)
    | (None, c1, effs) \<Rightarrow> (case smoke_chunks utf8 json c1 bs of (e, c2, effs2) \<Rightarrow> (e, c2, effs @ effs2)))"

lemma dispatch_record: "dispatchFrame utf8 json c 0x82 pl = handleEnvelope utf8 json c pl"
  by (simp add: dispatchFrame_def Let_def)

lemma set_input_same: "sc_input c = x \<Longrightarrow> c\<lparr>sc_input := x\<rparr> = c"
  by (cases c) simp

lemma drain_records:
  assumes "\<forall>r \<in> set rs. env_ok r" "sc_upgraded c" "sc_input c = concat (map record_wire rs)"
    and "handle_records utf8 json (c\<lparr>sc_input := []\<rparr>) rs = (None, c', effs)"
  shows "drainWebSocket utf8 json c = (None, c', effs)"
  using assms
proof (induction rs arbitrary: c effs)
  case Nil
  then have e: "c\<lparr>sc_input := []\<rparr> = c" by (simp add: set_input_same)
  have "drainWebSocket utf8 json c = (None, c, [])" using Nil by (simp add: drain_idle serverFrame_def)
  then show ?case using Nil.prems(4) unfolding e by simp
next
  case (Cons r rs)
  note p = Cons.prems
  have i: "sc_input c = record_wire r @ concat (map record_wire rs)" using p(3) by simp
  have f: "serverFrame (sc_input c) = Inr (Some ((0x82, env_header r @ payload r), length (record_wire r)))"
    using serverFrame_record [of r "concat (map record_wire rs)"] p(1) i by simp
  obtain c1 effs1 effs2 where h: "handleEnvelope utf8 json (c\<lparr>sc_input := []\<rparr>) (env_header r @ payload r) = (None, c1, effs1)"
    and r2: "handle_records utf8 json c1 rs = (None, c', effs2)" "effs = effs1 @ effs2"
    using p(4) by (auto split: prod.splits option.splits)
  note inp = handleEnvelope_input(1) [where c = "c\<lparr>sc_input := []\<rparr>" and x = "concat (map record_wire rs)"
      and env = "env_header r @ payload r"]
  have h1: "handleEnvelope utf8 json (c\<lparr>sc_input := concat (map record_wire rs)\<rparr>) (env_header r @ payload r)
      = (None, c1\<lparr>sc_input := concat (map record_wire rs)\<rparr>, effs1)"
    using inp h by simp
  have c1: "sc_input c1 = []" "sc_upgraded c1" using handleEnvelope_input(2) [OF h] p(2) by simp_all
  then have "c1\<lparr>sc_input := concat (map record_wire rs), sc_input := []\<rparr> = c1" by (simp add: set_input_same)
  then have "drainWebSocket utf8 json (c1\<lparr>sc_input := concat (map record_wire rs)\<rparr>) = (None, c', effs2)"
    by (intro Cons.IH) (use p(1) c1 r2(1) in \<open>simp_all add: set_input_same\<close>)
  then show ?case
    using drain_item [OF p(2) f, of utf8 json] h1 i r2(2) by (simp add: dispatch_record)
qed

lemma smoke_chunks_concat:
  assumes "smoke_data utf8 json c (concat (b # bs)) = (None, c', effs)"
  shows "smoke_chunks utf8 json c (b # bs) = (None, c', effs)"
  using assms
proof (induction bs arbitrary: b c effs)
  case Nil
  then show ?case by simp
next
  case (Cons b2 bs)
  obtain c1 effs1 effs2 where d: "smoke_data utf8 json c b = (None, c1, effs1)"
    "smoke_data utf8 json c1 (concat (b2 # bs)) = (None, c', effs2)" "effs = effs1 @ effs2"
    using Cons.prems smoke_data_split [of utf8 json c b "concat (b2 # bs)"] by (auto split: prod.splits option.splits)
  then show ?case using Cons.IH [OF d(2)] by simp
qed

text \<open>C30: The records the gateway's queue puts on the wire reach the Node client one by one: however TCP
  and TLS cut the bytes, the client's data handler does what handling the records' envelopes in
  order does, and leaves nothing in its input buffer.\<close>

theorem node_reads_gateway_records:
  assumes "\<forall>r \<in> set rs. env_ok r" "concat chunks = concat (map record_wire rs)" "chunks \<noteq> []"
    and "sc_upgraded c" "sc_input c = []" "handle_records utf8 json c rs = (None, c', effs)"
  shows "smoke_chunks utf8 json c chunks = (None, c', effs) \<and> sc_input c' = []"
proof -
  obtain b bs where ch: "chunks = b # bs" using assms(3) by (cases chunks) auto
  have "drainWebSocket utf8 json (c\<lparr>sc_input := concat (map record_wire rs)\<rparr>) = (None, c', effs)"
    by (rule drain_records [OF assms(1)]) (use assms in \<open>simp_all add: set_input_same\<close>)
  then have "smoke_data utf8 json c (concat (b # bs)) = (None, c', effs)"
    using assms(2,5) ch by (simp add: smoke_data_def)
  moreover have "sc_input c' = []" using assms(5,6)
  proof (induction rs arbitrary: c effs)
    case Nil
    then show ?case by simp
  next
    case (Cons r rs)
    obtain c1 effs1 effs2 where h: "handleEnvelope utf8 json c (env_header r @ payload r) = (None, c1, effs1)"
      "handle_records utf8 json c1 rs = (None, c', effs2)"
      using Cons.prems(2) by (auto split: prod.splits option.splits)
    have "sc_input c1 = []" using handleEnvelope_input(2) [OF h(1)] Cons.prems(1) by simp
    from Cons.IH [OF this h(2)] show ?case .
  qed
  ultimately show ?thesis using smoke_chunks_concat ch by simp
qed

theorem node_reads_gateway_records_witness:
  "\<exists>c'. smoke_chunks (\<lambda>_. None) (\<lambda>_. None)
     (smoke_new\<lparr>sc_upgraded := True, sc_pending := [(0, \<lparr>sp_chunks = [], sp_noResponse = True, sp_rawResponse = False, sp_onChunk = False\<rparr>)]\<rparr>)
     [[0x82, 20, 1, 1], [1, 0, 0, 0, 0, 0, 0, 0, 0, 0, 0, 0, 0, 0], [0, 0, 0, 0]]
     = (None, c', [SClearTimer 0, SResolve 0 NoBody])"
proof -
  let ?r = "\<lparr>record_type = RtStream, fin = True, stream_id = 0, app_error_code = 0, payload = []\<rparr>"
  let ?c = "smoke_new\<lparr>sc_upgraded := True, sc_pending := [(0, \<lparr>sp_chunks = [], sp_noResponse = True, sp_rawResponse = False, sp_onChunk = False\<rparr>)]\<rparr>"
  have ok: "\<forall>r \<in> set [?r]. env_ok r" by (simp add: env_ok_def env_validate_def)
  have w: "concat [[0x82, 20, 1, 1], [1, 0, 0, 0, 0, 0, 0, 0, 0, 0, 0, 0, 0, 0], [0, 0, 0, 0]] = concat (map record_wire [?r])"
    by (simp add: record_wire_def ws_header_def ws_len7_def ws_len_ext_def env_header_def env_version_def be_enc_numeral)
  have h: "handle_records (\<lambda>_. None) (\<lambda>_. None) ?c [?r] =
      (None, ?c\<lparr>sc_pending := []\<rparr>, [SClearTimer 0, SResolve 0 NoBody])"
    by (simp add: handleEnvelope_def env_header_def env_version_def be_enc_numeral envelopeHeaderSize_def seg_def smoke_new_def Let_def)
  from node_reads_gateway_records [OF ok w _ _ _ h] show ?thesis by (simp add: smoke_new_def)
qed

end
