(* ===== verification/Negative_Frames.thy ===== *)
theory Negative_Frames
  imports Gateway_To_Clients Smoke_Connect
begin

section \<open>Malformed input of the negative gate (\<open>validation/wss-negative.mjs\<close>)\<close>

text \<open>
  The bytes each negative client sends and the wait for the close code 1002. Random masks are
  parameters. \<open>bad_inputs\<close> lists the inputs that the gateway itself must refuse; the reused stream is
  refused by the claim of its id (\<open>Wss_Connection\<close>).
\<close>

datatype close_error = CloseTimeoutError | WrongCloseCode "nat option"

text \<open>\<open>expectProtocolClose\<close> after its action: what the promise of \<open>waitForClose\<close> gave; \<open>None\<close> while it is open.\<close>

definition expectProtocolClose :: "close_wait \<Rightarrow> (close_error + unit) option" where
  "expectProtocolClose w = (case w of
      CloseWaiting \<Rightarrow> None
    | CloseTimedOut \<Rightarrow> Some (Inl CloseTimeoutError)
    | CloseResolved code \<Rightarrow> Some (if code \<noteq> Some 1002 then Inl (WrongCloseCode code) else Inr ()))"

definition future_server_input :: "smoke_error + smoke_effect list" where
  "future_server_input = sendStreamRecord 1 [] True"

definition unmasked_input :: bytes where "unmasked_input = [0x82, 0x00]"
definition reserved_bits_input :: bytes where "reserved_bits_input = [0xc2, 0x80, 0, 0, 0, 0]"
definition non_canonical_input :: bytes where "non_canonical_input = [0x82, 0xfe, 0, 0, 0, 0, 0, 0]"

definition fragmented_control_input :: "bytes \<Rightarrow> bytes" where
  "fragmented_control_input mk = maskedFrame mk [63] 0x09 False"

definition oversized_header :: "bytes \<Rightarrow> bytes" where
  "oversized_header mk =
    (let b0 = replicate 14 0;
         b1 = blit b0 0 [0x82];
         b2 = blit b1 1 [0xff];
         b3 = blit b2 2 (be_enc 8 70000)
     in blit b3 10 mk)"

definition bad_version_text :: bytes where
  "bad_version_text = [98, 97, 100, 45, 118, 101, 114, 115, 105, 111, 110]"

definition bad_envelope_record :: "smoke_error + bytes" where
  "bad_envelope_record = (case openBytesFrame 0 0 0x02 0 bad_version_text True of Inl e \<Rightarrow> Inl e
     | Inr f \<Rightarrow> (case smoke_encodeEnvelope 0 f True 1 0 of Inl e \<Rightarrow> Inl e
        | Inr rec \<Rightarrow> Inr (blit rec 0 [2])))"

definition fragmented_text :: bytes where
  "fragmented_text = [102, 114, 97, 103, 109, 101, 110, 116, 101, 100, 45, 112, 105, 110, 103]"

definition fragmented_valid_input :: "bytes \<Rightarrow> bytes \<Rightarrow> bytes \<Rightarrow> bytes \<Rightarrow> bytes" where
  "fragmented_valid_input mk1 mk2 mk3 rec =
    (let cut = length rec div 2 in
     maskedFrame mk1 (take cut rec) 0x02 False @ maskedFrame mk2 [63] 0x09 True @ maskedFrame mk3 (drop cut rec) 0x00 True)"

definition fragmented_valid_record :: "nat \<Rightarrow> smoke_error + bytes" where
  "fragmented_valid_record sid = (case openBytesFrame 0 0 0x02 0 fragmented_text True of Inl e \<Rightarrow> Inl e
     | Inr f \<Rightarrow> smoke_encodeEnvelope sid f True 1 0)"

subsection \<open>The inputs at the gateway\<close>

text \<open>What the unmasked client, the one with reserved bits and so on put on the wire, under any mask.\<close>

definition bad_inputs :: "bytes \<Rightarrow> bytes list" where
  "bad_inputs mk =
    (case (future_server_input, bad_envelope_record) of
       (Inr [SMasked forged], Inr envelope) \<Rightarrow>
         [maskedFrame mk forged 2 True, unmasked_input, reserved_bits_input, non_canonical_input,
          fragmented_control_input mk, oversized_header mk, maskedFrame mk envelope 2 True]
     | _ \<Rightarrow> [])"

lemma parse_error_closes:
  assumes "parseClientFrame bs max_record_size = Inl e" "e \<noteq> WsNeedMore" "idle c" "bs \<noteq> []"
  shows "processPlain worker h (c\<lparr>c_plain := bs\<rparr>) = Some (h, protocolClose (c\<lparr>c_plain := bs\<rparr>) 1002, [], False)"
proof -
  let ?c = "c\<lparr>c_plain := bs\<rparr>"
  have "open_turn worker h ?c = Some (Inr (h, protocolClose ?c 1002, [], False))"
    using assms(1,2) by (simp add: open_turn_def close_codes)
  then have "processPlain_loop worker h ?c = Some (h, protocolClose ?c 1002, [], False)"
    by (rule processPlain_loop_stop) (use assms(3,4) in \<open>auto simp: idle_def\<close>)
  then show ?thesis using assms(3) by (simp add: processPlain_def idle_def)
qed

lemma oversized_layout: "length mk = 4 \<Longrightarrow> oversized_header mk = [0x82, 0xff] @ be_enc 8 70000 @ mk"
proof -
  assume mk: "length mk = 4"
  have z: "replicate 14 (0 :: byte) = [0, 0] @ replicate 8 0 @ replicate 4 0"
    by (simp add: replicate_append_same [symmetric] numeral_eq_Suc)
  have "blit (blit (replicate 14 0) 0 [0x82]) 1 [0xff] = [0x82, 0xff :: byte] @ replicate 8 0 @ replicate 4 0"
    unfolding z by (simp add: blit_def)
  moreover have "blit ([0x82, 0xff] @ replicate 8 0 @ replicate 4 0) 2 (be_enc 8 70000) = [0x82, 0xff] @ be_enc 8 70000 @ replicate 4 0"
    by (rule blit_append) simp_all
  moreover have "blit (([0x82, 0xff] @ be_enc 8 70000) @ replicate 4 0 @ []) 10 mk = ([0x82, 0xff] @ be_enc 8 70000) @ mk @ []"
    by (rule blit_append) (simp_all add: mk)
  ultimately show ?thesis unfolding oversized_header_def Let_def by simp
qed

lemma bad_frames:
  assumes "length mk = 4"
  shows "\<exists>e. parseClientFrame unmasked_input max_record_size = Inl e \<and> e \<noteq> WsNeedMore"
    "\<exists>e. parseClientFrame reserved_bits_input max_record_size = Inl e \<and> e \<noteq> WsNeedMore"
    "\<exists>e. parseClientFrame non_canonical_input max_record_size = Inl e \<and> e \<noteq> WsNeedMore"
    "\<exists>e. parseClientFrame (fragmented_control_input mk) max_record_size = Inl e \<and> e \<noteq> WsNeedMore"
    "\<exists>e. parseClientFrame (oversized_header mk) max_record_size = Inl e \<and> e \<noteq> WsNeedMore"
proof -
  show "\<exists>e. parseClientFrame unmasked_input max_record_size = Inl e \<and> e \<noteq> WsNeedMore"
    by (simp add: parseClientFrame_def unmasked_input_def opcode_decode_def Let_def)
  show "\<exists>e. parseClientFrame reserved_bits_input max_record_size = Inl e \<and> e \<noteq> WsNeedMore"
    by (simp add: parseClientFrame_def reserved_bits_input_def Let_def)
  show "\<exists>e. parseClientFrame non_canonical_input max_record_size = Inl e \<and> e \<noteq> WsNeedMore"
    by (simp add: parseClientFrame_def non_canonical_input_def opcode_decode_def ws_length_def seg_def Let_def)
  show "\<exists>e. parseClientFrame (fragmented_control_input mk) max_record_size = Inl e \<and> e \<noteq> WsNeedMore"
    by (simp add: parseClientFrame_def fragmented_control_input_def maskedFrame_def opcode_decode_def ws_length_def
        max_record_size_value Let_def)
  have o: "oversized_header mk = [0x82, 0xff] @ be_enc 8 70000 @ mk" by (rule oversized_layout [OF assms])
  have sg: "seg 2 8 ([0x82, 0xff] @ be_enc 8 70000 @ mk) = be_enc 8 70000" by (simp add: seg_def)
  have "ws_length ([0x82, 0xff] @ be_enc 8 70000 @ mk) = Inr (70000, 10)"
    unfolding ws_length_def sg by (simp add: Let_def)
  then show "\<exists>e. parseClientFrame (oversized_header mk) max_record_size = Inl e \<and> e \<noteq> WsNeedMore"
    unfolding o by (simp add: parseClientFrame_def opcode_decode_def max_record_size_value Let_def)
qed

text \<open>The two whole messages that the record checks refuse.\<close>

lemma bad_envelope_bytes:
  "\<exists>bs. bad_envelope_record = Inr bs \<and> bs \<noteq> [] \<and> length bs \<le> 65563 \<and> env_decode bs = Inl EnvUnsupportedVersion"
proof -
  obtain f where f: "openBytesFrame 0 0 2 0 bad_version_text True = Inr f" "length f = 19"
    by (simp add: openBytesFrame_def bad_version_text_def Let_def)
  then obtain rec where rec: "smoke_encodeEnvelope 0 f True 1 0 = Inr rec" "length rec = 39"
    by (simp add: smoke_encodeEnvelope_eq js_encodeEnvelope_eq)
  have "blit rec 0 [2] ! 0 = 2" using rec(2) by (cases rec) (auto simp: blit_def)
  then have "env_decode (blit rec 0 [2]) = Inl EnvUnsupportedVersion"
    using rec(2) by (simp add: env_decode_def env_header_size_def env_version_def)
  then show ?thesis using f rec by (auto simp: bad_envelope_record_def blit_def)
qed

lemma forged_record:
  "\<exists>bs. future_server_input = Inr [SMasked bs] \<and> length bs \<le> 65563
    \<and> env_decode bs = Inr \<lparr>record_type = RtStream, fin = True, stream_id = 1, app_error_code = 0, payload = []\<rparr>"
proof -
  obtain effs where e: "sendStreamRecord 1 [] True = Inr effs"
    by (simp add: sendStreamRecord_def smoke_encodeEnvelope_eq)
  from stream_record_decodes [OF e] show ?thesis
    by (metis e future_server_input_def le0 list.size(3) max_record_size_value of_nat_1)
qed

lemma message_refused:
  assumes "length mk = 4" "length bs \<le> max_record_size" "idle c"
    and "case env_decode bs of Inl e \<Rightarrow> True | Inr r \<Rightarrow> record_event (c_highest_server c) r = None"
  shows "\<exists>c1. processPlain worker h (c\<lparr>c_plain := maskedFrame mk bs 2 True\<rparr>) = Some (h, c1, [], False)
    \<and> c1 = (protocolClose (c\<lparr>c_plain := maskedFrame mk bs 2 True\<rparr>) 1002)\<lparr>c_plain := []\<rparr>"
proof -
  let ?f = "\<lparr>w_opcode = OpBinary, w_fin = True, w_payload = bs\<rparr>"
  let ?c = "c\<lparr>c_plain := maskedFrame mk bs 2 True\<rparr>"
  let ?d = "(protocolClose ?c 1002)\<lparr>c_plain := []\<rparr>"
  have f: "sendable ?f" "maskedFrame mk bs 2 True = wire_frame mk ?f"
    using assms(2) by (simp_all add: sendable_def wire_frame_def)
  have i: "c_session c" "c_state c \<noteq> StClosing" "\<not> c_close_after_flush c" "\<not> fragmented (c_asm c)"
    using assms(3) by (auto simp: idle_def)
  have a: "asm_accept (c_asm ?c) ?f = Inr (MBinary bs, c_asm ?c)" using i by (simp add: asm_accept_def)
  have m: "handle_message worker h ?c (MBinary bs) = Some (Inr (h, protocolClose ?c 1002, []))"
    using assms(4) i by (auto simp: handle_message_def close_codes split: sum.splits)
  have "parseClientFrame (c_plain ?c) max_record_size = Inr (?f, length (c_plain ?c))"
    using parse_wire_frame [OF assms(1) f(1), of "[]"] f(2) by simp
  then have "open_turn worker h ?c = Some (Inr (h, ?d, [], \<not> c_close_after_flush (protocolClose ?c 1002)))"
    using a m by (simp add: open_turn_def protocolClose_keeps)
  moreover have "c_plain ?c \<noteq> []" using f(2) wire_frame_nonempty [OF assms(1)] by simp
  ultimately have "processPlain_loop worker h ?c = Some (h, ?d, [], False)"
    using i by (subst processPlain_loop.simps) (simp add: loop_empty split: bool.split)
  then show ?thesis using i by (simp add: processPlain_def)
qed

text \<open>The client that reads the Close frame.\<close>

lemma close_frame_seen:
  assumes "code < 65536" "sc_upgraded c" "sc_input c = []"
  shows "smoke_data utf8 json c (ws_header OpClose 2 @ be_enc 2 code) = (None, c\<lparr>sc_closeCode := Some code\<rparr>, [SEnd])"
proof -
  let ?c = "c\<lparr>sc_input := ws_header OpClose 2 @ be_enc 2 code\<rparr>"
  have len: "length (be_enc 2 code) < 2 ^ 63" by simp
  have f: "serverFrame (sc_input ?c) = Inr (Some ((0x88, be_enc 2 code), length (ws_header OpClose 2 @ be_enc 2 code)))"
    using serverFrame_wire [OF len, of OpClose "[]"] by simp
  have c: "c\<lparr>sc_input := []\<rparr> = c" using assms(3) by (simp add: set_input_same)
  have d: "dispatchFrame utf8 json c 0x88 (be_enc 2 code) = (None, c\<lparr>sc_closeCode := Some code\<rparr>, [SEnd])"
    using assms(1) by (simp add: dispatchFrame_def seg_def Let_def)
  have up: "sc_upgraded ?c" using assms(2) by simp
  have rest: "drainWebSocket utf8 json (c\<lparr>sc_closeCode := Some code\<rparr>) = (None, c\<lparr>sc_closeCode := Some code\<rparr>, [])"
    using assms(2,3) by (simp add: drain_idle serverFrame_def)
  show ?thesis
    using drain_item [OF up f, of utf8 json] d rest assms(3) c by (simp add: smoke_data_def)
qed

lemma expected_close:
  "sc_closeCode (sl_client l) = Some 1002 \<Longrightarrow> expectProtocolClose (waitForClose_closed l CloseWaiting) = Some (Inr ())"
  by (simp add: expectProtocolClose_def waitForClose_closed_def)

text \<open>C29: Every malformed input of the negative gate, under any mask, makes the gateway queue a Close frame
  with code 1002 and nothing else, mark the connection for closing, and hand the Worker no event.\<close>

theorem bad_inputs_closed:
  assumes "length mk = 4" "bs \<in> set (bad_inputs mk)" "idle c" "conn_inv c" "c_highest_server c = None"
    and "enqueueControl (c_output c) OpClose (be_enc 2 1002) = Inr q"
  shows "\<exists>c'. processPlain worker h (c\<lparr>c_plain := bs\<rparr>) = Some (h, c', [], False)
    \<and> c_close_after_flush c' \<and> queue_abs (c_output c') = queue_abs (c_output c) @ [ws_header OpClose 2 @ be_enc 2 1002]
    \<and> (sc_upgraded (sl_client l) \<longrightarrow> sc_input (sl_client l) = [] \<longrightarrow>
        (\<exists>c2. smoke_data utf8 json (sl_client l) (ws_header OpClose 2 @ be_enc 2 1002) = (None, c2, [SEnd])
          \<and> expectProtocolClose (waitForClose_closed (l\<lparr>sl_client := c2\<rparr>) CloseWaiting) = Some (Inr ())))"
proof -
  have client: "sc_upgraded (sl_client l) \<Longrightarrow> sc_input (sl_client l) = [] \<Longrightarrow>
      \<exists>c2. smoke_data utf8 json (sl_client l) (ws_header OpClose 2 @ be_enc 2 1002) = (None, c2, [SEnd])
          \<and> expectProtocolClose (waitForClose_closed (l\<lparr>sl_client := c2\<rparr>) CloseWaiting) = Some (Inr ())"
    using close_frame_seen [of 1002 "sl_client l" utf8 json] by (simp add: expected_close)
  have pc: "protocolClose (c\<lparr>c_plain := x\<rparr>) 1002 = c\<lparr>c_plain := x, c_output := q, c_close_after_flush := True\<rparr>" for x
    using assms(6) by (simp add: protocolClose_def)
  have q: "queue_abs q = queue_abs (c_output c) @ [ws_header OpClose 2 @ be_enc 2 1002]"
    using enqueueControl_refines [OF _ assms(6)] assms(4) by (simp add: conn_inv_def)
  obtain forged where fg: "future_server_input = Inr [SMasked forged]" "length forged \<le> max_record_size"
      "env_decode forged = Inr \<lparr>record_type = RtStream, fin = True, stream_id = 1, app_error_code = 0, payload = []\<rparr>"
    using forged_record by (auto simp: max_record_size_value)
  obtain env where ev: "bad_envelope_record = Inr env" "length env \<le> max_record_size" "env_decode env = Inl EnvUnsupportedVersion"
    using bad_envelope_bytes by (auto simp: max_record_size_value)
  consider "bs = maskedFrame mk forged 2 True" | "bs = maskedFrame mk env 2 True"
    | "\<exists>e. parseClientFrame bs max_record_size = Inl e \<and> e \<noteq> WsNeedMore" "bs \<noteq> []"
    using assms(2) bad_frames [OF assms(1)] oversized_layout [OF assms(1)]
    by (auto simp: bad_inputs_def fg ev unmasked_input_def reserved_bits_input_def non_canonical_input_def
        fragmented_control_input_def maskedFrame_def Let_def)
  then have "\<exists>c'. processPlain worker h (c\<lparr>c_plain := bs\<rparr>) = Some (h, c', [], False)
    \<and> c_close_after_flush c' \<and> queue_abs (c_output c') = queue_abs (c_output c) @ [ws_header OpClose 2 @ be_enc 2 1002]"
  proof cases
    case 1
    then show ?thesis
      using message_refused [OF assms(1) fg(2) assms(3), of worker h] assms(5) q by (simp add: fg(3) record_event_def pc)
  next
    case 2
    then show ?thesis
      using message_refused [OF assms(1) ev(2) assms(3), of worker h] q by (simp add: ev(3) pc)
  next
    case 3
    then obtain e where "parseClientFrame bs max_record_size = Inl e" "e \<noteq> WsNeedMore" by blast
    from parse_error_closes [OF this assms(3) 3(2), of worker h] show ?thesis using q by (simp add: pc)
  qed
  then show ?thesis using client by blast
qed

theorem bad_inputs_closed_witness:
  "\<exists>c'. processPlain (\<lambda>h c ev. (h, [])) () ((conn_new demo_queue)\<lparr>c_plain := [0x82, 0x00]\<rparr>) = Some ((), c', [], False)
    \<and> queue_abs (c_output c') = [ws_header OpClose 2 @ be_enc 2 1002]"
proof -
  obtain q where q: "enqueueControl (c_output (conn_new demo_queue)) OpClose (be_enc 2 1002) = Inr q"
    by (simp add: enqueueControl_def encodeServerHeader_control length_ws_header hasCapacity_def demo_queue_def conn_new_def Let_def)
  have m: "unmasked_input \<in> set (bad_inputs [1, 2, 3, 4])"
  proof -
    obtain x y where e: "future_server_input = Inr [SMasked x]" "bad_envelope_record = Inr y"
      using forged_record bad_envelope_bytes by blast
    show ?thesis by (simp add: bad_inputs_def e)
  qed
  have n: "c_highest_server (conn_new demo_queue) = None" and mk: "length [1, 2, 3, 4 :: byte] = 4" by (simp_all add: conn_new_def)
  have e: "queue_abs (c_output (conn_new demo_queue)) = []" using demo_queue_inv by (simp add: conn_new_def)
  from bad_inputs_closed [OF mk m idle_new demo_conn_inv n q, of "\<lambda>h c ev. (h, [])" "()"] show ?thesis
    unfolding e unmasked_input_def append_Nil by blast
qed

subsection \<open>The fragmented request\<close>

lemma fragmented_valid_reads:
  assumes "sid < 2 ^ 64"
  obtains frame rec where "openBytesFrame 0 0 2 0 fragmented_text True = Inr frame" "fragmented_valid_record sid = Inr rec"
    "length rec = 43" "env_decode rec = Inr \<lparr>record_type = RtStream, fin = True, stream_id = of_nat sid, app_error_code = 0, payload = frame\<rparr>"
proof -
  obtain frame where f: "openBytesFrame 0 0 2 0 fragmented_text True = Inr frame" "length frame = 23"
    by (simp add: openBytesFrame_def fragmented_text_def Let_def)
  obtain rec where rec: "smoke_encodeEnvelope sid frame True 1 0 = Inr rec" "length rec = 43"
    using f(2) assms by (simp add: smoke_encodeEnvelope_eq js_encodeEnvelope_eq)
  then have "sendStreamRecord sid frame True = Inr [SMasked rec]" by (simp add: sendStreamRecord_def)
  from stream_record_decodes [OF this] f(2) have
    "env_decode rec = Inr \<lparr>record_type = RtStream, fin = True, stream_id = of_nat sid, app_error_code = 0, payload = frame\<rparr>"
    by (auto simp: max_payload_size_def frame_sizes)
  then show ?thesis using that f rec by (simp add: fragmented_valid_record_def)
qed

text \<open>The valid fragmented message of the negative gate, a Ping between its halves, is answered by one Pong
  and reaches the Worker as the one stream record it was cut from, under any three masks.\<close>

theorem fragmented_valid_delivered:
  assumes "length mk1 = 4" "length mk2 = 4" "length mk3 = 4" "sid < 2 ^ 64" "sid mod 4 = 0"
    and "fragmented_valid_record sid = Inr rec" "openBytesFrame 0 0 2 0 fragmented_text True = Inr frame"
    and "idle c" "scratch_cap (c_asm c) = max_record_size" "enqueueControl (c_output c) OpPong [63] = Inr q"
    and "\<And>c2. c_output c2 = q \<Longrightarrow> worker h c2 (EvStreamData (of_nat sid) frame True) = (h1, [])"
  shows "\<exists>c'. processPlain worker h (c\<lparr>c_plain := fragmented_valid_input mk1 mk2 mk3 rec\<rparr>)
    = Some (h1, c', [EvStreamData (of_nat sid) frame True], False) \<and> c_output c' = q"
proof -
  let ?half = "length rec div 2"
  let ?fa = "\<lparr>w_opcode = OpBinary, w_fin = False, w_payload = take ?half rec\<rparr>"
  let ?fp = "\<lparr>w_opcode = OpPing, w_fin = True, w_payload = [63]\<rparr>"
  let ?fb = "\<lparr>w_opcode = OpContinuation, w_fin = True, w_payload = drop ?half rec\<rparr>"
  have len: "length rec = 43" and dec: "env_decode rec = Inr \<lparr>record_type = RtStream, fin = True,
      stream_id = of_nat sid, app_error_code = 0, payload = frame\<rparr>"
    using fragmented_valid_reads [OF assms(4)] assms(6,7) by (metis sum.inject(2))+
  have u: "unat (of_nat sid :: u64) mod 4 = 0" using assms(4,5) by (simp add: unsigned_of_nat take_bit_eq_mod)
  let ?c = "c\<lparr>c_plain := wire_frame mk3 ?fb, c_output := q, c_asm := (c_asm c)\<lparr>fragmented := False, scratch := []\<rparr>\<rparr>"
  have w: "dispatch worker h ?c (EvStreamData (of_nat sid) frame True) = Some (h1, ?c)"
    using assms(11) [of ?c] by (simp add: dispatch_def)
  have "processPlain worker h (c\<lparr>c_plain := wire_frames ((mk1, ?fa) # [(mk2, ?fp)] @ [(mk3, ?fb)])\<rparr>)
    = Some (h1, ?c\<lparr>c_plain := []\<rparr>, [EvStreamData (of_nat sid) frame True], False)"
    by (rule fragments_delivered [OF _ _ _ _ _ _ _ record_event_client [OF u] _ _ _ w])
      (use assms len dec in \<open>simp_all add: sendable_def quiet_def max_record_size_value data_of_def\<close>)
  then show ?thesis by (simp add: wire_frames_def wire_frame_def fragmented_valid_input_def Let_def)
qed

theorem fragmented_valid_delivered_witness:
  "\<exists>rec frame c'. processPlain (\<lambda>h c ev. (h, [])) ()
      ((conn_new demo_queue)\<lparr>c_plain := fragmented_valid_input [1, 2, 3, 4] [5, 6, 7, 8] [9, 9, 9, 9] rec\<rparr>)
    = Some ((), c', [EvStreamData 4 frame True], False)"
proof -
  obtain frame rec where f: "openBytesFrame 0 0 2 0 fragmented_text True = Inr frame" "fragmented_valid_record 4 = Inr rec"
    by (rule fragmented_valid_reads [of 4]) simp
  obtain q where q: "enqueueControl (c_output (conn_new demo_queue)) OpPong [63] = Inr q"
    by (simp add: enqueueControl_def encodeServerHeader_control length_ws_header hasCapacity_def demo_queue_def conn_new_def Let_def)
  have cap: "scratch_cap (c_asm (conn_new demo_queue)) = max_record_size" by (simp add: conn_new_def assembler_init_def)
  from fragmented_valid_delivered [where worker = "\<lambda>h c ev. (h, [])" and h = "()" and sid = 4, OF _ _ _ _ _ f(2,1) idle_new cap q refl,
      of "[1, 2, 3, 4]" "[5, 6, 7, 8]" "[9, 9, 9, 9]"]
  show ?thesis by auto
qed

end
