(* ===== verification/Gate_Negative.thy ===== *)
theory Gate_Negative
  imports Script_Streams Negative_Upgrades Negative_Frames
begin

section \<open>The negative gate as a script (\<open>validation/wss-negative.mjs\<close>)\<close>

text \<open>
  The steps of the gate: eight malformed inputs, each on a connection of its own that must be closed with
  1002, a fragmented message that must be answered, six bad Upgrade requests, and a login at the end. The
  inputs and requests are those of \<open>Negative_Frames\<close> and \<open>Negative_Upgrades\<close>, where the gateway is shown
  to refuse them. Clients 0 to 9 are in the order of the source. The masks, the keys and
  \<open>JSON.stringify\<close> are parameters.
\<close>

definition negative_password :: string where "negative_password = ''Wss-negative-valid-password-2026''"
definition negative_name :: "string \<Rightarrow> string" where "negative_name sfx = ''wss_negative_'' @ sfx"

text \<open>\<open>expectProtocolClose\<close> after its action.\<close>

definition expect_close :: "nat \<Rightarrow> string \<Rightarrow> ('v, unit) script" where
  "expect_close c label =
    then_do (request c (WaitForClose 3000)) (\<lambda>code.
    throw_if (differ (Some (json code)) (Some (JNum 1002)))
      (Err (label @ '': expected WebSocket close 1002, got '' @ js_text (json code))))"

definition reuse_step :: "(jsval \<Rightarrow> bytes) \<Rightarrow> string \<Rightarrow> ('v, unit) script" where
  "reuse_step stringify sfx =
    then_do (request 0 Connect) (\<lambda>r.
    then_do (authenticate 0 (negative_name sfx) negative_password ''register'') (\<lambda>session.
    then_do (field session ''token'') (\<lambda>tok.
    then_do (wire_value (openFrame stringify 1 1 2 0 (JObj [(''type'', JStr ''list_groups''), (''token'', tok)]) True)) (\<lambda>bs.
    then_do (do_it (SendRecord 0 0 bs True)) (\<lambda>u.
    expect_close 0 ''reused client logical stream'')))))"

definition future_step :: "string \<Rightarrow> ('v, unit) script" where
  "future_step sfx =
    then_do (request 1 Connect) (\<lambda>r.
    then_do (authenticate 1 (negative_name sfx) negative_password ''login'') (\<lambda>session.
    then_do (do_it (SendRecord 1 1 [] True)) (\<lambda>u.
    expect_close 1 ''forged future server logical stream'')))"

definition raw_step :: "nat \<times> bytes \<times> string \<Rightarrow> ('v, unit) script" where
  "raw_step = (\<lambda>(c, bs, label).
    then_do (request c Connect) (\<lambda>r.
    then_do (do_it (SendRaw c bs)) (\<lambda>u.
    expect_close c label)))"

definition raw_attacks :: "(nat \<Rightarrow> bytes) \<Rightarrow> (nat \<times> bytes \<times> string) list" where
  "raw_attacks masks =
    [(2, unmasked_input, ''unmasked client frame''),
     (3, reserved_bits_input, ''reserved WebSocket bits''),
     (4, non_canonical_input, ''non-canonical WebSocket length''),
     (5, fragmented_control_input (masks 0), ''fragmented ping control frame''),
     (6, oversized_header (masks 1), ''oversized WebSocket frame'')]"

definition envelope_step :: "(nat \<Rightarrow> bytes) \<Rightarrow> ('v, unit) script" where
  "envelope_step masks =
    then_do (request 7 Connect) (\<lambda>r.
    then_do (wire_value bad_envelope_record) (\<lambda>rec.
    then_do (do_it (SendRaw 7 (maskedFrame (masks 2) rec 0x02 True))) (\<lambda>u.
    expect_close 7 ''unsupported WSS envelope version'')))"

definition fragmented_step :: "(nat \<Rightarrow> bytes) \<Rightarrow> ('v, unit) script" where
  "fragmented_step masks =
    then_do (request 8 Connect) (\<lambda>r.
    then_do (start (Client 8 (BeginExchange False 8000 False))) (\<lambda>p.
    then_do (stream_number p) (\<lambda>sid.
    then_do (wire_value (fragmented_valid_record sid)) (\<lambda>rec.
    let cut = length rec div 2 in
    then_do (do_it (SendRaw 8 (maskedFrame (masks 3) (take cut rec) 0x02 False))) (\<lambda>u.
    then_do (do_it (SendRaw 8 (maskedFrame (masks 4) [63] 0x09 True))) (\<lambda>u.
    then_do (do_it (SendRaw 8 (maskedFrame (masks 5) (drop cut rec) 0x00 True))) (\<lambda>u.
    then_do (await p) (\<lambda>res.
    then_do (value_of (result_frame res)) (\<lambda>f.
    throw_if (Some (jf_route f \<noteq> 0x03 \<or> jf_body f \<noteq> fragmented_text))
      (Err ''valid fragmented binary message did not round-trip''))))))))))"

definition upgrade_labels :: "string list" where
  "upgrade_labels = [''Origin allowlist'', ''Host/SNI mismatch'', ''wrong path'', ''wrong subprotocol'',
     ''wrong WebSocket version'', ''oversized HTTP head'']"

definition upgrade_attempts :: "(nat \<Rightarrow> bytes) \<Rightarrow> (bytes \<times> string) list" where
  "upgrade_attempts keys = map (\<lambda>(i, (opts, e), label). (upgradeRequest opts (keys i), label))
     (enumerate 0 (zip bad_requests upgrade_labels))"

definition refusal :: "bytes \<times> string \<Rightarrow> call" where
  "refusal = (\<lambda>(req, label). ExpectRejected req label)"

definition upgrades_step :: "(nat \<Rightarrow> bytes) \<Rightarrow> ('v, unit) script" where
  "upgrades_step keys =
    then_do (each_value (\<lambda>a. start (refusal a)) (upgrade_attempts keys)) (\<lambda>ps.
    then_do (await_all ps) (\<lambda>rs. return ()))"

definition negative_report :: "string \<Rightarrow> jsval" where
  "negative_report sfx = JObj
    [(''ok'', JBool True), (''username'', JStr (negative_name sfx)),
     (''rejected'', JArr (map JStr [''stream-reuse'', ''future-server-stream'', ''unmasked-frame'', ''reserved-bits'',
        ''non-canonical-length'', ''fragmented-control'', ''oversized-frame'', ''bad-envelope-version'',
        ''origin'', ''host-sni'', ''path'', ''subprotocol'', ''websocket-version'', ''oversized-http-head''])),
     (''fragmented_binary_with_ping'', JStr ''passed''), (''healthy_login_after_negatives'', JStr ''passed''),
     (''close_code'', JNum 1002)]"

definition negative_body :: "(jsval \<Rightarrow> bytes) \<Rightarrow> (nat \<Rightarrow> bytes) \<Rightarrow> (nat \<Rightarrow> bytes) \<Rightarrow> string \<Rightarrow> ('v, unit) script" where
  "negative_body stringify masks keys sfx =
    then_do (reuse_step stringify sfx) (\<lambda>u.
    then_do (future_step sfx) (\<lambda>u.
    then_do (each raw_step (raw_attacks masks)) (\<lambda>u.
    then_do (envelope_step masks) (\<lambda>u.
    then_do (fragmented_step masks) (\<lambda>u.
    then_do (upgrades_step keys) (\<lambda>u.
    then_do (request 9 Connect) (\<lambda>r.
    then_do (authenticate 9 (negative_name sfx) negative_password ''login'') (\<lambda>session.
    then_do (do_it (Print (negative_report sfx))) (\<lambda>u.
    return ())))))))))"

definition negative_clients :: "nat list" where "negative_clients = [0..<10]"

definition negative_gate :: "(jsval \<Rightarrow> bytes) \<Rightarrow> (nat \<Rightarrow> bytes) \<Rightarrow> (nat \<Rightarrow> bytes) \<Rightarrow> string \<Rightarrow> ('v, unit) script" where
  "negative_gate stringify masks keys sfx =
    try_finally (negative_body stringify masks keys sfx) (close_all negative_clients)"

subsection \<open>What a run shows\<close>

text \<open>The connection of a client was closed with 1002 after it had sent its input.\<close>

definition closed_after :: "observed list \<Rightarrow> nat \<Rightarrow> question \<Rightarrow> bool" where
  "closed_after tr c q \<longleftrightarrow> (\<exists>t1 t2 a. tr = t1 @ (q, a) # t2 \<and> fulfilled t2 (Client c (WaitForClose 3000)) (VJson (JNum 1002)))"

lemma json_num: "json y = JNum n \<longleftrightarrow> y = VJson (JNum n)"
  by (cases y) auto

lemma runs_expect_close:
  "runs (expect_close c label) v tr u w \<longleftrightarrow>
   (\<exists>p. tr = [(Start (Client c (WaitForClose 3000)), APromise p), (Await p, AResult (Inr (VJson (JNum 1002))))] \<and> w = v)"
  unfolding expect_close_def by (auto simp: run_simps json_num)

lemma closed_afterI:
  assumes "runs (expect_close c label) v t2 u w"
  shows "closed_after (t1 @ (q, a) # t2) c q"
proof -
  obtain p where t2: "t2 = [(Start (Client c (WaitForClose 3000)), APromise p), (Await p, AResult (Inr (VJson (JNum 1002))))]"
    using assms unfolding runs_expect_close by blast
  have "fulfilled t2 (Client c (WaitForClose 3000)) (VJson (JNum 1002))"
    unfolding t2 by (rule fulfilledI list.set_intros)+
  then show ?thesis unfolding closed_after_def by blast
qed

lemma closed_after_mono: "closed_after tr c q \<Longrightarrow> closed_after (t @ tr @ t') c q"
  unfolding closed_after_def using fulfilled_append by (metis append.assoc append_Cons)

lemmas closed_after_monos = closed_after_mono [of _ _ _ "[]", simplified] closed_after_mono [of _ _ _ _ "[]", simplified]

text \<open>A frame whose stream is reused, whatever the token in it.\<close>

definition reused_frame :: "(jsval \<Rightarrow> bytes) \<Rightarrow> jsval \<Rightarrow> smoke_error + bytes" where
  "reused_frame stringify tok = openFrame stringify 1 1 2 0 (JObj [(''type'', JStr ''list_groups''), (''token'', tok)]) True"

lemma runs_reuse:
  assumes "runs (reuse_step stringify sfx) v tr u w"
  shows "\<exists>tok bs. reused_frame stringify tok = Inr bs \<and> closed_after tr 0 (SendRecord 0 0 bs True)"
proof -
  from assms obtain p1 y1 p2 y2 tok bs t2 where
    tr: "tr = [(Start (Client 0 Connect), APromise p1), (Await p1, AResult (Inr y1)),
      (Start (Client 0 (Authenticate (negative_name sfx) negative_password ''register'')), APromise p2),
      (Await p2, AResult (Inr y2))] @ (SendRecord 0 0 bs True, ADone) # t2"
    and "reused_frame stringify tok = Inr bs" "runs (expect_close 0 ''reused client logical stream'') v t2 u w"
    unfolding reuse_step_def reused_frame_def by (auto simp: run_simps)
  then show ?thesis using closed_afterI by metis
qed

lemma runs_future:
  assumes "runs (future_step sfx) v tr u w"
  shows "closed_after tr 1 (SendRecord 1 1 [] True)"
proof -
  from assms obtain p1 y1 p2 y2 t2 where
    "tr = [(Start (Client 1 Connect), APromise p1), (Await p1, AResult (Inr y1)),
      (Start (Client 1 (Authenticate (negative_name sfx) negative_password ''login'')), APromise p2),
      (Await p2, AResult (Inr y2))] @ (SendRecord 1 1 [] True, ADone) # t2"
    and "runs (expect_close 1 ''forged future server logical stream'') v t2 u w"
    unfolding future_step_def by (auto simp: run_simps)
  then show ?thesis using closed_afterI by metis
qed

lemma runs_raw:
  assumes "runs (raw_step (c, bs, label)) v tr u w"
  shows "closed_after tr c (SendRaw c bs)"
proof -
  from assms obtain p1 y1 t2 where
    "tr = [(Start (Client c Connect), APromise p1), (Await p1, AResult (Inr y1))] @ (SendRaw c bs, ADone) # t2"
    and "runs (expect_close c label) v t2 u w"
    unfolding raw_step_def by (auto simp: run_simps)
  then show ?thesis using closed_afterI by metis
qed

lemma runs_raws:
  "runs (each raw_step as) v tr u w \<Longrightarrow> (c, bs, label) \<in> set as \<Longrightarrow> closed_after tr c (SendRaw c bs)"
proof (induction as arbitrary: v tr)
  case (Cons a as)
  from Cons.prems(1) obtain t1 t2 u1 v1 where t: "tr = t1 @ t2" "runs (raw_step a) v t1 u1 v1"
    "runs (each raw_step as) v1 t2 u w" by (auto simp: runs_then_do)
  consider "a = (c, bs, label)" | "(c, bs, label) \<in> set as" using Cons.prems(2) by auto
  then show ?case
  proof cases
    case 1
    then show ?thesis using runs_raw t closed_after_monos by metis
  next
    case 2
    then show ?thesis using Cons.IH t closed_after_monos by metis
  qed
qed simp

lemma runs_envelope:
  assumes "runs (envelope_step masks) v tr u w"
  shows "\<exists>rec. bad_envelope_record = Inr rec \<and> closed_after tr 7 (SendRaw 7 (maskedFrame (masks 2) rec 0x02 True))"
proof -
  from assms obtain p1 y1 rec t2 where
    "tr = [(Start (Client 7 Connect), APromise p1), (Await p1, AResult (Inr y1))]
      @ (SendRaw 7 (maskedFrame (masks 2) rec 0x02 True), ADone) # t2"
    and "bad_envelope_record = Inr rec" "runs (expect_close 7 ''unsupported WSS envelope version'') v t2 u w"
    unfolding envelope_step_def by (auto simp: run_simps)
  then show ?thesis using closed_afterI by metis
qed

text \<open>The fragments were sent one after the other on the stream of a promise, and its answer has their body.\<close>

definition fragments_sent :: "(nat \<Rightarrow> bytes) \<Rightarrow> bytes \<Rightarrow> observed list" where
  "fragments_sent masks rec = (let cut = length rec div 2 in
     [(SendRaw 8 (maskedFrame (masks 3) (take cut rec) 0x02 False), ADone),
      (SendRaw 8 (maskedFrame (masks 4) [63] 0x09 True), ADone),
      (SendRaw 8 (maskedFrame (masks 5) (drop cut rec) 0x00 True), ADone)])"

definition fragments_answered :: "observed list \<Rightarrow> (nat \<Rightarrow> bytes) \<Rightarrow> bool" where
  "fragments_answered tr masks \<longleftrightarrow> (\<exists>t1 t2 p sid rec f. fragmented_valid_record sid = Inr rec \<and>
     (Start (Client 8 (BeginExchange False 8000 False)), APromise p) \<in> set t1 \<and> (StreamID p, AStream sid) \<in> set t1 \<and>
     tr = t1 @ fragments_sent masks rec @ t2 \<and>
     (Await p, AResult (Inr (VFrame f))) \<in> set t2 \<and> jf_route f = 0x03 \<and> jf_body f = fragmented_text)"

lemma fragments_answered_mono:
  assumes "fragments_answered tr masks"
  shows "fragments_answered (t @ tr @ t') masks"
proof -
  from assms obtain t1 t2 p sid rec f where "fragmented_valid_record sid = Inr rec"
    "(Start (Client 8 (BeginExchange False 8000 False)), APromise p) \<in> set t1" "(StreamID p, AStream sid) \<in> set t1"
    "tr = t1 @ fragments_sent masks rec @ t2"
    "(Await p, AResult (Inr (VFrame f))) \<in> set t2" "jf_route f = 0x03" "jf_body f = fragmented_text"
    unfolding fragments_answered_def by blast
  then show ?thesis unfolding fragments_answered_def
    by (intro exI [of _ "t @ t1"] exI [of _ "t2 @ t'"] exI [of _ p] exI [of _ sid] exI [of _ rec] exI [of _ f]) simp
qed

lemma runs_fragmented:
  assumes "runs (fragmented_step masks) v tr u w"
  shows "fragments_answered tr masks"
proof -
  from assms obtain p1 y1 p sid rec f where
    tr: "tr = [(Start (Client 8 Connect), APromise p1), (Await p1, AResult (Inr y1)),
        (Start (Client 8 (BeginExchange False 8000 False)), APromise p), (StreamID p, AStream sid)] @
       fragments_sent masks rec @ [(Await p, AResult (Inr (VFrame f)))]"
    and "fragmented_valid_record sid = Inr rec" "jf_route f = 0x03" "jf_body f = fragmented_text"
    unfolding fragmented_step_def fragments_sent_def Let_def by (auto simp: run_simps)
  then show ?thesis unfolding fragments_answered_def
    by (intro exI [of _ "[(Start (Client 8 Connect), APromise p1), (Await p1, AResult (Inr y1)),
        (Start (Client 8 (BeginExchange False 8000 False)), APromise p), (StreamID p, AStream sid)]"]
      exI [of _ "[(Await p, AResult (Inr (VFrame f)))]"] exI [of _ p] exI [of _ sid] exI [of _ rec] exI [of _ f]) simp
qed

lemma runs_upgrades:
  assumes "runs (upgrades_step keys) v tr u w" "a \<in> set (upgrade_attempts keys)"
  shows "\<exists>y. fulfilled tr (refusal a) y"
proof -
  from assms(1) obtain t1 t2 rs where "tr = t1 @ t2"
    and "\<And>k. k < length (upgrade_attempts keys) \<Longrightarrow> fulfilled t1 (refusal (upgrade_attempts keys ! k)) (rs ! k)"
    unfolding upgrades_step_def by (rule runs_start_allE) blast
  then show ?thesis using assms(2) fulfilled_append by (metis in_set_conv_nth)
qed

lemmas runs_negative_parts = runs_then_do [where m = "reuse_step f s" for f s] runs_then_do [where m = "future_step s" for s]
  runs_then_do [where m = "each f xs" for f xs] runs_then_do [where m = "envelope_step m" for m]
  runs_then_do [where m = "fragmented_step m" for m] runs_then_do [where m = "upgrades_step k" for k]

text \<open>What a successful run of the negative gate has shown: each of the malformed inputs got its connection closed
  with 1002, the fragmented message was answered, each bad Upgrade request was refused, and a client
  could log in afterwards.\<close>

theorem negative_gate_sound:
  assumes "runs (negative_gate stringify masks keys sfx) v tr x w"
  shows "\<exists>t1 t2 tok bs rec y. tr = t1 @ t2 \<and>
    reused_frame stringify tok = Inr bs \<and> closed_after t1 0 (SendRecord 0 0 bs True) \<and>
    closed_after t1 1 (SendRecord 1 1 [] True) \<and>
    (\<forall>(c, bs, label) \<in> set (raw_attacks masks). closed_after t1 c (SendRaw c bs)) \<and>
    bad_envelope_record = Inr rec \<and> closed_after t1 7 (SendRaw 7 (maskedFrame (masks 2) rec 0x02 True)) \<and>
    fragments_answered t1 masks \<and> (\<forall>a \<in> set (upgrade_attempts keys). \<exists>y. fulfilled t1 (refusal a) y) \<and>
    fulfilled t2 (Client 9 (Authenticate (negative_name sfx) negative_password ''login'')) y"
proof -
  obtain tb vb where tr: "tr = tb @ map (\<lambda>c. (Close c, ADone)) negative_clients"
    and body: "runs (negative_body stringify masks keys sfx) v tb () vb"
    using assms unfolding negative_gate_def runs_try_finally play_close_all by auto
  from body obtain t1 t2 t3 t4 t5 t6 t7 v1 v2 v3 v4 v5 v6 p r q y a where
    split: "tb = t1 @ t2 @ t3 @ t4 @ t5 @ t6 @ t7"
    and parts: "runs (reuse_step stringify sfx) v t1 () v1" "runs (future_step sfx) v1 t2 () v2"
      "runs (each raw_step (raw_attacks masks)) v2 t3 () v3" "runs (envelope_step masks) v3 t4 () v4"
      "runs (fragmented_step masks) v4 t5 () v5" "runs (upgrades_step keys) v5 t6 () v6"
    and t7: "t7 = [(Start (Client 9 Connect), APromise p), (Await p, AResult (Inr r)),
      (Start (Client 9 (Authenticate (negative_name sfx) negative_password ''login'')), APromise q),
      (Await q, AResult (Inr y)), a]"
    unfolding negative_body_def by (clarsimp simp: run_simps runs_negative_parts split: if_splits)
  let ?t = "t1 @ t2 @ t3 @ t4 @ t5 @ t6"
  obtain tok bs where reuse: "reused_frame stringify tok = Inr bs" "closed_after t1 0 (SendRecord 0 0 bs True)"
    using runs_reuse [OF parts(1)] by blast
  obtain rec where envelope: "bad_envelope_record = Inr rec"
    "closed_after t4 7 (SendRaw 7 (maskedFrame (masks 2) rec 0x02 True))" using runs_envelope [OF parts(4)] by blast
  show ?thesis
  proof (intro exI conjI)
    show "tr = ?t @ (t7 @ map (\<lambda>c. (Close c, ADone)) negative_clients)" using tr split by simp
    show "closed_after ?t 0 (SendRecord 0 0 bs True)" using closed_after_mono [OF reuse(2), of "[]"] by simp
    show "closed_after ?t 1 (SendRecord 1 1 [] True)"
      using closed_after_mono [OF runs_future [OF parts(2)], of t1] by simp
    show "\<forall>(c, bs, label) \<in> set (raw_attacks masks). closed_after ?t c (SendRaw c bs)"
      using closed_after_mono [OF runs_raws [OF parts(3)], of _ _ _ "t1 @ t2" "t4 @ t5 @ t6"] by auto
    show "closed_after ?t 7 (SendRaw 7 (maskedFrame (masks 2) rec 0x02 True))"
      using closed_after_mono [OF envelope(2), of "t1 @ t2 @ t3" "t5 @ t6"] by simp
    show "fragments_answered ?t masks"
      using fragments_answered_mono [OF runs_fragmented [OF parts(5)], of "t1 @ t2 @ t3 @ t4" t6] by simp
    show "\<forall>a \<in> set (upgrade_attempts keys). \<exists>y. fulfilled ?t (refusal a) y"
      using runs_upgrades [OF parts(6)] fulfilled_mono [of t6 _ _ ?t] by fastforce
    show "fulfilled (t7 @ map (\<lambda>c. (Close c, ADone)) negative_clients)
        (Client 9 (Authenticate (negative_name sfx) negative_password ''login'')) y"
      by (rule fulfilledI [of _ q]) (simp_all add: t7)
  qed (use reuse envelope in auto)
qed

subsection \<open>The gate\<close>

lemma quiet_negative_parts [quiet_intros]:
  "Script_Reports.quiet (expect_close c label)" "Script_Reports.quiet (envelope_step masks)" "Script_Reports.quiet (fragmented_step masks)" "Script_Reports.quiet (upgrades_step keys)"
  unfolding expect_close_def envelope_step_def fragmented_step_def upgrades_step_def
  by (intro quiet_intros)+

lemma quiet_negative_steps [quiet_intros]:
  "Script_Reports.quiet (reuse_step stringify sfx)" "Script_Reports.quiet (future_step sfx)" "Script_Reports.quiet (raw_step a)"
  unfolding reuse_step_def future_step_def raw_step_def
  by (intro quiet_intros)+

interpretation negative: gate "negative_body stringify masks keys sfx" "close_all negative_clients" "\<lambda>v. negative_clients"
  for stringify masks keys sfx
  by (rule gate_close_all) (unfold negative_body_def, intro report_intros quiet_intros)

theorem negative_gate_ends: "ends (negative_gate stringify masks keys sfx)"
  unfolding negative_gate_def negative_body_def expect_close_def reuse_step_def future_step_def raw_step_def
    envelope_step_def fragmented_step_def upgrades_step_def
  by (intro ends_intros)

end
