(* ===== verification/Gate_Faults.thy ===== *)
theory Gate_Faults
  imports Script_Calls
begin

section \<open>The fault-recovery gate (\<open>validation/wss-fault-recovery.mjs\<close>)\<close>

text \<open>
  The gate starts a Reactor and a Gateway itself, stops and restarts the Reactor three times under one
  session, kills and restarts the Gateway twice with a new login each time, and wants a token for each
  of the three Gateway incarnations in the Reactor's log. Children are named by what \<open>spawn\<close> answered;
  the clients are 0, 1 and 2. \<open>ReadLog\<close> answers what a program's processes have written so far, and
  \<open>Remaining\<close> the \<open>children\<close> that have not exited. The \<open>destID\<close> is put into the pattern of \<open>onlineTokens\<close> as
  the digits it is.
\<close>

record fault_vars =
  fv_reactor :: "nat option"
  fv_gateway :: "nat option"
  fv_client :: "nat option"
  fv_spawned :: "nat list"

definition fault_start_vars :: fault_vars where
  "fault_start_vars = \<lparr>fv_reactor = None, fv_gateway = None, fv_client = None, fv_spawned = []\<rparr>"

definition fault_password :: string where "fault_password = ''Wss-fault-valid-password-2026''"
definition fault_name :: "string \<Rightarrow> string" where "fault_name sfx = ''wss_fault_'' @ sfx"

subsection \<open>Processes\<close>

text \<open>\<open>capture\<close>, and the assignments \<open>reactor = startReactor()\<close> and \<open>gateway = startGateway()\<close>.\<close>

definition capture_child :: "program \<Rightarrow> (fault_vars, nat) script" where
  "capture_child g = then_do (spawn g) (\<lambda>c. Get (\<lambda>v. Put (v\<lparr>fv_spawned := fv_spawned v @ [c]\<rparr>) (return c)))"

definition startReactor :: "(fault_vars, nat) script" where
  "startReactor = then_do (capture_child Reactor) (\<lambda>c. Get (\<lambda>v. Put (v\<lparr>fv_reactor := Some c\<rparr>) (return c)))"

definition startGateway :: "(fault_vars, nat) script" where
  "startGateway = then_do (capture_child Gateway) (\<lambda>c. Get (\<lambda>v. Put (v\<lparr>fv_gateway := Some c\<rparr>) (return c)))"

text \<open>\<open>read().slice(-2000)\<close>, and a log from an old length on (\<open>log.slice(n)\<close>).\<close>

definition last_part :: "string \<Rightarrow> string" where
  "last_part s = drop (length s - 2000) s"

definition log_from :: "program \<Rightarrow> nat \<Rightarrow> ('v, string) script" where
  "log_from g n = then_do (read_log g) (\<lambda>s. return (drop n s))"

definition marker_round :: "program \<Rightarrow> nat \<Rightarrow> string \<Rightarrow> nat \<Rightarrow> unit \<Rightarrow> ('v, unit + unit) script" where
  "marker_round g n marker child u =
    then_do (log_from g n) (\<lambda>s.
    if index_of marker s \<noteq> None then return (Inr ())
    else then_do (child_status child) (\<lambda>st.
      if exitCode st \<noteq> None
      then then_do (log_from g n) (\<lambda>s'. throw (Err (''process exited before marker '' @ marker @ '': '' @ last_part s')))
      else then_do (do_it (Sleep 25)) (\<lambda>u. return (Inl ()))))"

definition marker_expired :: "program \<Rightarrow> nat \<Rightarrow> string \<Rightarrow> unit \<Rightarrow> ('v, unit) script" where
  "marker_expired g n marker u =
    then_do (log_from g n) (\<lambda>s. throw (Err (''timeout waiting for marker '' @ marker @ '': '' @ last_part s)))"

definition waitForMarker :: "nat \<Rightarrow> program \<Rightarrow> nat \<Rightarrow> string \<Rightarrow> nat \<Rightarrow> ('v, unit) script" where
  "waitForMarker fuel g n marker child =
    poll_for fuel 15000 (marker_round g n marker child) (marker_expired g n marker) ()"

definition exited :: "child_status \<Rightarrow> bool" where
  "exited st \<longleftrightarrow> exitCode st \<noteq> None \<or> signalCode st \<noteq> None"

definition waitForExit :: "nat \<Rightarrow> nat \<Rightarrow> ('v, unit) script" where
  "waitForExit child ms =
    then_do (child_status child) (\<lambda>st.
    if exited st then return ()
    else then_do (await_exit child ms) (\<lambda>r. return ()))"

definition stop :: "nat option \<Rightarrow> string \<Rightarrow> nat \<Rightarrow> ('v, unit) script" where
  "stop child signal ms = (case child of None \<Rightarrow> return () | Some c \<Rightarrow>
    then_do (child_status c) (\<lambda>st.
    if exited st then return ()
    else then_do (do_it (Kill c signal)) (\<lambda>u.
      catch (waitForExit c ms) (\<lambda>e.
        then_do (do_it (Kill c ''SIGKILL'')) (\<lambda>u.
        then_do (waitForExit c 3000) (\<lambda>u.
        if signal = ''SIGKILL'' then throw e else return ()))))))"

text \<open>One round of \<open>retry\<close>; the state is \<open>lastError\<close>.\<close>

definition retry_round :: "('v, 'a) script \<Rightarrow> script_error option \<Rightarrow> ('v, script_error option + 'a) script" where
  "retry_round action lastError =
    catch (then_do action (\<lambda>x. return (Inr x)))
      (\<lambda>e. then_do (do_it (Sleep 100)) (\<lambda>u. return (Inl (Some e))))"

definition retry_error :: "script_error option \<Rightarrow> script_error" where
  "retry_error lastError = (case lastError of Some e \<Rightarrow> e | None \<Rightarrow> Err ''retry timeout'')"

definition retry :: "nat \<Rightarrow> ('v, 'a) script \<Rightarrow> nat \<Rightarrow> ('v, 'a) script" where
  "retry fuel action ms = poll_for fuel ms (retry_round action) (\<lambda>lastError. throw (retry_error lastError)) None"

subsection \<open>Tokens in the log\<close>

text \<open>
  \<open>onlineTokens\<close>: the matches of the pattern, left to right and disjoint, each the longest run of
  hexadecimal digits after the fixed text, in lower case.
\<close>

definition token_prefix :: "string \<Rightarrow> string" where
  "token_prefix dest = ''presence online=true realm=0 dest_id='' @ dest @ '' conn_token=''"

definition hex_char :: "char \<Rightarrow> bool" where
  "hex_char c \<longleftrightarrow> (let n = of_char c :: nat in 48 \<le> n \<and> n \<le> 57 \<or> 65 \<le> n \<and> n \<le> 70 \<or> 97 \<le> n \<and> n \<le> 102)"

definition lower_hex :: "char \<Rightarrow> char" where
  "lower_hex c = (let n = of_char c :: nat in if 65 \<le> n \<and> n \<le> 70 then char_of (n + 32) else c)"

function tokens_in :: "string \<Rightarrow> string \<Rightarrow> string list" where
  "tokens_in pre [] = []"
| "tokens_in pre (c # cs) =
    (let rest = drop (length pre) (c # cs); tok = takeWhile hex_char rest in
     if take (length pre) (c # cs) = pre \<and> tok \<noteq> [] then map lower_hex tok # tokens_in pre (drop (length tok) rest)
     else tokens_in pre cs)"
  by pat_completeness auto
termination by (relation "measure (\<lambda>(pre, s). length s)") (auto simp: length_greater_0_conv [symmetric] simp del: length_greater_0_conv)

declare tokens_in.simps(2) [simp del]

definition onlineTokens :: "string \<Rightarrow> jsval \<Rightarrow> string list" where
  "onlineTokens log dest = tokens_in (token_prefix (js_text dest)) log"

text \<open>\<open>new Set(tokens).size\<close>.\<close>

definition set_size :: "string list \<Rightarrow> nat" where
  "set_size ts = length (remdups ts)"

definition tokens_visible :: "jsval \<Rightarrow> nat \<Rightarrow> string \<Rightarrow> ('v, unit) script" where
  "tokens_visible session n msg =
    then_do (read_log Reactor) (\<lambda>log.
    then_do (field session ''destID'') (\<lambda>dest.
    throw_if (Some (set_size (onlineTokens log dest) < n)) (Err msg)))"

subsection \<open>The script\<close>

definition list_groups :: "nat \<Rightarrow> jsval \<Rightarrow> ('v, jsval) script" where
  "list_groups c session = command c session [(''type'', JStr ''list_groups'')]"

definition transport_ready :: string where "transport_ready = ''[BACKEND] transport ready''"
definition listener_started :: string where "listener_started = ''[WSS] listener started''"
definition quic_listening :: string where "quic_listening = ''QUIC server listening''"

text \<open>\<open>activeClient = new WssValidationClient()\<close> and its \<open>connect\<close>.\<close>

definition new_client :: "nat \<Rightarrow> (fault_vars, unit) script" where
  "new_client c = Get (\<lambda>v. Put (v\<lparr>fv_client := Some c\<rparr>) (then_do (request c Connect) (\<lambda>r. return ())))"

definition fault_start :: "nat \<Rightarrow> string \<Rightarrow> (fault_vars, jsval) script" where
  "fault_start fuel sfx =
    then_do startReactor (\<lambda>r.
    then_do (waitForMarker fuel Reactor 0 quic_listening r) (\<lambda>u.
    then_do startGateway (\<lambda>g.
    then_do (waitForMarker fuel Gateway 0 transport_ready g) (\<lambda>u.
    then_do (waitForMarker fuel Gateway 0 listener_started g) (\<lambda>u.
    then_do (new_client 0) (\<lambda>u.
    then_do (authenticate 0 (fault_name sfx) fault_password ''register'') (\<lambda>session.
    then_do (list_groups 0 session) (\<lambda>gs.
    then_do (retry fuel (tokens_visible session 1 ''first lifecycle token not visible yet'') 15000) (\<lambda>u.
    return session)))))))))"

text \<open>What the request gave while the Reactor was stopped: \<open>String(error)\<close>, or \<open>None\<close> when it succeeded.\<close>

definition failed_request :: "nat \<Rightarrow> jsval \<Rightarrow> ('v, string option) script" where
  "failed_request c session =
    catch (then_do (list_groups c session) (\<lambda>r. return None)) (\<lambda>e. return (Some (error_text e)))"

definition reactor_cycle :: "nat \<Rightarrow> jsval \<Rightarrow> nat \<Rightarrow> (fault_vars, jsval) script" where
  "reactor_cycle fuel session cycle =
    then_do now (\<lambda>stoppedAt.
    then_do (Get (\<lambda>v. stop (fv_reactor v) ''SIGINT'' 10000)) (\<lambda>u.
    then_do now (\<lambda>failureStarted.
    then_do (failed_request 0 session) (\<lambda>failure.
    then_do now (\<lambda>t1.
    then_do now (\<lambda>t2.
    then_do (throw_if (Some (failure = None \<or> failure = Some []))
      (Err (''cycle '' @ show_nat cycle @ '': request falsely succeeded while Reactor was stopped''))) (\<lambda>u.
    then_do (log_from Reactor 0) (\<lambda>old.
    then_do now (\<lambda>recoveryStarted.
    then_do startReactor (\<lambda>r.
    then_do (waitForMarker fuel Reactor (length old) quic_listening r) (\<lambda>u.
    then_do (retry fuel (list_groups 0 session) 20000) (\<lambda>gs.
    then_do now (\<lambda>t3.
    return (JObj [(''cycle'', JNum (int cycle)), (''stop_to_failure_ms'', JNum (int t2 - int stoppedAt)),
      (''request_failure_ms'', JNum (int t1 - int failureStarted)), (''failure'', case failure of None \<Rightarrow> JNull | Some m \<Rightarrow> JStr m),
      (''recovery_ms'', JNum (int t3 - int recoveryStarted))]))))))))))))))"

definition gateway_cycle :: "nat \<Rightarrow> string \<Rightarrow> nat \<Rightarrow> (fault_vars, jsval \<times> jsval) script" where
  "gateway_cycle fuel sfx cycle =
    then_do now (\<lambda>gatewayStoppedAt.
    then_do (start (Client (cycle - 1) (WaitForClose 10000))) (\<lambda>closed.
    then_do (Get (\<lambda>v. stop (fv_gateway v) ''SIGKILL'' 3000)) (\<lambda>u.
    then_do (await closed) (\<lambda>code.
    then_do (log_from Gateway 0) (\<lambda>old.
    then_do startGateway (\<lambda>g.
    then_do (waitForMarker fuel Gateway (length old) transport_ready g) (\<lambda>u.
    then_do (waitForMarker fuel Gateway (length old) listener_started g) (\<lambda>u.
    then_do (new_client cycle) (\<lambda>u.
    then_do (authenticate cycle (fault_name sfx) fault_password ''login'') (\<lambda>session.
    then_do (list_groups cycle session) (\<lambda>gs.
    then_do now (\<lambda>t.
    return (session, JObj [(''cycle'', JNum (int cycle)), (''transport_close_code'', json code),
      (''relogin_ms'', JNum (int t - int gatewayStoppedAt))])))))))))))))"

definition reactor_numbers :: "nat list" where "reactor_numbers = [1, 2, 3]"
definition gateway_numbers :: "nat list" where "gateway_numbers = [1, 2]"

definition fault_report :: "string \<Rightarrow> jsval \<Rightarrow> jsval list \<Rightarrow> jsval list \<Rightarrow> string list \<Rightarrow> jsval" where
  "fault_report sfx dest rs gs tokens = JObj
    [(''ok'', JBool True), (''username'', JStr (fault_name sfx)), (''dest_id'', dest), (''reactor_cycles'', JArr rs),
     (''gateway_cycles'', JArr gs), (''conn_token_incarnations'', JNum (int (set_size tokens)))]"

definition fault_end :: "nat \<Rightarrow> string \<Rightarrow> jsval \<Rightarrow> jsval list \<Rightarrow> jsval list \<Rightarrow> ('v, unit) script" where
  "fault_end fuel sfx session rs gs =
    (let expected = length gs + 1 in
    then_do (retry fuel (tokens_visible session expected ''all Gateway lifecycle tokens are not visible yet'') 15000) (\<lambda>u.
    then_do (read_log Reactor) (\<lambda>log.
    then_do (field session ''destID'') (\<lambda>dest.
    let tokens = onlineTokens log dest in
    then_do (throw_if (Some (set_size tokens < expected))
      (ErrJson ''Gateway restart reused conn_token: '' (JArr (map JStr tokens)))) (\<lambda>u.
    then_do (dest_text session) (\<lambda>d.
    then_do (do_it (Print (fault_report sfx d rs gs tokens))) (\<lambda>u.
    return ())))))))"

definition fault_body :: "nat \<Rightarrow> string \<Rightarrow> (fault_vars, unit) script" where
  "fault_body fuel sfx =
    then_do (fault_start fuel sfx) (\<lambda>session.
    then_do (each_value (reactor_cycle fuel session) reactor_numbers) (\<lambda>rs.
    then_do (each_value (gateway_cycle fuel sfx) gateway_numbers) (\<lambda>gs.
    fault_end fuel sfx (fst (last gs)) rs (map snd gs))))"

definition close_active :: "(fault_vars, unit) script" where
  "close_active = Get (\<lambda>v. case fv_client v of None \<Rightarrow> return () | Some c \<Rightarrow> close_all [c])"

definition kill_remaining :: "(fault_vars, unit) script" where
  "kill_remaining = Get (\<lambda>v. then_do (remaining (fv_spawned v)) (\<lambda>cs. each (\<lambda>c. do_it (Kill c ''SIGKILL'')) cs))"

definition fault_finally :: "(fault_vars, unit) script" where
  "fault_finally =
    then_do close_active (\<lambda>u.
    then_do (do_it (Sleep 50)) (\<lambda>u.
    then_do (catch (Get (\<lambda>v. stop (fv_gateway v) ''SIGINT'' 10000)) (\<lambda>e. return ())) (\<lambda>u.
    then_do (catch (Get (\<lambda>v. stop (fv_reactor v) ''SIGINT'' 10000)) (\<lambda>e. return ())) (\<lambda>u.
    then_do kill_remaining (\<lambda>u. do_it RemoveFiles)))))"

definition fault_gate :: "nat \<Rightarrow> string \<Rightarrow> (fault_vars, unit) script" where
  "fault_gate fuel sfx = try_finally (fault_body fuel sfx) fault_finally"

subsection \<open>The loops end\<close>

definition faults_fuel :: nat where "faults_fuel = 626"

interpretation markers: polling "marker_round g n marker child" 24 for g n marker child
proof unfold_locales
  fix u
  show "ends (marker_round g n marker child u)"
    unfolding marker_round_def log_from_def by (intro ends_intros)
next
  fix u v tr u' w t
  assume r: "runs (marker_round g n marker child u) v tr (Inl u') w" and ok: "clock_ok t tr"
  have "(Sleep 25, ADone) \<in> set tr"
    using r by (auto simp: marker_round_def log_from_def then_do_assoc run_simps split: if_splits)
  from sleep_takes [OF ok this] show "t + 24 \<le> clock_end t tr" by simp
qed simp

lemma waitForMarker_ends [ends_intros]: "faults_fuel \<le> fuel \<Longrightarrow> ends (waitForMarker fuel g n marker child)"
  unfolding waitForMarker_def faults_fuel_def marker_expired_def log_from_def
  by (rule markers.poll_for_ends [of _ 625]) (simp_all add: ends_intros)

lemma runs_do_it_alone: "runs (do_it q) v tr u w \<longleftrightarrow> (\<exists>a. tr = [(q, a)] \<and> fits q a \<and> w = v)"
  unfolding do_it_def by (cases tr) (auto split: if_splits)

lemma play_then_return: "play (then_do m (\<lambda>x. return (g x))) v tr = Some (Threw e, w) \<longleftrightarrow> play m v tr = Some (Threw e, w)"
  by (auto simp: play_then_do split: if_splits)

lemma retry_goes_on:
  assumes "runs (retry_round action lastError) v tr (Inl s) w"
  shows "\<exists>tr1 e v1. tr = tr1 @ [(Sleep 100, ADone)] \<and> play action v tr1 = Some (Threw e, v1) \<and> s = Some e \<and> w = v1"
  using assms unfolding retry_round_def runs_catch
  by (auto simp: runs_then_do runs_do_it_alone play_then_return split: if_splits)

lemma retry_returns:
  assumes "runs (retry_round action lastError) v tr (Inr x) w"
  shows "runs action v tr x w"
  using assms unfolding retry_round_def runs_catch
  by (auto simp: runs_then_do runs_do_it_alone split: if_splits)

lemma retry_polling: "ends action \<Longrightarrow> polling (retry_round action) 99"
proof unfold_locales
  fix lastError
  assume "ends action"
  then show "ends (retry_round action lastError)"
    unfolding retry_round_def by (intro ends_intros)
next
  fix lastError v tr s w t
  assume r: "runs (retry_round action lastError) v tr (Inl s) w" and ok: "clock_ok t tr"
  have "(Sleep 100, ADone) \<in> set tr" using retry_goes_on [OF r] by auto
  from sleep_takes [OF ok this] show "t + 99 \<le> clock_end t tr" by simp
qed simp

lemma retry_ends [ends_intros]:
  "ends action \<Longrightarrow> ms \<le> 20000 \<Longrightarrow> faults_fuel \<le> fuel \<Longrightarrow> ends (retry fuel action ms)"
  unfolding retry_def faults_fuel_def
  by (rule polling.poll_for_ends [OF retry_polling, of _ _ 203]) (simp_all add: ends_intros)

lemma ends_processes [ends_intros]:
  "ends (capture_child g)" "ends startReactor" "ends startGateway" "ends (waitForExit c ms)" "ends (stop child signal ms)"
  unfolding capture_child_def startReactor_def startGateway_def waitForExit_def stop_def
  by (intro ends_intros)+

lemma ends_fault_calls [ends_intros]:
  "ends (tokens_visible session n msg)" "ends (list_groups c session)" "ends (new_client c)"
  "ends (failed_request c session)" "ends (log_from g n)"
  unfolding tokens_visible_def list_groups_def new_client_def failed_request_def log_from_def
  by (intro ends_intros)+

theorem fault_gate_ends: "faults_fuel \<le> fuel \<Longrightarrow> ends (fault_gate fuel sfx)"
  unfolding fault_gate_def fault_body_def fault_start_def reactor_cycle_def gateway_cycle_def fault_end_def
    fault_finally_def close_active_def kill_remaining_def
  by (intro ends_intros; simp)

subsection \<open>Every process is accounted for\<close>

text \<open>The processes that were started in a run; the variables hold them all.\<close>

fun spawned :: "observed list \<Rightarrow> nat list" where
  "spawned [] = []"
| "spawned ((Spawn g, AChild c) # tr) = c # spawned tr"
| "spawned (x # tr) = spawned tr"

lemma spawned_append [simp]: "spawned (tr @ tr') = spawned tr @ spawned tr'"
  by (induction tr rule: spawned.induct) auto

definition recorded :: "fault_vars \<Rightarrow> observed list \<Rightarrow> fault_vars \<Rightarrow> bool" where
  "recorded v tr w \<longleftrightarrow> fv_spawned w = fv_spawned v @ spawned tr"

lemma spawned_plain: "plain q \<Longrightarrow> spawned ((q, a) # tr) = spawned tr"
  by (cases q) (simp_all add: plain_def)

interpretation recorded: run_relation recorded
  by unfold_locales (auto simp: recorded_def spawned_plain)

named_theorems record_intros \<open>scripts that record the processes they start\<close>

declare recorded.rules [record_intros]

lemma recorded_print [record_intros]: "always recorded (do_it (Print j))"
  unfolding do_it_def by (rule recorded.ask) (auto simp: recorded_def intro: record_intros)

lemma recorded_put:
  "(\<And>v. fv_spawned (f v) = fv_spawned v) \<Longrightarrow> (\<And>v. always recorded (m v)) \<Longrightarrow> always recorded (Get (\<lambda>v. Put (f v) (m v)))"
  unfolding always_def recorded_def by simp

lemma recorded_capture_child [record_intros]: "always recorded (capture_child g)"
proof (rule alwaysI)
  fix v tr r w
  assume "play (capture_child g) v tr = Some (r, w)"
  then show "recorded v tr w"
    unfolding capture_child_def by (auto simp: play_spawn recorded_def split: if_splits)
qed

lemma recorded_parts [record_intros]:
  "always recorded startReactor" "always recorded startGateway" "always recorded (new_client c)"
  "always recorded (log_from g n)" "always recorded (waitForExit c ms)" "always recorded (stop child signal ms)"
  "always recorded (authenticate c user pw action)" "always recorded (list_groups c session)"
  "always recorded (failed_request c session)" "always recorded (tokens_visible session n msg)"
  "always recorded (dest_text session)" "always recorded (field session k)"
  unfolding startReactor_def startGateway_def new_client_def log_from_def waitForExit_def stop_def authenticate_def
    list_groups_def command_def start_command_def field_def failed_request_def tokens_visible_def dest_text_def
  by (intro record_intros recorded_put; simp)+

lemma recorded_loops [record_intros]:
  "always recorded (waitForMarker fuel g n marker child)"
  "always recorded action \<Longrightarrow> always recorded (retry fuel action ms)"
  unfolding waitForMarker_def marker_round_def marker_expired_def retry_def retry_round_def
  by (intro record_intros; assumption)+

lemma recorded_body: "always recorded (fault_body fuel sfx)"
  unfolding fault_body_def fault_start_def reactor_cycle_def gateway_cycle_def fault_end_def
  by (intro record_intros recorded_put; simp)

lemma steady_parts:
  "steady (stop child signal ms)" "steady (log_from g n)" "steady (list_groups c session)" "steady (failed_request c session)"
  unfolding stop_def waitForExit_def log_from_def list_groups_def command_def start_command_def field_def failed_request_def
  by (intro steady.rules; assumption)+

lemma steady_loops:
  "steady (waitForMarker fuel g n marker child)" "steady action \<Longrightarrow> steady (retry fuel action ms)"
  unfolding waitForMarker_def marker_round_def marker_expired_def log_from_def retry_def retry_round_def
  by (intro steady.rules; assumption)+

subsection \<open>The finalizer\<close>

text \<open>A sure script does not throw.\<close>

definition sure :: "('v, 'a) script \<Rightarrow> bool" where
  "sure m \<longleftrightarrow> (\<forall>v tr r w. play m v tr = Some (r, w) \<longrightarrow> r \<noteq> OutOfFuel \<longrightarrow> (\<exists>x. r = Returned x))"

lemma sureD: "sure m \<Longrightarrow> play m v tr = Some (r, w) \<Longrightarrow> r \<noteq> OutOfFuel \<Longrightarrow> \<exists>x. r = Returned x"
  unfolding sure_def by blast

lemma play_sure:
  assumes "sure m" "play (then_do m f) v tr = Some (r, w)" "r \<noteq> OutOfFuel"
  shows "\<exists>tr1 tr2 x v1. tr = tr1 @ tr2 \<and> runs m v tr1 x v1 \<and> play (f x) v1 tr2 = Some (r, w)"
  using assms(2,3) sureD [OF assms(1)] unfolding play_then_do by fastforce

lemma sure_then_do: "sure m \<Longrightarrow> (\<And>x. sure (f x)) \<Longrightarrow> sure (then_do m f)"
  using play_sure unfolding sure_def [of "then_do m f"] by (metis sureD)

lemma sure_simple: "sure (return x)" "sure (do_it q)" "sure (remaining cs)" "sure (close_all cs)"
  "(\<And>v. sure (k v)) \<Longrightarrow> sure (Get k)"
  by (auto simp: sure_def do_it_def remaining_def play_close_all split: if_splits list.splits answer.splits)

lemma sure_each: "(\<And>x. sure (f x)) \<Longrightarrow> sure (each f xs)"
  by (induction xs) (auto intro: sure_simple sure_then_do)

lemma sure_catch: "sure (catch m (\<lambda>e. return x))"
  unfolding sure_def
proof (intro allI impI)
  fix v tr r w
  let ?k = "\<lambda>r. case r of Threw e \<Rightarrow> return x | _ \<Rightarrow> Done r"
  assume "play (catch m (\<lambda>e. return x)) v tr = Some (r, w)" and r: "r \<noteq> OutOfFuel"
  then obtain tr1 tr2 q v1 where "play (settle_do ?k q) v1 tr2 = Some (r, w)"
    unfolding catch_def play_on_outcome by blast
  then show "\<exists>y. r = Returned y" using r by (cases q) (auto split: if_splits)
qed

lemma runs_kills: "runs (each (\<lambda>c. do_it (Kill c sig)) cs) v tr u w \<longleftrightarrow> tr = map (\<lambda>c. (Kill c sig, ADone)) cs \<and> w = v"
  by (induction cs arbitrary: tr) (auto simp: runs_then_do runs_do_it_alone split: if_splits)

lemma sure_finally: "sure fault_finally"
  unfolding fault_finally_def close_active_def kill_remaining_def
  by (intro sure_then_do sure_simple sure_each sure_catch) (auto intro: sure_simple split: option.split)

definition fault_clients :: "fault_vars \<Rightarrow> nat list" where
  "fault_clients v = (case fv_client v of None \<Rightarrow> [] | Some c \<Rightarrow> [c])"

text \<open>What the finalizer leaves: the client closed, each child that had not exited killed, the files removed.\<close>

definition cleaned_up :: "fault_vars \<Rightarrow> observed list \<Rightarrow> bool" where
  "cleaned_up v tr \<longleftrightarrow> (\<forall>c \<in> set (fault_clients v). (Close c, ADone) \<in> set tr) \<and>
     (\<exists>cs. (Remaining (fv_spawned v), AChildren cs) \<in> set tr \<and> (\<forall>c \<in> set cs. (Kill c ''SIGKILL'', ADone) \<in> set tr)) \<and>
     (RemoveFiles, ADone) \<in> set tr"

lemma runs_finally:
  assumes "runs fault_finally v tr u w"
  shows "cleaned_up v tr"
proof -
  have caught: "steady (catch (Get (\<lambda>v. stop (f v) ''SIGINT'' 10000)) (\<lambda>e. return ()))" for f :: "fault_vars \<Rightarrow> nat option"
    by (intro steady.rules steady_parts)
  from assms obtain t1 v1 t2 v2 t3 v3 cs where
    tr: "tr = t1 @ [(Sleep 50, ADone)] @ t2 @ t3 @ (Remaining (fv_spawned v3), AChildren cs)
        # map (\<lambda>c. (Kill c ''SIGKILL'', ADone)) cs @ [(RemoveFiles, ADone)]"
    and r: "runs close_active v t1 () v1"
      "runs (catch (Get (\<lambda>v. stop (fv_gateway v) ''SIGINT'' 10000)) (\<lambda>e. return ())) v1 t2 () v2"
      "runs (catch (Get (\<lambda>v. stop (fv_reactor v) ''SIGINT'' 10000)) (\<lambda>e. return ())) v2 t3 () v3"
    unfolding fault_finally_def kill_remaining_def
    by (auto simp: run_simps runs_kills runs_do_it_alone then_do_assoc
        runs_then_do [where m = "catch m h" for m h] runs_then_do [where m = "each f xs" for f xs]
        runs_then_do [where m = close_active] split: if_splits)
  have "v1 = v" "\<forall>c \<in> set (fault_clients v). (Close c, ADone) \<in> set t1"
    using r(1) unfolding close_active_def fault_clients_def
    by (auto simp: play_close_all split: option.splits if_splits)
  moreover have "v3 = v" using steadyD [OF caught r(2)] steadyD [OF caught r(3)] \<open>v1 = v\<close> by simp
  ultimately show ?thesis unfolding cleaned_up_def tr by auto
qed

lemma quiet_finally: "quiet fault_finally"
  unfolding fault_finally_def close_active_def kill_remaining_def stop_def waitForExit_def
  by (intro quiet_intros)

subsection \<open>What a run shows\<close>

definition stopped :: "observed list \<Rightarrow> nat \<Rightarrow> bool" where
  "stopped tr c \<longleftrightarrow> (\<exists>st. (ChildStatus c, AStatus st) \<in> set tr \<and> exited st) \<or>
     (\<exists>ms r. (AwaitExit c ms, AResult (Inr r)) \<in> set tr)"

lemma runs_waitForExit: "runs (waitForExit c ms) v tr u w \<Longrightarrow> stopped tr c \<and> w = v"
  unfolding waitForExit_def stopped_def by (auto simp: run_simps split: if_splits)

text \<open>\<open>stop\<close> returns only after the child's exit was seen, whatever signal it took.\<close>

lemma runs_stop: "runs (stop (Some c) signal ms) v tr u w \<Longrightarrow> stopped tr c \<and> w = v"
proof -
  assume r: "runs (stop (Some c) signal ms) v tr u w"
  then obtain st tr1 where tr: "tr = (ChildStatus c, AStatus st) # tr1"
    and b: "runs (if exited st then return ()
      else then_do (do_it (Kill c signal)) (\<lambda>u. catch (waitForExit c ms) (\<lambda>e.
        then_do (do_it (Kill c ''SIGKILL'')) (\<lambda>u. then_do (waitForExit c 3000) (\<lambda>u.
        if signal = ''SIGKILL'' then throw e else return ()))))) v tr1 u w"
    unfolding stop_def by (auto simp: run_simps)
  show ?thesis
  proof (cases "exited st")
    case True
    then show ?thesis using b tr by (auto simp: stopped_def split: if_splits)
  next
    case False
    with b obtain tr2 where tr1: "tr1 = (Kill c signal, ADone) # tr2"
      and "runs (catch (waitForExit c ms) (\<lambda>e. then_do (do_it (Kill c ''SIGKILL'')) (\<lambda>u. then_do (waitForExit c 3000) (\<lambda>u.
        if signal = ''SIGKILL'' then throw e else return ())))) v tr2 u w"
      by (auto simp: run_simps)
    then consider "runs (waitForExit c ms) v tr2 u w"
      | t1 t2 e v1 where "tr2 = t1 @ t2" "play (waitForExit c ms) v t1 = Some (Threw e, v1)"
        "runs (then_do (do_it (Kill c ''SIGKILL'')) (\<lambda>u. then_do (waitForExit c 3000) (\<lambda>u.
          if signal = ''SIGKILL'' then throw e else return ()))) v1 t2 u w"
      unfolding runs_catch by blast
    then have "stopped tr2 c \<and> w = v"
    proof cases
      case 1
      then show ?thesis by (rule runs_waitForExit)
    next
      case 2
      have "v1 = v" using 2(2) by (rule steadyD [rotated]) (auto simp: waitForExit_def intro!: steady.rules)
      moreover obtain t3 v2 where "t2 = (Kill c ''SIGKILL'', ADone) # t3" "runs (waitForExit c 3000) v1 t3 () v2" "w = v2"
        using 2(3) by (auto simp: run_simps runs_then_do [where m = "waitForExit c ms" for c ms] split: if_splits)
      ultimately show ?thesis using runs_waitForExit [of c 3000 v1 t3 "()" v2] 2(1) by (auto simp: stopped_def)
    qed
    then show ?thesis unfolding tr tr1 by (auto simp: stopped_def)
  qed
qed

text \<open>The log of a program was seen to contain a marker from a position on.\<close>

definition marker_in :: "observed list \<Rightarrow> program \<Rightarrow> nat \<Rightarrow> string \<Rightarrow> bool" where
  "marker_in tr g n marker \<longleftrightarrow> (\<exists>s. (ReadLog g, AText s) \<in> set tr \<and> index_of marker (drop n s) \<noteq> None)"

lemma runs_waitForMarker:
  assumes "runs (waitForMarker fuel g n marker child) v tr u w"
  shows "marker_in tr g n marker \<and> w = v"
proof -
  have late: "\<not> runs (marker_expired g n marker s) v tr x w" for s v tr x w
    unfolding marker_expired_def log_from_def by (auto simp: then_do_assoc run_simps)
  from runs_poll_for [OF assms [unfolded waitForMarker_def] late] obtain s v' tr1 tr2 where
    "tr = tr1 @ tr2" "runs (marker_round g n marker child s) v' tr2 (Inr u) w" by blast
  then have "marker_in tr g n marker"
    unfolding marker_round_def log_from_def marker_in_def
    by (auto simp: then_do_assoc run_simps split: if_splits)
  then show ?thesis using steadyD [OF steady_loops(1) assms] by simp
qed

lemma runs_retry:
  assumes "runs (retry fuel action ms) v tr x w" "steady action"
  shows "\<exists>tr1 tr2. tr = tr1 @ tr2 \<and> runs action v tr2 x v \<and> w = v"
proof -
  from runs_poll_for [OF assms(1) [unfolded retry_def] runs_throw] obtain s v' tr1 tr2 where
    t: "tr = tr1 @ tr2" and q: "runs (retry_round action s) v' tr2 (Inr x) w" by (elim exE conjE)
  have r: "runs action v' tr2 x w" by (rule retry_returns [OF q])
  have "w = v" "w = v'" using steadyD [OF steady_loops(2) assms(1)] steadyD [OF assms(2) r] assms(2) by auto
  then show ?thesis using t r by blast
qed

text \<open>A list of the groups that was answered, and one that was not.\<close>

abbreviation groups_call :: "nat \<Rightarrow> jsval \<Rightarrow> call" where
  "groups_call c tok \<equiv> Client c (Command tok [(''type'', JStr ''list_groups'')])"

definition grouped :: "observed list \<Rightarrow> nat \<Rightarrow> jsval \<Rightarrow> bool" where
  "grouped tr c session \<longleftrightarrow> (\<exists>tok y. js_get session ''token'' = Some tok \<and> fulfilled tr (groups_call c tok) y)"

definition request_failed :: "observed list \<Rightarrow> nat \<Rightarrow> jsval \<Rightarrow> bool" where
  "request_failed tr c session \<longleftrightarrow> (\<exists>tok p e. js_get session ''token'' = Some tok \<and>
     (Start (groups_call c tok), APromise p) \<in> set tr \<and> (Await p, AResult (Inl e)) \<in> set tr)"

lemma runs_list_groups:
  assumes "runs (list_groups c session) v tr x w"
  shows "grouped tr c session \<and> w = v"
proof -
  from assms have "runs (then_do (list_groups c session) return) v tr x w"
    unfolding runs_then_do by (intro exI [of _ tr] exI [of _ "[]"]) auto
  then obtain tok p y where "js_get session ''token'' = Some tok"
    and tr: "tr = [(Start (groups_call c tok), APromise p), (Await p, AResult (Inr y))]" "w = v"
    unfolding list_groups_def by (auto simp: run_simps split: if_splits)
  moreover have "fulfilled tr (groups_call c tok) y"
    unfolding tr(1) by (rule fulfilledI list.set_intros)+
  ultimately show ?thesis unfolding grouped_def by blast
qed

lemma runs_failed_request:
  assumes "runs (failed_request c session) v tr x w" "x \<noteq> None" "js_get session ''token'' \<noteq> None"
  shows "request_failed tr c session \<and> w = v"
proof -
  let ?m = "then_do (list_groups c session) (\<lambda>r. return (None :: string option))"
  from assms obtain e where e: "play ?m v tr = Some (Threw e, w)"
    unfolding failed_request_def runs_catch by (auto simp: runs_then_do split: if_splits)
  from assms(3) obtain tok where tok: "js_get session ''token'' = Some tok" by blast
  have go: "then_do (list_groups c session) f = then_do (start (groups_call c tok)) (\<lambda>p. then_do (await p) (\<lambda>r. f (json r)))"
    for f :: "jsval \<Rightarrow> (_, string option) script"
    unfolding list_groups_def by (simp add: tok value_of_def)
  from e obtain p r tr' where "tr = (Start (groups_call c tok), APromise p) # (Await p, AResult r) # tr'"
    "play (then_do (settled_script r) (\<lambda>r. return (None :: string option))) v tr' = Some (Threw e, w)"
    unfolding go by (auto simp: play_start play_await)
  then show ?thesis using tok by (cases r) (auto simp: request_failed_def split: if_splits)
qed

lemma marker_in_mono: "marker_in tr g n m \<Longrightarrow> set tr \<subseteq> set tr' \<Longrightarrow> marker_in tr' g n m"
  unfolding marker_in_def by blast

lemma grouped_mono: "grouped tr c session \<Longrightarrow> set tr \<subseteq> set tr' \<Longrightarrow> grouped tr' c session"
  unfolding grouped_def using fulfilled_mono by blast

text \<open>A marker in what a program has written since its log was read to be \<open>old\<close>.\<close>

definition new_marker :: "observed list \<Rightarrow> program \<Rightarrow> string \<Rightarrow> bool" where
  "new_marker tr g marker \<longleftrightarrow> (\<exists>old. (ReadLog g, AText old) \<in> set tr \<and> marker_in tr g (length old) marker)"

definition both_started :: "string \<Rightarrow> observed list \<Rightarrow> nat \<Rightarrow> nat \<Rightarrow> jsval \<Rightarrow> bool" where
  "both_started sfx tr r g session \<longleftrightarrow> (Spawn Reactor, AChild r) \<in> set tr \<and> marker_in tr Reactor 0 quic_listening \<and>
     (Spawn Gateway, AChild g) \<in> set tr \<and> marker_in tr Gateway 0 transport_ready \<and> marker_in tr Gateway 0 listener_started \<and>
     (\<exists>y. fulfilled tr (Client 0 (Authenticate (fault_name sfx) fault_password ''register'')) y \<and> session = json y) \<and>
     grouped tr 0 session"

definition reactor_recovered :: "jsval \<Rightarrow> nat \<Rightarrow> observed list \<Rightarrow> nat \<Rightarrow> bool" where
  "reactor_recovered session r tr r' \<longleftrightarrow> (\<exists>t1 t2 t3. tr = t1 @ t2 @ t3 \<and> stopped t1 r \<and> request_failed t2 0 session \<and>
     (Spawn Reactor, AChild r') \<in> set t3 \<and> new_marker t3 Reactor quic_listening \<and> grouped t3 0 session)"

definition gateway_restarted :: "string \<Rightarrow> nat \<Rightarrow> nat \<Rightarrow> observed list \<Rightarrow> nat \<Rightarrow> jsval \<Rightarrow> bool" where
  "gateway_restarted sfx k g tr g' session \<longleftrightarrow> (\<exists>t1 t2 y code. tr = t1 @ t2 \<and> stopped t1 g \<and>
     fulfilled t1 (Client (k - 1) (WaitForClose 10000)) code \<and>
     (Spawn Gateway, AChild g') \<in> set t2 \<and> new_marker t2 Gateway transport_ready \<and> new_marker t2 Gateway listener_started \<and>
     fulfilled t2 (Client k (Authenticate (fault_name sfx) fault_password ''login'')) y \<and> session = json y \<and>
     grouped t2 k session)"

lemma runs_startReactor:
  "runs startReactor v tr c w \<longleftrightarrow>
   tr = [(Spawn Reactor, AChild c)] \<and> w = v\<lparr>fv_spawned := fv_spawned v @ [c], fv_reactor := Some c\<rparr>"
  unfolding startReactor_def capture_child_def by (auto simp: play_spawn then_do_assoc split: if_splits)

lemma runs_startGateway:
  "runs startGateway v tr c w \<longleftrightarrow>
   tr = [(Spawn Gateway, AChild c)] \<and> w = v\<lparr>fv_spawned := fv_spawned v @ [c], fv_gateway := Some c\<rparr>"
  unfolding startGateway_def capture_child_def by (auto simp: play_spawn then_do_assoc split: if_splits)

lemma runs_new_client:
  "runs (new_client c) v tr u w \<Longrightarrow> w = v\<lparr>fv_client := Some c\<rparr>"
  unfolding new_client_def by (auto simp: run_simps split: if_splits)

lemma runs_log_from: "runs (then_do (log_from g 0) f) v tr x w \<longleftrightarrow>
   (\<exists>s tr'. tr = (ReadLog g, AText s) # tr' \<and> runs (f s) v tr' x w)"
  unfolding log_from_def then_do_assoc by (simp add: run_simps)

lemmas runs_fault_parts = runs_then_do [where m = startReactor] runs_then_do [where m = startGateway]
  runs_then_do [where m = "new_client c" for c] runs_then_do [where m = "waitForMarker f g n k c" for f g n k c]
  runs_then_do [where m = "retry f a n" for f a n] runs_then_do [where m = "failed_request c s" for c s]
  runs_then_do [where m = "list_groups c s" for c s] runs_then_do [where m = "stop c s m" for c s m]

lemma runs_reactor_cycle:
  assumes "runs (reactor_cycle fuel session k) v tr x w" "fv_reactor v = Some r" "js_get session ''token'' \<noteq> None"
  shows "\<exists>r'. reactor_recovered session r tr r' \<and> fv_reactor w = Some r' \<and> fv_gateway w = fv_gateway v"
proof -
  from assms(1,2) obtain s0 ts vs s1 tf fl vf s2 s3 old s4 r' tm vm tg gs vg s5 where
    tr: "tr = (Now, ATime s0) # ts @ (Now, ATime s1) # tf @ (Now, ATime s2) # (Now, ATime s3) # (ReadLog Reactor, AText old)
       # (Now, ATime s4) # (Spawn Reactor, AChild r') # tm @ tg @ [(Now, ATime s5)]"
    and r: "runs (stop (Some r) ''SIGINT'' 10000) v ts () vs" "runs (failed_request 0 session) vs tf fl vf" "fl \<noteq> None"
      "runs (waitForMarker fuel Reactor (length old) quic_listening r')
         (vf\<lparr>fv_spawned := fv_spawned vf @ [r'], fv_reactor := Some r'\<rparr>) tm () vm"
      "runs (retry fuel (list_groups 0 session) 20000) vm tg gs vg" "w = vg"
    unfolding reactor_cycle_def
    by (clarsimp simp: run_simps runs_log_from runs_startReactor runs_fault_parts split: if_splits)
  note stop = runs_stop [OF r(1)] and fail = runs_failed_request [OF r(2,3) assms(3)] and mark = runs_waitForMarker [OF r(4)]
  from runs_retry [OF r(5) steady_parts(3)] obtain tg1 tg2 where g: "tg = tg1 @ tg2" "runs (list_groups 0 session) vm tg2 gs vm" "vg = vm"
    by blast
  let ?t3 = "(Now, ATime s2) # (Now, ATime s3) # (ReadLog Reactor, AText old)
       # (Now, ATime s4) # (Spawn Reactor, AChild r') # tm @ tg @ [(Now, ATime s5)]"
  have "reactor_recovered session r tr r'"
    unfolding reactor_recovered_def
  proof (intro exI conjI)
    show "tr = ((Now, ATime s0) # ts @ [(Now, ATime s1)]) @ tf @ ?t3" using tr by simp
    show "stopped ((Now, ATime s0) # ts @ [(Now, ATime s1)]) r" using stop by (auto simp: stopped_def)
    show "request_failed tf 0 session" using fail by blast
    show "(Spawn Reactor, AChild r') \<in> set ?t3" by simp
    show "new_marker ?t3 Reactor quic_listening" unfolding new_marker_def
      by (intro exI [of _ old] conjI marker_in_mono [OF conjunct1 [OF mark]]) auto
    show "grouped ?t3 0 session"
      by (rule grouped_mono [OF conjunct1 [OF runs_list_groups [OF g(2)]]]) (auto simp: g)
  qed
  then show ?thesis using stop fail mark g(3) r(6) by auto
qed

lemma runs_gateway_cycle:
  assumes "runs (gateway_cycle fuel sfx k) v tr x w" "fv_gateway v = Some g"
  shows "\<exists>g'. gateway_restarted sfx k g tr g' (fst x) \<and> fv_gateway w = Some g'"
proof -
  from assms obtain s0 p ts vs code old g' tm1 vm1 tm2 vm2 tc vc q y tg gs vg s1 where
    tr: "tr = (Now, ATime s0) # (Start (Client (k - 1) (WaitForClose 10000)), APromise p) # ts
       @ (Await p, AResult (Inr code)) # (ReadLog Gateway, AText old) # (Spawn Gateway, AChild g') # tm1 @ tm2 @ tc
       @ (Start (Client k (Authenticate (fault_name sfx) fault_password ''login'')), APromise q) # (Await q, AResult (Inr y))
       # tg @ [(Now, ATime s1)]"
    and r: "runs (stop (Some g) ''SIGKILL'' 3000) v ts () vs"
      "runs (waitForMarker fuel Gateway (length old) transport_ready g')
         (vs\<lparr>fv_spawned := fv_spawned vs @ [g'], fv_gateway := Some g'\<rparr>) tm1 () vm1"
      "runs (waitForMarker fuel Gateway (length old) listener_started g') vm1 tm2 () vm2"
      "runs (new_client k) vm2 tc () vc" "runs (list_groups k (json y)) vc tg gs vg" "w = vg" "fst x = json y"
    unfolding gateway_cycle_def
    by (clarsimp simp: run_simps runs_log_from runs_startGateway runs_fault_parts split: if_splits)
  note stop = runs_stop [OF r(1)] and m1 = runs_waitForMarker [OF r(2)] and m2 = runs_waitForMarker [OF r(3)]
    and gr = runs_list_groups [OF r(5)]
  let ?t1 = "(Now, ATime s0) # (Start (Client (k - 1) (WaitForClose 10000)), APromise p) # ts @ [(Await p, AResult (Inr code))]"
  let ?t2 = "(ReadLog Gateway, AText old) # (Spawn Gateway, AChild g') # tm1 @ tm2 @ tc
       @ (Start (Client k (Authenticate (fault_name sfx) fault_password ''login'')), APromise q) # (Await q, AResult (Inr y))
       # tg @ [(Now, ATime s1)]"
  have "gateway_restarted sfx k g tr g' (fst x)"
    unfolding gateway_restarted_def
  proof (intro exI conjI)
    show "tr = ?t1 @ ?t2" using tr by simp
    show "stopped ?t1 g" using stop by (auto simp: stopped_def)
    show "fulfilled ?t1 (Client (k - 1) (WaitForClose 10000)) code" by (rule fulfilledI [of _ p]) simp_all
    show "(Spawn Gateway, AChild g') \<in> set ?t2" by simp
    show "new_marker ?t2 Gateway transport_ready" unfolding new_marker_def
      by (intro exI [of _ old] conjI marker_in_mono [OF conjunct1 [OF m1]]) auto
    show "new_marker ?t2 Gateway listener_started" unfolding new_marker_def
      by (intro exI [of _ old] conjI marker_in_mono [OF conjunct1 [OF m2]]) auto
    show "fulfilled ?t2 (Client k (Authenticate (fault_name sfx) fault_password ''login'')) y"
      by (rule fulfilledI [of _ q]) simp_all
    show "fst x = json y" by (rule r)
    show "grouped ?t2 k (fst x)" unfolding r(7) by (rule grouped_mono [OF conjunct1 [OF gr]]) auto
  qed
  then show ?thesis using stop m1 m2 gr runs_new_client [OF r(4)] r(6) by auto
qed

lemma steady_tokens: "steady (tokens_visible session n msg)"
  unfolding tokens_visible_def field_def by (intro steady.rules)

lemma runs_fault_start:
  assumes "runs (fault_start fuel sfx) v tr session w"
  shows "\<exists>r g. both_started sfx tr r g session \<and> fv_reactor w = Some r \<and> fv_gateway w = Some g"
proof -
  from assms obtain r tm0 v0 g tm1 v1 tm2 v2 tc vc q y tg gs vg tt u vt where
    tr: "tr = (Spawn Reactor, AChild r) # tm0 @ (Spawn Gateway, AChild g) # tm1 @ tm2 @ tc
       @ (Start (Client 0 (Authenticate (fault_name sfx) fault_password ''register'')), APromise q) # (Await q, AResult (Inr y))
       # tg @ tt"
    and r: "runs (waitForMarker fuel Reactor 0 quic_listening r)
         (v\<lparr>fv_spawned := fv_spawned v @ [r], fv_reactor := Some r\<rparr>) tm0 () v0"
      "runs (waitForMarker fuel Gateway 0 transport_ready g)
         (v0\<lparr>fv_spawned := fv_spawned v0 @ [g], fv_gateway := Some g\<rparr>) tm1 () v1"
      "runs (waitForMarker fuel Gateway 0 listener_started g) v1 tm2 () v2"
      "runs (new_client 0) v2 tc () vc" "runs (list_groups 0 (json y)) vc tg gs vg" "session = json y"
      "runs (retry fuel (tokens_visible session 1 ''first lifecycle token not visible yet'') 15000) vg tt () w"
    unfolding fault_start_def
    by (clarsimp simp: run_simps runs_startReactor runs_startGateway runs_fault_parts split: if_splits)
  note m0 = runs_waitForMarker [OF r(1)] and m1 = runs_waitForMarker [OF r(2)] and m2 = runs_waitForMarker [OF r(3)]
    and gr = runs_list_groups [OF r(5)]
  have "both_started sfx tr r g session"
    unfolding both_started_def
  proof (intro conjI)
    show "marker_in tr Reactor 0 quic_listening" by (rule marker_in_mono [OF conjunct1 [OF m0]]) (auto simp: tr)
    show "marker_in tr Gateway 0 transport_ready" by (rule marker_in_mono [OF conjunct1 [OF m1]]) (auto simp: tr)
    show "marker_in tr Gateway 0 listener_started" by (rule marker_in_mono [OF conjunct1 [OF m2]]) (auto simp: tr)
    show "\<exists>y. fulfilled tr (Client 0 (Authenticate (fault_name sfx) fault_password ''register'')) y \<and> session = json y"
      by (intro exI [of _ y] conjI fulfilledI [of _ q] r) (simp_all add: tr)
    show "grouped tr 0 session" unfolding r(6) by (rule grouped_mono [OF conjunct1 [OF gr]]) (auto simp: tr)
  qed (simp_all add: tr)
  then show ?thesis
    using m0 m1 m2 gr runs_new_client [OF r(4)] runs_retry [OF r(7) steady_tokens] by auto
qed

lemma runs_fault_end:
  assumes "runs (fault_end fuel sfx session rs gs) v tr x w"
  shows "\<exists>log dest. js_get session ''destID'' = Some dest \<and> (ReadLog Reactor, AText log) \<in> set tr \<and>
    length gs + 1 \<le> card (set (onlineTokens log dest))"
proof -
  from assms obtain t1 log t2 dest where "tr = t1 @ (ReadLog Reactor, AText log) # t2"
    "js_get session ''destID'' = Some dest" "\<not> set_size (onlineTokens log dest) < length gs + 1"
    unfolding fault_end_def Let_def
    by (clarsimp simp: run_simps runs_fault_parts split: if_splits)
  then show ?thesis by (auto simp: set_size_def length_remdups_card_conv)
qed

subsection \<open>Tokens\<close>

text \<open>A token of a log: a longest run of digits after the fixed text, in lower case.\<close>

definition token_at :: "string \<Rightarrow> string \<Rightarrow> string \<Rightarrow> bool" where
  "token_at pre s t \<longleftrightarrow> (\<exists>a d b. s = a @ pre @ d @ b \<and> d \<noteq> [] \<and> list_all hex_char d \<and>
     (b = [] \<or> \<not> hex_char (hd b)) \<and> t = map lower_hex d)"

lemma takeWhile_longest: "list_all P d \<Longrightarrow> b = [] \<or> \<not> P (hd b) \<Longrightarrow> takeWhile P (d @ b) = d"
  by (induction d) (auto simp: takeWhile_eq_Nil_iff)

lemma tokens_in_sound: "t \<in> set (tokens_in pre s) \<Longrightarrow> token_at pre s t"
proof (induction pre s rule: tokens_in.induct)
  case (2 pre c cs)
  let ?rest = "drop (length pre) (c # cs)"
  let ?tok = "takeWhile hex_char ?rest"
  show ?case
  proof (cases "take (length pre) (c # cs) = pre \<and> ?tok \<noteq> []")
    case True
    have s: "c # cs = pre @ ?tok @ dropWhile hex_char ?rest"
      using True append_take_drop_id [of "length pre" "c # cs"] by simp
    have d: "drop (length ?tok) ?rest = dropWhile hex_char ?rest" by (simp add: dropWhile_eq_drop)
    from True "2.prems" consider "t = map lower_hex ?tok" | "t \<in> set (tokens_in pre (drop (length ?tok) ?rest))"
      by (auto simp: tokens_in.simps(2) Let_def)
    then show ?thesis
    proof cases
      case 1
      have "list_all hex_char ?tok" by (auto simp: list_all_iff dest: set_takeWhileD)
      moreover have "dropWhile hex_char ?rest = [] \<or> \<not> hex_char (hd (dropWhile hex_char ?rest))"
        using hd_dropWhile by blast
      ultimately show ?thesis unfolding token_at_def using s True 1 by (metis append_Nil)
    next
      case 2
      from "2.IH"(1) [OF refl refl True 2] have "token_at pre (drop (length ?tok) ?rest) t" .
      then obtain a d' b where "dropWhile hex_char ?rest = a @ pre @ d' @ b" "d' \<noteq> []" "list_all hex_char d'"
        "b = [] \<or> \<not> hex_char (hd b)" "t = map lower_hex d'" unfolding token_at_def d by blast
      then show ?thesis unfolding token_at_def using s by (metis append.assoc)
    qed
  next
    case False
    then have "t \<in> set (tokens_in pre cs)" using "2.prems" by (auto simp: tokens_in.simps(2) Let_def)
    from "2.IH"(2) [OF refl refl False this] show ?thesis unfolding token_at_def by (metis append_Cons)
  qed
qed simp

lemma tokens_in_complete:
  assumes "token_at pre s t" "pre = p # ps" "p \<notin> set ps" "\<not> hex_char p"
  shows "t \<in> set (tokens_in pre s)"
  using assms
proof (induction pre s rule: tokens_in.induct)
  case (1 pre)
  then show ?case by (simp add: token_at_def)
next
  case (2 pre c cs)
  let ?rest = "drop (length pre) (c # cs)"
  let ?tok = "takeWhile hex_char ?rest"
  from "2.prems" obtain a d b where s: "c # cs = a @ pre @ d @ b" and d: "d \<noteq> []" "list_all hex_char d"
    "b = [] \<or> \<not> hex_char (hd b)" "t = map lower_hex d" unfolding token_at_def by blast
  show ?case
  proof (cases "take (length pre) (c # cs) = pre \<and> ?tok \<noteq> []")
    case True
    have s': "c # cs = pre @ ?tok @ dropWhile hex_char ?rest"
      using True append_take_drop_id [of "length pre" "c # cs"] by simp
    have here: "set (tokens_in pre (c # cs)) = insert (map lower_hex ?tok) (set (tokens_in pre (drop (length ?tok) ?rest)))"
      using True by (simp add: tokens_in.simps(2) Let_def)
    show ?thesis
    proof (cases a)
      case Nil
      then have "?rest = d @ b" using s by simp
      then show ?thesis using takeWhile_longest [OF d(2,3)] d(4) here by simp
    next
      case (Cons c' a')
      have "length (pre @ ?tok) \<le> length a"
      proof (rule ccontr)
        assume n: "\<not> ?thesis"
        define k where k: "k = ?tok"
        define D where "D = dropWhile hex_char ?rest"
        have k2: "c # cs = (p # ps @ k) @ D" unfolding D_def k using s' "2.prems"(2) by (metis append.assoc append_Cons)
        have "(c # cs) ! length a = p" using s "2.prems"(2) by (simp add: nth_append)
        moreover have l: "length a - 1 < length (ps @ k)" using n Cons "2.prems"(2) unfolding k by simp
        moreover have "(c # cs) ! length a = (ps @ k) ! (length a - 1)"
          unfolding k2 using l Cons by (simp add: nth_append del: append_Cons append_assoc)
        ultimately have "p \<in> set (ps @ ?tok)" unfolding k by (metis nth_mem)
        then show False using "2.prems"(3,4) by (auto dest: set_takeWhileD)
      qed
      moreover have "(pre @ ?tok) @ dropWhile hex_char ?rest = a @ pre @ d @ b" by (metis append.assoc s s')
      ultimately have "dropWhile hex_char ?rest = drop (length (pre @ ?tok)) a @ pre @ d @ b"
        unfolding append_eq_append_conv_if by argo
      then have "token_at pre (drop (length ?tok) ?rest) t"
        using d unfolding token_at_def by (metis dropWhile_eq_drop)
      from "2.IH"(1) [OF refl refl True this "2.prems"(2-4)] show ?thesis unfolding here by blast
    qed
  next
    case False
    have "a \<noteq> []"
    proof
      assume "a = []"
      then have "take (length pre) (c # cs) = pre" "?rest = d @ b" using s by simp_all
      then show False using False takeWhile_longest [OF d(2,3)] d(1) by simp
    qed
    then have "token_at pre cs t" using s d unfolding token_at_def by (cases a) auto
    from "2.IH"(2) [OF refl refl False this "2.prems"(2-4)] show ?thesis using False by (auto simp: tokens_in.simps(2) Let_def)
  qed
qed

text \<open>C35: The tokens the fault gate reads off the Reactor's log are exactly those in it: each longest run of hex
  digits behind a line that puts this destination online, in lower case, and nothing else.\<close>

theorem onlineTokens_exact:
  "set (onlineTokens log (JNum n)) = {t. token_at (token_prefix (show_int n)) log t}"
proof -
  let ?ps = "''resence online=true realm=0 dest_id='' @ show_int n @ '' conn_token=''"
  have p: "token_prefix (show_int n) = CHR ''p'' # ?ps" by (simp add: token_prefix_def)
  have "CHR ''p'' \<notin> set (show_int n)"
    using show_nat_digits [of "CHR ''p''"] by (auto simp: show_int_def)
  then have "CHR ''p'' \<notin> set ?ps" by simp
  moreover have "\<not> hex_char (CHR ''p'')" by (simp add: hex_char_def)
  ultimately show ?thesis
    using tokens_in_sound tokens_in_complete [OF _ p] unfolding onlineTokens_def by auto
qed

subsection \<open>The gate\<close>

text \<open>C33: What a successful run of the fault-recovery gate has shown: under one session, three times over, the
  Reactor's exit was seen, then a request of that session failed, then a new Reactor wrote its marker and
  the same session was answered again; then, twice, the Gateway's exit was seen and its client's close,
  and a new client logged in to a new Gateway; and the Reactor's log had a token for each of the three.\<close>

theorem fault_gate_sound:
  assumes "runs (fault_gate fuel sfx) v tr x w"
  shows "\<exists>t0 s1 s2 s3 h1 h2 t9 session r0 r1 r2 r3 g0 g1 g2 ses1 ses2 log dest.
    tr = t0 @ s1 @ s2 @ s3 @ h1 @ h2 @ t9 \<and> both_started sfx t0 r0 g0 session \<and>
    reactor_recovered session r0 s1 r1 \<and> reactor_recovered session r1 s2 r2 \<and> reactor_recovered session r2 s3 r3 \<and>
    gateway_restarted sfx 1 g0 h1 g1 ses1 \<and> gateway_restarted sfx 2 g1 h2 g2 ses2 \<and>
    js_get ses2 ''destID'' = Some dest \<and> (ReadLog Reactor, AText log) \<in> set t9 \<and>
    3 \<le> card (set (onlineTokens log dest))"
proof -
  obtain tb t9 vb where tr: "tr = tb @ t9" and body: "runs (fault_body fuel sfx) v tb () vb"
    using assms unfolding fault_gate_def runs_try_finally by auto
  from body obtain t0 session v0 s1 x1 v1 s2 x2 v2 s3 x3 v3 h1 y1 w1 h2 y2 w2 te where
    split: "tb = t0 @ s1 @ s2 @ s3 @ h1 @ h2 @ te"
    and r: "runs (fault_start fuel sfx) v t0 session v0" "runs (reactor_cycle fuel session 1) v0 s1 x1 v1"
      "runs (reactor_cycle fuel session 2) v1 s2 x2 v2" "runs (reactor_cycle fuel session 3) v2 s3 x3 v3"
      "runs (gateway_cycle fuel sfx 1) v3 h1 y1 w1" "runs (gateway_cycle fuel sfx 2) w1 h2 y2 w2"
      "runs (fault_end fuel sfx (fst y2) [x1, x2, x3] [snd y1, snd y2]) w2 te () vb"
    unfolding fault_body_def reactor_numbers_def gateway_numbers_def
    by (clarsimp simp: then_do_assoc runs_then_do [where m = "fault_start f x" for f x] runs_then_do [where m = "reactor_cycle f s k" for f s k]
        runs_then_do [where m = "gateway_cycle f s k" for f s k])
  from runs_fault_start [OF r(1)] obtain r0 g0 where S: "both_started sfx t0 r0 g0 session" "fv_reactor v0 = Some r0"
    "fv_gateway v0 = Some g0" by blast
  have tok: "js_get session ''token'' \<noteq> None" using S(1) by (auto simp: both_started_def grouped_def)
  from runs_reactor_cycle [OF r(2) S(2) tok] S(3) obtain r1 where A: "reactor_recovered session r0 s1 r1"
    "fv_reactor v1 = Some r1" "fv_gateway v1 = Some g0" by auto
  from runs_reactor_cycle [OF r(3) A(2) tok] A(3) obtain r2 where B: "reactor_recovered session r1 s2 r2"
    "fv_reactor v2 = Some r2" "fv_gateway v2 = Some g0" by auto
  from runs_reactor_cycle [OF r(4) B(2) tok] B(3) obtain r3 where C: "reactor_recovered session r2 s3 r3"
    "fv_gateway v3 = Some g0" by auto
  from runs_gateway_cycle [OF r(5) C(2)] obtain g1 where D: "gateway_restarted sfx 1 g0 h1 g1 (fst y1)"
    "fv_gateway w1 = Some g1" by blast
  from runs_gateway_cycle [OF r(6) D(2)] obtain g2 where E: "gateway_restarted sfx 2 g1 h2 g2 (fst y2)" by blast
  from runs_fault_end [OF r(7)] obtain log dest where F: "js_get (fst y2) ''destID'' = Some dest"
    "(ReadLog Reactor, AText log) \<in> set te" "3 \<le> card (set (onlineTokens log dest))" by auto
  have "tr = t0 @ s1 @ s2 @ s3 @ h1 @ h2 @ (te @ t9)" "(ReadLog Reactor, AText log) \<in> set (te @ t9)"
    using tr split F(2) by simp_all
  then show ?thesis using S(1) A(1) B(1) C(1) D(1) E F(1,3) by blast
qed

lemma quiet_fault_calls [quiet_intros]:
  "quiet (capture_child g)" "quiet startReactor" "quiet startGateway" "quiet (new_client c)" "quiet (list_groups c session)"
  "quiet (failed_request c session)" "quiet (tokens_visible session n msg)" "quiet (stop child signal ms)" "quiet (log_from g n)"
  unfolding capture_child_def startReactor_def startGateway_def new_client_def list_groups_def failed_request_def
    tokens_visible_def stop_def waitForExit_def log_from_def
  by (intro quiet_intros)+

lemma quiet_fault_loops [quiet_intros]:
  "quiet (waitForMarker fuel g n marker child)" "quiet action \<Longrightarrow> quiet (retry fuel action ms)"
  unfolding waitForMarker_def marker_round_def marker_expired_def retry_def retry_round_def
  by (intro quiet_intros; assumption)+

lemma quiet_fault_parts [quiet_intros]:
  "quiet (fault_start fuel sfx)" "quiet (reactor_cycle fuel session k)" "quiet (gateway_cycle fuel sfx k)"
  unfolding fault_start_def reactor_cycle_def gateway_cycle_def
  by (intro quiet_intros)+

interpretation faults: gate "fault_body fuel sfx" fault_finally fault_clients for fuel sfx
proof unfold_locales
  show "reports_last (fault_body fuel sfx)"
    unfolding fault_body_def fault_end_def by (intro report_intros quiet_intros)
  show "quiet fault_finally" by (rule quiet_finally)
  fix v tr r w
  assume p: "play fault_finally v tr = Some (r, w)" "r \<noteq> OutOfFuel"
  then have "\<exists>x. r = Returned x" using sureD [OF sure_finally] by blast
  then show ret: "r = Returned ()" by simp
  fix c
  assume "c \<in> set (fault_clients v)"
  then show "(Close c, ADone) \<in> set tr" using runs_finally p ret unfolding cleaned_up_def by blast
qed

text \<open>C34: Whatever becomes of the fault-recovery gate, it cleans up: its outcome is that of its body, the variables
  hold every process it has started, and after the body the active client was closed, each of those
  processes that had not exited was killed, and the files were removed.\<close>

theorem fault_gate_cleans_up:
  assumes "play (fault_gate fuel sfx) fault_start_vars tr = Some (r, w)" "r \<noteq> OutOfFuel"
  shows "\<exists>tr1 tr2 v1. tr = tr1 @ tr2 \<and> play (fault_body fuel sfx) fault_start_vars tr1 = Some (r, v1) \<and>
    fv_spawned v1 = spawned tr1 \<and> cleaned_up v1 tr2"
proof -
  obtain tr1 tr2 q v1 u where s: "tr = tr1 @ tr2" "play (fault_body fuel sfx) fault_start_vars tr1 = Some (q, v1)"
    "u \<noteq> OutOfFuel" "play fault_finally v1 tr2 = Some (u, w)" "r = (case u of Threw e \<Rightarrow> Threw e | _ \<Rightarrow> q)"
    using play_try_finally [OF assms(1) [unfolded fault_gate_def] assms(2)] by blast
  then have u: "u = Returned ()" using sureD [OF sure_finally] by fastforce
  then have "cleaned_up v1 tr2" using runs_finally s(4) by blast
  moreover have "fv_spawned v1 = spawned tr1"
    using alwaysD [OF recorded_body s(2)] by (simp add: recorded_def fault_start_vars_def)
  ultimately show ?thesis using s u by auto
qed

end
