(* ===== verification/Script_Environment.thy ===== *)
theory Script_Environment
  imports Script_Calls
begin

section \<open>Running a script against an environment\<close>

text \<open>
  An environment answers each question from a state of its own. \<open>simulate\<close> runs a script against it, and
  what it computes is the outcome of a run. The environments of the concrete runs are built by
  \<open>environment\<close>: its state holds the calls whose promises are open, the number of the next promise, the
  clock, which stands still except in timers, and a world; what a call gives, the logs, the exits and how
  the world changes are parameters.
\<close>

primrec simulate ::
  "('v, 'a) script \<Rightarrow> ('e \<Rightarrow> question \<Rightarrow> answer \<times> 'e) \<Rightarrow> 'v \<Rightarrow> 'e \<Rightarrow> 'a outcome \<times> 'v \<times> 'e" where
  "simulate (Done r) env v s = (r, v, s)"
| "simulate (Get k) env v s = simulate (k v) env v s"
| "simulate (Put w m) env v s = simulate m env w s"
| "simulate (Ask q k) env v s = simulate (k (fst (env s q))) env v (snd (env s q))"

lemma simulate_runs:
  assumes "\<And>s q. fits q (fst (env s q))" "simulate m env v s = (r, w, s')"
  shows "\<exists>tr. play m v tr = Some (r, w)"
  using assms(2)
proof (induction m arbitrary: v s)
  case (Ask q k)
  from Ask.prems have "simulate (k (fst (env s q))) env v (snd (env s q)) = (r, w, s')" by simp
  from Ask.IH [OF rangeI this] obtain tr where "play (k (fst (env s q))) v tr = Some (r, w)" by blast
  then show ?case using assms(1) by (intro exI [of _ "(q, fst (env s q)) # tr"]) simp
qed auto

fun all_results :: "(script_error + settled) list \<Rightarrow> script_error + settled list" where
  "all_results [] = Inr []"
| "all_results (Inl e # rs) = Inl e"
| "all_results (Inr x # rs) = (case all_results rs of Inl e \<Rightarrow> Inl e | Inr xs \<Rightarrow> Inr (x # xs))"

lemma all_results_length: "all_results rs = Inr xs \<Longrightarrow> length xs = length rs"
  by (induction rs arbitrary: xs rule: all_results.induct) (auto split: sum.splits)

type_synonym 's env_state = "(nat \<times> call) list \<times> nat \<times> nat \<times> 's"

fun call_of :: "(nat \<times> call) list \<Rightarrow> nat \<Rightarrow> call" where
  "call_of [] p = Fails p"
| "call_of ((q, c) # ps) p = (if q = p then c else call_of ps p)"

fun settle_calls :: "nat list \<Rightarrow> (nat \<times> call) list \<Rightarrow> (nat \<times> call) list" where
  "settle_calls ps [] = []"
| "settle_calls ps ((q, c) # cs) = (if q \<in> set ps then settle_calls ps cs else (q, c) # settle_calls ps cs)"

definition environment ::
  "('s \<Rightarrow> call \<Rightarrow> script_error + settled) \<Rightarrow> ('s \<Rightarrow> program \<Rightarrow> string) \<Rightarrow> ('s \<Rightarrow> nat \<Rightarrow> child_status) \<Rightarrow>
   ('s \<Rightarrow> question \<Rightarrow> 's) \<Rightarrow> 's env_state \<Rightarrow> question \<Rightarrow> answer \<times> 's env_state" where
  "environment reply logs exits change = (\<lambda>(ps, n, t, s) q. (case q of
      Start c \<Rightarrow> (APromise n, (n, c) # ps, n + 1, t, change s q)
    | Await p \<Rightarrow> (AResult (reply s (call_of ps p)), settle_calls [p] ps, n, t, s)
    | AwaitAll rs \<Rightarrow> (AResults (all_results (map (\<lambda>p. reply s (call_of ps p)) rs)), settle_calls rs ps, n, t, s)
    | AwaitRace rs \<Rightarrow> (AResult (case rs of [] \<Rightarrow> Inr (VJson JUndefined) | p # _ \<Rightarrow> reply s (call_of ps p)), ps, n, t, s)
    | Now \<Rightarrow> (ATime t, ps, n, t, s)
    | Sleep d \<Rightarrow> (ADone, ps, n, t + (d - 1), s)
    | Chunks p \<Rightarrow> (AChunks [(t, []), (t, [])], ps, n, t, s)
    | StreamID p \<Rightarrow> (AStream 0, ps, n, t, s)
    | Spawn g \<Rightarrow> (AChild n, ps, n + 1, t, change s q)
    | ChildStatus c \<Rightarrow> (AStatus (exits s c), ps, n, t, s)
    | AwaitExit c ms \<Rightarrow> (AResult (Inr (VJson JUndefined)), ps, n, t, s)
    | ReadLog g \<Rightarrow> (AText (logs s g), ps, n, t, s)
    | Remaining cs \<Rightarrow> (AChildren (filter (\<lambda>c. exitCode (exits s c) = None \<and> signalCode (exits s c) = None) cs), ps, n, t, s)
    | _ \<Rightarrow> (ADone, ps, n, t, change s q)))"

lemma environment_fits: "fits q (fst (environment reply logs exits change s q))"
  by (cases q; cases s) (auto simp: environment_def dest: all_results_length split: sum.split)

lemmas environment_runs = simulate_runs [OF environment_fits]

text \<open>Its clock obeys the law of the clock.\<close>

lemma environment_tick:
  assumes "environment reply logs exits change (ps, n, t, s) q = (a, (ps', n', t', s'))"
  shows "tick t (q, a) = t' \<and> t \<le> t'"
  using assms by (cases q) (auto simp: environment_def tick_def)

lemma environment_clock:
  assumes "simulate m (environment reply logs exits change) v (ps, n, t, s) = (r, w, x)"
  shows "\<exists>tr. play m v tr = Some (r, w) \<and> clock_ok t tr"
  using assms
proof (induction m arbitrary: v ps n t s)
  case (Ask q k)
  obtain a ps' n' t' s' where e: "environment reply logs exits change (ps, n, t, s) q = (a, (ps', n', t', s'))"
    by (metis prod.collapse)
  with Ask.prems have "simulate (k a) (environment reply logs exits change) v (ps', n', t', s') = (r, w, x)" by simp
  from Ask.IH [OF rangeI this] obtain tr where "play (k a) v tr = Some (r, w)" "clock_ok t' tr" by blast
  then show ?case
    using environment_tick [OF e] environment_fits [of q reply logs exits change "(ps, n, t, s)"] e
    by (intro exI [of _ "(q, a) # tr"]) simp
qed (auto intro: exI [of _ "[]"])

text \<open>Where there are no processes, and where there is no world.\<close>

fun no_change :: "unit \<Rightarrow> question \<Rightarrow> unit" where "no_change s q = ()"

definition no_logs :: "'s \<Rightarrow> program \<Rightarrow> string" where "no_logs s g = []"
definition no_exits :: "'s \<Rightarrow> nat \<Rightarrow> child_status" where
  "no_exits s c = \<lparr>exitCode = None, signalCode = None\<rparr>"

subsection \<open>Evaluation by rewriting\<close>

text \<open>A script is run from its head, and its rest is not looked at before it is reached.\<close>

named_theorems simulation \<open>rules that run a script against an environment\<close>

lemma simulate_on_outcome:
  "simulate (on_outcome m f) env v s = (case simulate m env v s of (r, v1, s1) \<Rightarrow> simulate (settle_do f r) env v1 s1)"
proof (induction m arbitrary: v s)
  case (Ask q k)
  show ?case using Ask [OF rangeI] by simp
qed auto

lemma simulate_then_do:
  "simulate (then_do m f) env v s = (case simulate m env v s of (r, v1, s1) \<Rightarrow>
     (case r of Returned x \<Rightarrow> simulate (f x) env v1 s1 | Threw e \<Rightarrow> (Threw e, v1, s1) | OutOfFuel \<Rightarrow> (OutOfFuel, v1, s1)))"
  unfolding then_do_def simulate_on_outcome by (auto split: prod.splits outcome.splits)

text \<open>What goes on after an outcome, and with a result, that was computed.\<close>

definition resume :: "'a outcome \<times> 'v \<times> 'e \<Rightarrow> ('a outcome \<Rightarrow> 'v \<Rightarrow> 'e \<Rightarrow> 'b) \<Rightarrow> 'b" where
  "resume x k = (case x of (r, v, s) \<Rightarrow> k r v s)"

lemma resume_simp [simulation]: "resume (r, v, s) k = k r v s"
  by (simp add: resume_def)

lemma simulate_catch [simulation]:
  "simulate (catch m g) env v s = resume (simulate m env v s) (\<lambda>r v1 s1.
     case r of Threw e \<Rightarrow> simulate (g e) env v1 s1 | _ \<Rightarrow> (r, v1, s1))"
  unfolding catch_def simulate_on_outcome resume_def by (auto split: prod.splits outcome.splits)

lemma simulate_try_finally [simulation]:
  "simulate (try_finally m f) env v s = resume (simulate m env v s) (\<lambda>r v1 s1.
     case r of OutOfFuel \<Rightarrow> (OutOfFuel, v1, s1)
     | _ \<Rightarrow> resume (simulate f env v1 s1) (\<lambda>u v2 s2. (case u of Returned x \<Rightarrow> r | Threw e \<Rightarrow> Threw e | OutOfFuel \<Rightarrow> OutOfFuel, v2, s2)))"
  unfolding try_finally_def simulate_on_outcome resume_def
  by (auto simp: simulate_then_do split: prod.splits outcome.splits)

definition give :: "script_error + 'b \<Rightarrow> ('b \<Rightarrow> 'a outcome \<times> 'v \<times> 'e) \<Rightarrow> 'v \<Rightarrow> 'e \<Rightarrow> 'a outcome \<times> 'v \<times> 'e" where
  "give r k v s = (case r of Inl e \<Rightarrow> (Threw e, v, s) | Inr x \<Rightarrow> k x)"

lemma give_simps [simulation]: "give (Inl e) k v s = (Threw e, v, s)" "give (Inr x) k v s = k x"
  by (simp_all add: give_def)

lemma simulate_steps [simulation]:
  "simulate (then_do (start c) f) (environment reply logs exits change) v (ps, n, t, s) =
     simulate (f n) (environment reply logs exits change) v ((n, c) # ps, n + 1, t, change s (Start c))"
  "simulate (then_do (await p) fa) (environment reply logs exits change) v (ps, n, t, s) =
     give (reply s (call_of ps p)) (\<lambda>x. simulate (fa x) (environment reply logs exits change) v (settle_calls [p] ps, n, t, s))
       v (settle_calls [p] ps, n, t, s)"
  "simulate (then_do (await_all rs) fb) (environment reply logs exits change) v (ps, n, t, s) =
     give (all_results (map (\<lambda>p. reply s (call_of ps p)) rs))
       (\<lambda>xs. simulate (fb xs) (environment reply logs exits change) v (settle_calls rs ps, n, t, s)) v (settle_calls rs ps, n, t, s)"
  "simulate (then_do (await_race (p # rs)) fa) (environment reply logs exits change) v (ps, n, t, s) =
     give (reply s (call_of ps p)) (\<lambda>x. simulate (fa x) (environment reply logs exits change) v (ps, n, t, s)) v (ps, n, t, s)"
  "simulate (then_do now f) (environment reply logs exits change) v (ps, n, t, s) =
     simulate (f t) (environment reply logs exits change) v (ps, n, t, s)"
  "simulate (then_do (read_log g) fc) (environment reply logs exits change) v (ps, n, t, s) =
     simulate (fc (logs s g)) (environment reply logs exits change) v (ps, n, t, s)"
  "simulate (then_do (child_status k) fd) (environment reply logs exits change) v (ps, n, t, s) =
     simulate (fd (exits s k)) (environment reply logs exits change) v (ps, n, t, s)"
  "simulate (then_do (spawn g) f) (environment reply logs exits change) v (ps, n, t, s) =
     simulate (f n) (environment reply logs exits change) v (ps, n + 1, t, change s (Spawn g))"
  "simulate (then_do (await_exit k ms) fa) (environment reply logs exits change) v (ps, n, t, s) =
     simulate (fa (VJson JUndefined)) (environment reply logs exits change) v (ps, n, t, s)"
  "simulate (then_do (remaining cs) fe) (environment reply logs exits change) v (ps, n, t, s) =
     simulate (fe (filter (\<lambda>c. exitCode (exits s c) = None \<and> signalCode (exits s c) = None) cs)) (environment reply logs exits change) v (ps, n, t, s)"
  "simulate (then_do (stream_number p) f) (environment reply logs exits change) v (ps, n, t, s) =
     simulate (f 0) (environment reply logs exits change) v (ps, n, t, s)"
  "simulate (then_do (chunks_of p) fg) (environment reply logs exits change) v (ps, n, t, s) =
     simulate (fg [(t, []), (t, [])]) (environment reply logs exits change) v (ps, n, t, s)"
  by (auto simp: primitives environment_def simulate_then_do give_def split: sum.split)

lemma simulate_actions [simulation]:
  "simulate (then_do (do_it (Sleep d)) f) (environment reply logs exits change) v (ps, n, t, s) =
     simulate (f ()) (environment reply logs exits change) v (ps, n, t + (d - 1), s)"
  "simulate (then_do (do_it (Print j)) f) (environment reply logs exits change) v (ps, n, t, s) =
     simulate (f ()) (environment reply logs exits change) v (ps, n, t, change s (Print j))"
  "simulate (then_do (do_it (Close c)) f) (environment reply logs exits change) v (ps, n, t, s) =
     simulate (f ()) (environment reply logs exits change) v (ps, n, t, change s (Close c))"
  "simulate (then_do (do_it (Kill c sig)) f) (environment reply logs exits change) v (ps, n, t, s) =
     simulate (f ()) (environment reply logs exits change) v (ps, n, t, change s (Kill c sig))"
  "simulate (then_do (do_it (StreamSend c p bs fin)) f) (environment reply logs exits change) v (ps, n, t, s) =
     simulate (f ()) (environment reply logs exits change) v (ps, n, t, change s (StreamSend c p bs fin))"
  "simulate (then_do (do_it (StreamReset c p k)) f) (environment reply logs exits change) v (ps, n, t, s) =
     simulate (f ()) (environment reply logs exits change) v (ps, n, t, change s (StreamReset c p k))"
  "simulate (then_do (do_it (StreamStop c p k)) f) (environment reply logs exits change) v (ps, n, t, s) =
     simulate (f ()) (environment reply logs exits change) v (ps, n, t, change s (StreamStop c p k))"
  "simulate (then_do (do_it (SendRecord c sid bs fin)) f) (environment reply logs exits change) v (ps, n, t, s) =
     simulate (f ()) (environment reply logs exits change) v (ps, n, t, change s (SendRecord c sid bs fin))"
  "simulate (then_do (do_it (SendRaw c bs)) f) (environment reply logs exits change) v (ps, n, t, s) =
     simulate (f ()) (environment reply logs exits change) v (ps, n, t, change s (SendRaw c bs))"
  "simulate (then_do (do_it RemoveFiles) f) (environment reply logs exits change) v (ps, n, t, s) =
     simulate (f ()) (environment reply logs exits change) v (ps, n, t, change s RemoveFiles)"
  "simulate (then_do (do_it (Pause c)) f) (environment reply logs exits change) v (ps, n, t, s) =
     simulate (f ()) (environment reply logs exits change) v (ps, n, t, change s (Pause c))"
  "simulate (then_do (do_it (Resume c)) f) (environment reply logs exits change) v (ps, n, t, s) =
     simulate (f ()) (environment reply logs exits change) v (ps, n, t, change s (Resume c))"
  by (simp_all add: do_it_def environment_def)

lemma simulate_guards [simulation]:
  "simulate (then_do (value_of y) f) env v s =
     (case y of None \<Rightarrow> (Threw TypeErr, v, s) | Some x \<Rightarrow> simulate (f x) env v s)"
  "simulate (then_do (throw_if b e) g) env v s =
     (case b of None \<Rightarrow> (Threw TypeErr, v, s) | Some x \<Rightarrow> if x then (Threw e, v, s) else simulate (g ()) env v s)"
  by (auto simp: value_of_def throw_if_def split: option.split)

text \<open>Whatever ends a script is followed by nothing.\<close>

lemma then_nothing: "then_do m return = m"
proof (induction m)
  case (Done r)
  then show ?case by (cases r) simp_all
qed simp_all

lemma simulate_ends [simulation]:
  "simulate (start c) env v s = simulate (then_do (start c) return) env v s"
  "simulate (await p) env v s = simulate (then_do (await p) return) env v s"
  "simulate (do_it q) env v s = simulate (then_do (do_it q) return) env v s"
  "simulate (value_of y) env v s = simulate (then_do (value_of y) return) env v s"
  "simulate (throw_if b e) env v s = simulate (then_do (throw_if b e) return) env v s"
  "simulate (poll (numeral n) deadline round expired st) env v s = simulate (then_do (poll (numeral n) deadline round expired st) return) env v s"
  by (simp_all only: then_nothing)

lemma simulate_catch_step [simulation]:
  "simulate (then_do (catch m g) f) env v s = resume (simulate m env v s) (\<lambda>r v1 s1.
     case r of Returned x \<Rightarrow> simulate (f x) env v1 s1 | Threw e \<Rightarrow> simulate (then_do (g e) f) env v1 s1
     | OutOfFuel \<Rightarrow> (OutOfFuel, v1, s1))"
  by (auto simp: simulate_then_do simulate_catch resume_def split: prod.splits outcome.splits)

lemma simulate_each [simulation]:
  "simulate (each f []) env v s = (Returned (), v, s)"
  "simulate (each f (x # xs)) env v s = simulate (then_do (f x) (\<lambda>u. each f xs)) env v s"
  "simulate (then_do (each f []) g) env v s = simulate (g ()) env v s"
  "simulate (then_do (each f (x # xs)) g) env v s = simulate (then_do (f x) (\<lambda>u. then_do (each f xs) g)) env v s"
  "simulate (then_do (each_value f' []) g') env v s = simulate (g' []) env v s"
  "simulate (then_do (each_value f' (x # xs)) g') env v s =
     simulate (then_do (f' x) (\<lambda>y. then_do (each_value f' xs) (\<lambda>ys. g' (y # ys)))) env v s"
  by (simp_all add: then_do_assoc)

lemma simulate_let [simulation]:
  "simulate (Let a f) env v s = simulate (f a) env v s"
  "simulate (then_do (Let a f) g) env v s = simulate (then_do (f a) g) env v s"
  by (simp_all add: Let_def)

lemma simulate_poll [simulation]:
  "simulate (then_do (poll (numeral n) deadline round expired st) f) env v s =
     simulate (then_do now (\<lambda>t. if t < deadline
      then then_do (round st) (\<lambda>r. case r of Inr x \<Rightarrow> f x | Inl st' \<Rightarrow> then_do (poll (pred_numeral n) deadline round expired st') f)
      else then_do (expired st) f)) env v s"
proof -
  have "then_do (poll (numeral n) deadline round expired st) f = then_do now (\<lambda>t. if t < deadline
      then then_do (round st) (\<lambda>r. case r of Inr x \<Rightarrow> f x | Inl st' \<Rightarrow> then_do (poll (pred_numeral n) deadline round expired st') f)
      else then_do (expired st) f)"
    by (auto simp: numeral_eq_Suc then_do_assoc intro!: arg_cong [where f = "then_do _"] ext split: sum.split)
  then show ?thesis by simp
qed

lemmas simulate_calls [simulation] = request_def close_all_def field_def chain_def authenticate_def start_command_def
  command_def group_of_def close_and_wait_def dest_text_def poll_for_def then_do_assoc

lemmas simulate_values [simulation] = js_or_def falsy_def differ_def same_def js_and_def js_path.simps js_toString_def

text \<open>The rest of a script is not rewritten.\<close>

lemma script_congs:
  "m = m' \<Longrightarrow> then_do m f = then_do m' f"
  "m = m' \<Longrightarrow> catch m g = catch m' g"
  "m = m' \<Longrightarrow> try_finally m fin = try_finally m' fin"
  "r = r' \<Longrightarrow> give r k' v s = give r' k' v s"
  "x = x' \<Longrightarrow> resume x k = resume x' k"
  "xs = xs' \<Longrightarrow> each e xs = each e xs'"
  "xs = xs' \<Longrightarrow> each_value d xs = each_value d xs'"
  "Get k'' = Get k''"
  "Put w p = Put w p"
  by simp_all

lemma show_nat_short: "length (show_nat n) \<le> Suc n"
proof (induction n rule: show_nat.induct)
  case (1 n)
  then show ?case by (cases "n < 10") (auto simp: show_nat.simps [of n])
qed

end
