(* ===== verification/Gate_Runs.thy ===== *)
theory Gate_Runs
  imports Script_Environment Gate_Presence Gate_Reconnect Gate_Mixed Gate_Small Gate_Faults
begin

section \<open>Concrete runs of the gates\<close>

text \<open>
  Small environments in which gates succeed, and one in which a gate fails: they show that what is proved
  of the runs of a gate is about runs there are. Each is a table of replies over a world: how many
  sessions are online, the messages that were stored, or the processes with their logs.
\<close>

definition demo_login :: jsval where
  "demo_login = JObj [(''token'', JStr ''t''), (''destID'', JNum 5), (''ttl'', JNum 60)]"

definition demo_made :: "(string \<times> jsval) list" where
  "demo_made = [(''ok'', JBool True), (''group'', JObj [(''id'', JNum 7), (''invite_code'', JStr ''c'')])]"

subsection \<open>Presence\<close>

fun presence_reply :: "string \<Rightarrow> nat \<Rightarrow> call \<Rightarrow> script_error + settled" where
  "presence_reply sfx n (Client k (Authenticate u p a)) = Inr (VJson demo_login)"
| "presence_reply sfx n (Client k (Command tok body)) = Inr (VJson (
     if body = presence_request (JNum 7)
     then JObj [(''presence'', JArr [JObj [(''user'', JObj [(''username'', JStr (member_name sfx))]),
       (''online_sessions'', JNum (int n)), (''online'', JBool (0 < n))]])]
     else JObj demo_made))"
| "presence_reply sfx n c = Inr (VJson JUndefined)"

fun presence_change :: "nat \<Rightarrow> question \<Rightarrow> nat" where
  "presence_change n (Close c) = n - 1"
| "presence_change n q = n"

lemma presence_run:
  "\<exists>tr w. runs (presence_gate sessions_fuel ''x'') () tr () w"
proof -
  let ?env = "environment (presence_reply ''x'') no_logs no_exits presence_change"
  have "fst (simulate (presence_gate sessions_fuel ''x'') ?env () ([], 0, 0, 2)) = Returned ()"
    unfolding presence_gate_def presence_body_def presence_setup_def presence_checks_def waitForSessions_def sessions_fuel_def
    by (simp add: simulation sessions_round_def demo_login_def demo_made_def presence_request_def converged_def
        findPresence_def member_name_def cong: script_congs)
  then obtain w s where "simulate (presence_gate sessions_fuel ''x'') ?env () ([], 0, 0, 2) = (Returned (), w, s)"
    by (metis prod.collapse)
  from environment_runs [OF this] show ?thesis by blast
qed

theorem presence_gate_sound_witness:
  "\<exists>tr w grp gid tok t. runs (presence_gate sessions_fuel ''x'') () tr () w \<and>
     created_group t 0 ''WSS presence x'' grp \<and> shown t ''wp_member_x'' 2 tok gid 2"
proof -
  obtain tr w where r: "runs (presence_gate sessions_fuel ''x'') () tr () w" using presence_run by blast
  from presence_gate_sound [OF r] show ?thesis
    using r by (auto simp: presence_group_def member_name_def)
qed

subsection \<open>Messages\<close>

text \<open>The id of a message is its text. A Raw user may not read the history.\<close>

definition stored_message :: "(string \<times> jsval) list \<Rightarrow> jsval" where
  "stored_message body = (let t = the (map_of body ''text'') in
     JObj [(''id'', t), (''text'', t)])"

definition command_result :: "jsval list \<Rightarrow> (string \<times> jsval) list \<Rightarrow> jsval" where
  "command_result stored body =
    (if map_of body ''type'' = Some (JStr ''send_message'')
     then JObj ((''message'', stored_message body) # demo_made)
     else JObj ((''messages'', JArr stored) # demo_made))"

definition pushed_event :: "string \<Rightarrow> jsval" where
  "pushed_event s = JObj [(''payload'', JObj [(''type'', JStr ''message''),
     (''message'', JObj [(''id'', JStr s), (''text'', JStr s)])])]"

fun message_reply :: "jsval list \<Rightarrow> call \<Rightarrow> script_error + settled" where
  "message_reply stored (Client k (Authenticate u p a)) = Inr (VJson demo_login)"
| "message_reply stored (Client k (Command tok body)) = Inr (VJson (command_result stored body))"
| "message_reply stored (Client k (WaitForPush s)) = Inr (VJson (pushed_event s))"
| "message_reply stored (RawPush sid s) = Inr (VJson (pushed_event s))"
| "message_reply stored (Fails p) = Inr (VJson (JBool True))"
| "message_reply stored (Agent path (Some (JObj body))) = Inr (VJson (
     if path = auth_path then JObj [(''session_id'', JStr ''s''), (''dest_id'', JNum 9)]
     else if map_of body ''type'' = Some (JStr ''history'') then JObj [(''ok'', JBool False)]
     else command_result stored body))"
| "message_reply stored c = Inr (VJson JUndefined)"

definition store :: "jsval list \<Rightarrow> (string \<times> jsval) list \<Rightarrow> jsval list" where
  "store stored body = (if map_of body ''type'' = Some (JStr ''send_message'') then stored_message body # stored else stored)"

fun message_change :: "jsval list \<Rightarrow> question \<Rightarrow> jsval list" where
  "message_change stored (Start (Client k (Command tok body))) = store stored body"
| "message_change stored (Start (Agent path (Some (JObj body)))) = store stored body"
| "message_change stored q = stored"

lemmas message_sim = simulation demo_login_def demo_made_def command_result_def store_def stored_message_def
  pushed_event_def send_request_def history_request_def reply_id_def push_id_def Let_def

lemma mixed_run: "\<exists>tr w. runs (mixed_gate ''x'') mixed_start tr () w"
proof -
  let ?env = "environment message_reply no_logs no_exits message_change"
  have "fst (simulate (mixed_gate ''x'') ?env mixed_start ([], 0, 0, [])) = Returned ()"
    unfolding mixed_gate_def mixed_body_def mixed_setup_def mixed_join_def mixed_from_wss_def mixed_from_raw_def
      mixed_history_def mixed_finally_def mixed_start_def
    by (simp add: message_sim start_raw_def raw_body_def join_request_def raw_register_def disagree_def ids_of_def lacks_def message_id_def
        textA_def textB_def textRaw_def command_path_def auth_path_def logout_path_def cong: script_congs)
  then obtain w s where "simulate (mixed_gate ''x'') ?env mixed_start ([], 0, 0, []) = (Returned (), w, s)"
    by (metis prod.collapse)
  from environment_runs [OF this] show ?thesis by blast
qed

theorem mixed_gate_sound_witness:
  "\<exists>tr w gid a t. runs (mixed_gate ''x'') mixed_start tr () w \<and>
     sent_message t 0 gid ''WSS-A-to-all-x'' a \<and> pushed t 1 ''WSS-A-to-all-x'' a"
proof -
  obtain tr w where r: "runs (mixed_gate ''x'') mixed_start tr () w" using mixed_run by blast
  from mixed_gate_sound [OF r] show ?thesis using r by (auto simp: textA_def)
qed

lemma reconnect_run: "\<exists>tr w. runs (reconnect_gate ''x'') \<lparr>recovered = False\<rparr> tr () w"
proof -
  let ?env = "environment message_reply no_logs no_exits message_change"
  have "fst (simulate (reconnect_gate ''x'') ?env \<lparr>recovered = False\<rparr> ([], 0, 0, [])) = Returned ()"
    unfolding reconnect_gate_def reconnect_body_def reconnect_setup_def reconnect_missed_def reconnect_history_def
      reconnect_live_def reconnect_finally_def
    by (simp add: message_sim missed_text_def live_text_def cong: script_congs)
  then obtain w s where "simulate (reconnect_gate ''x'') ?env \<lparr>recovered = False\<rparr> ([], 0, 0, []) = (Returned (), w, s)"
    by (metis prod.collapse)
  from environment_runs [OF this] show ?thesis by blast
qed

theorem reconnect_gate_sound_witness:
  "\<exists>tr w gid mid t. runs (reconnect_gate ''x'') \<lparr>recovered = False\<rparr> tr () w \<and>
     in_history t 2 gid ''persisted-while-offline-x'' mid"
proof -
  obtain tr w where r: "runs (reconnect_gate ''x'') \<lparr>recovered = False\<rparr> tr () w" using reconnect_run by blast
  from reconnect_gate_sound [OF r] show ?thesis using r by (auto simp: missed_text_def)
qed

subsection \<open>Faults\<close>

text \<open>The world: the processes that were killed, the two logs, whether a Reactor is up, whether logins work.\<close>

type_synonym fault_world = "nat list \<times> string \<times> string \<times> bool \<times> bool"

definition token_line :: "nat \<Rightarrow> string" where
  "token_line k = token_prefix ''5'' @ (if k = 0 then ''a'' else if k = 1 then ''b'' else ''c'')"

fun fault_reply :: "fault_world \<Rightarrow> call \<Rightarrow> script_error + settled" where
  "fault_reply (dead, rlog, glog, up, ok) (Client k (Authenticate u p a)) =
     (if ok then Inr (VJson demo_login) else Inl (Err ''authentication rejected''))"
| "fault_reply (dead, rlog, glog, up, ok) (Client k (Command tok body)) =
     (if up then Inr (VJson (JObj [])) else Inl (Err ''timeout''))"
| "fault_reply w c = Inr (VJson JUndefined)"

fun fault_change :: "fault_world \<Rightarrow> question \<Rightarrow> fault_world" where
  "fault_change (dead, rlog, glog, up, ok) (Start (Client k (Authenticate u p a))) = (dead, rlog @ token_line k, glog, up, ok)"
| "fault_change (dead, rlog, glog, up, ok) (Spawn Reactor) = (dead, rlog @ quic_listening, glog, True, ok)"
| "fault_change (dead, rlog, glog, up, ok) (Spawn Gateway) = (dead, rlog, glog @ transport_ready @ listener_started, up, ok)"
| "fault_change (dead, rlog, glog, up, ok) (Kill c sig) = (c # dead, rlog, glog, up \<and> sig = ''SIGKILL'', ok)"
| "fault_change w q = w"

fun fault_logs :: "fault_world \<Rightarrow> program \<Rightarrow> string" where
  "fault_logs (dead, rlog, glog, up, ok) Reactor = rlog"
| "fault_logs (dead, rlog, glog, up, ok) Gateway = glog"

fun fault_exits :: "fault_world \<Rightarrow> nat \<Rightarrow> child_status" where
  "fault_exits (dead, rlog, glog, up, ok) c = \<lparr>exitCode = (if c \<in> set dead then Some 0 else None), signalCode = None\<rparr>"

lemma index_of_other: "x \<noteq> p \<Longrightarrow> index_of (p # ps) (x # xs) = map_option Suc (index_of (p # ps) xs)"
  by simp

lemma tokens_skip: "x \<noteq> p \<Longrightarrow> tokens_in (p # ps) (x # xs) = tokens_in (p # ps) xs"
  by (simp add: tokens_in.simps(2))

lemma show_five: "show_int 5 = ''5''"
  by code_simp

lemmas fault_sim = simulation demo_login_def fault_start_vars_def faults_fuel_def waitForMarker_def marker_round_def
  log_from_def startReactor_def startGateway_def capture_child_def quic_listening_def transport_ready_def
  listener_started_def new_client_def list_groups_def retry_def retry_round_def tokens_visible_def onlineTokens_def
  token_prefix_def tokens_skip tokens_in.simps(2) token_line_def hex_char_def lower_hex_def set_size_def
  reactor_cycle_def gateway_cycle_def fault_end_def fault_finally_def stop_def waitForExit_def exited_def
  failed_request_def close_active_def kill_remaining_def index_of_other show_five Let_def

lemma fault_run: "\<exists>tr w. runs (fault_gate faults_fuel ''x'') fault_start_vars tr () w"
proof -
  let ?env = "environment fault_reply fault_logs fault_exits fault_change"
  have "fst (simulate (fault_gate faults_fuel ''x'') ?env fault_start_vars ([], 0, 0, ([], [], [], False, True))) = Returned ()"
    unfolding fault_gate_def fault_body_def fault_start_def reactor_numbers_def gateway_numbers_def
    by (simp add: fault_sim cong: script_congs)
  then obtain w s where "simulate (fault_gate faults_fuel ''x'') ?env fault_start_vars ([], 0, 0, ([], [], [], False, True))
      = (Returned (), w, s)"
    by (metis prod.collapse)
  from environment_runs [OF this] show ?thesis by blast
qed

theorem fault_gate_sound_witness:
  "\<exists>tr w log dest. runs (fault_gate faults_fuel ''x'') fault_start_vars tr () w \<and>
     (ReadLog Reactor, AText log) \<in> set tr \<and> 3 \<le> card (set (onlineTokens log dest))"
proof -
  obtain tr w where r: "runs (fault_gate faults_fuel ''x'') fault_start_vars tr () w" using fault_run by blast
  have "\<exists>log dest. (ReadLog Reactor, AText log) \<in> set tr \<and> 3 \<le> card (set (onlineTokens log dest))"
    using fault_gate_sound [OF r] by (elim exE conjE) (intro exI conjI, simp_all)
  then show ?thesis using r by blast
qed

text \<open>A run in which the login fails, with two processes up.\<close>

lemma failing_run:
  "\<exists>tr w. play (fault_gate faults_fuel ''x'') fault_start_vars tr = Some (Threw (Err ''authentication rejected''), w)"
proof -
  let ?env = "environment fault_reply fault_logs fault_exits fault_change"
  have "fst (simulate (fault_gate faults_fuel ''x'') ?env fault_start_vars ([], 0, 0, ([], [], [], False, False)))
      = Threw (Err ''authentication rejected'')"
    unfolding fault_gate_def fault_body_def fault_start_def
    by (simp add: fault_sim cong: script_congs)
  then obtain w s where "simulate (fault_gate faults_fuel ''x'') ?env fault_start_vars ([], 0, 0, ([], [], [], False, False))
      = (Threw (Err ''authentication rejected''), w, s)"
    by (metis prod.collapse)
  from environment_runs [OF this] show ?thesis by blast
qed

theorem fault_gate_cleans_up_witness:
  "\<exists>tr w. play (fault_gate faults_fuel ''x'') fault_start_vars tr = Some (Threw (Err ''authentication rejected''), w) \<and>
     (RemoveFiles, ADone) \<in> set tr"
proof -
  obtain tr w where p: "play (fault_gate faults_fuel ''x'') fault_start_vars tr = Some (Threw (Err ''authentication rejected''), w)"
    using failing_run by blast
  from fault_gate_cleans_up [OF p] obtain tr1 tr2 v1 where "tr = tr1 @ tr2" "cleaned_up v1 tr2" by blast
  then show ?thesis using p by (auto simp: cleaned_up_def)
qed

end
