(* ===== verification/Script_Rejections.thy ===== *)
theory Script_Rejections
  imports Script_Calls
begin

section \<open>Promises that nobody waits for\<close>

text \<open>
  A promise that rejects while no handler is attached to it is an unhandled rejection: Node then ends the process
  at once, without the \<open>finally\<close> of the script. A run in the sense of \<open>play\<close> is one in which this does
  not happen. Whether it can happen is seen from a run: a script that has started a call, has not attached a
  handler to its promise yet and waits for something else gives the promise the time to reject. A run is
  attended if there is no such moment in it; a script all of whose runs are attended cannot be cut off by a
  rejection. \<open>await\<close>, \<open>Promise.all\<close>, \<open>Promise.race\<close> and \<open>then\<close> with two callbacks attach handlers.
\<close>

fun may_reject :: "call \<Rightarrow> bool" where
  "may_reject (Fails p) = False"
| "may_reject (Outcome p) = False"
| "may_reject (ChunkSeen p n) = False"
| "may_reject _ = True"

fun attaches :: "question \<Rightarrow> nat list" where
  "attaches (Await p) = [p]"
| "attaches (AwaitAll ps) = ps"
| "attaches (AwaitRace ps) = ps"
| "attaches (Start (Fails p)) = [p]"
| "attaches (Start (Outcome p)) = [p]"
| "attaches _ = []"

fun waiting :: "question \<Rightarrow> bool" where
  "waiting (Await p) = True"
| "waiting (AwaitAll ps) = True"
| "waiting (AwaitRace ps) = True"
| "waiting (AwaitExit g ms) = True"
| "waiting (Sleep d) = True"
| "waiting _ = False"

fun promised :: "observed \<Rightarrow> nat list" where
  "promised (Start c, APromise p) = (if may_reject c then [p] else [])"
| "promised _ = []"

text \<open>The promises without a handler after a question, and after a run.\<close>

definition watch :: "nat list \<Rightarrow> observed \<Rightarrow> nat list" where
  "watch os x = promised x @ filter (\<lambda>p. p \<notin> set (attaches (fst x))) os"

primrec left_open :: "nat list \<Rightarrow> observed list \<Rightarrow> nat list" where
  "left_open os [] = os"
| "left_open os (x # tr) = left_open (watch os x) tr"

primrec attended :: "nat list \<Rightarrow> observed list \<Rightarrow> bool" where
  "attended os [] = True"
| "attended os (x # tr) = ((waiting (fst x) \<longrightarrow> watch os x = []) \<and> attended (watch os x) tr)"

lemma attended_append [simp]:
  "attended os (tr @ tr') \<longleftrightarrow> attended os tr \<and> attended (left_open os tr) tr'"
  "left_open os (tr @ tr') = left_open (left_open os tr) tr'"
  by (induction tr arbitrary: os) auto

definition never_cut_off :: "('v, 'a) script \<Rightarrow> bool" where
  "never_cut_off m \<longleftrightarrow> (\<forall>v tr r w. play m v tr = Some (r, w) \<longrightarrow> attended [] tr)"

text \<open>
  From promises \<open>os\<close> without a handler on, all runs of \<open>m\<close> are attended, and those that return \<open>x\<close> leave the
  promises \<open>post x\<close> without one.
\<close>

definition heeds :: "nat list \<Rightarrow> ('v, 'a) script \<Rightarrow> ('a \<Rightarrow> nat list) \<Rightarrow> bool" where
  "heeds os m post \<longleftrightarrow> (\<forall>v tr r w. play m v tr = Some (r, w) \<longrightarrow>
     attended os tr \<and> (\<forall>x. r = Returned x \<longrightarrow> left_open os tr = post x))"

named_theorems heeds_intros \<open>scripts that leave no promise unattended\<close>

lemma heedsI:
  "(\<And>v tr r w. play m v tr = Some (r, w) \<Longrightarrow> attended os tr) \<Longrightarrow>
   (\<And>v tr x w. runs m v tr x w \<Longrightarrow> left_open os tr = post x) \<Longrightarrow> heeds os m post"
  unfolding heeds_def by blast

lemma heedsD:
  "heeds os m post \<Longrightarrow> play m v tr = Some (r, w) \<Longrightarrow> attended os tr"
  "heeds os m post \<Longrightarrow> runs m v tr x w \<Longrightarrow> left_open os tr = post x"
  unfolding heeds_def by blast+

lemma never_cut_off_heeds: "heeds [] m post \<Longrightarrow> never_cut_off m"
  by (auto simp: never_cut_off_def heeds_def)

lemma heeds_then_do:
  assumes m: "heeds os m mid" and f: "\<And>x. heeds (mid x) (f x) post"
  shows "heeds os (then_do m f) post"
proof (rule heedsI)
  fix v tr r w
  assume "play (then_do m f) v tr = Some (r, w)"
  then consider tr1 tr2 x v1 where "tr = tr1 @ tr2" "runs m v tr1 x v1" "play (f x) v1 tr2 = Some (r, w)"
    | r' where "play m v tr = Some (r', w)" unfolding play_then_do by blast
  then show "attended os tr"
    using heedsD(1) [OF m] heedsD(2) [OF m] heedsD(1) [OF f] by cases auto
next
  fix v tr y w
  assume "runs (then_do m f) v tr y w"
  then obtain tr1 tr2 x v1 where "tr = tr1 @ tr2" "runs m v tr1 x v1" "runs (f x) v1 tr2 y w"
    unfolding runs_then_do by blast
  then show "left_open os tr = post y" using heedsD(2) [OF m] heedsD(2) [OF f] by simp
qed

lemma heeds_done [heeds_intros]:
  "post x = os \<Longrightarrow> heeds os (return x) post" "heeds os (throw e) post"
  by (rule heedsI; simp split: if_splits)+

lemma heeds_ask:
  assumes "\<And>a. fits q a \<Longrightarrow> (waiting q \<longrightarrow> watch os (q, a) = []) \<and> heeds (watch os (q, a)) (k a) post"
  shows "heeds os (Ask q k) post"
proof (rule heedsI)
  fix v tr r w
  assume "play (Ask q k) v tr = Some (r, w)"
  then obtain a tr' where "tr = (q, a) # tr'" "fits q a" "play (k a) v tr' = Some (r, w)"
    by (cases tr) (auto split: if_splits)
  then show "attended os tr" using assms heedsD(1) by fastforce
next
  fix v tr x w
  assume "runs (Ask q k) v tr x w"
  then obtain a tr' where "tr = (q, a) # tr'" "fits q a" "runs (k a) v tr' x w"
    by (cases tr) (auto split: if_splits)
  then show "left_open os tr = post x" using assms heedsD(2) by fastforce
qed

lemma heeds_get [heeds_intros]: "(\<And>v. heeds os (k v) post) \<Longrightarrow> heeds os (Get k) post"
  unfolding heeds_def by simp

lemma heeds_put [heeds_intros]: "heeds os m post \<Longrightarrow> heeds os (Put x m) post"
  unfolding heeds_def by simp

lemma heeds_settled: "(\<And>x. post x = os) \<Longrightarrow> heeds os (settled_script r) post"
  by (cases r) (auto intro: heeds_intros)

lemma heeds_start [heeds_intros]:
  "may_reject c \<Longrightarrow> heeds os (start c) (\<lambda>p. p # os)"
  unfolding start_def
proof (rule heeds_ask)
  fix a
  assume c: "may_reject c" "fits (Start c) a"
  then obtain p where a: "a = APromise p" by auto
  have "attaches (Start c) = []" using c(1) by (cases c) auto
  then have "watch os (Start c, a) = p # os" using a c(1) by (simp add: watch_def)
  then show "(waiting (Start c) \<longrightarrow> watch os (Start c, a) = []) \<and>
      heeds (watch os (Start c, a)) (case a of APromise p \<Rightarrow> return p | _ \<Rightarrow> Done OutOfFuel) (\<lambda>p. p # os)"
    using a by (auto intro: heeds_intros)
qed

lemma watch_attached: "set os \<subseteq> set (attaches q) \<Longrightarrow> (\<And>c. q \<noteq> Start c) \<Longrightarrow> watch os (q, a) = []"
  by (cases q) (auto simp: watch_def filter_empty_conv)

lemma heeds_await [heeds_intros]: "set os \<subseteq> {p} \<Longrightarrow> heeds os (await p) (\<lambda>r. [])"
  unfolding await_def one_result_def
  by (rule heeds_ask) (auto simp: watch_attached intro: heeds_settled)

lemma heeds_await_all [heeds_intros]: "set os \<subseteq> set ps \<Longrightarrow> heeds os (await_all ps) (\<lambda>r. [])"
  unfolding await_all_def
  by (rule heeds_ask) (auto simp: watch_attached intro: heeds_settled)

lemma heeds_await_exit [heeds_intros]: "heeds [] (await_exit g ms) (\<lambda>r. [])"
  unfolding await_exit_def one_result_def
  by (rule heeds_ask) (auto simp: watch_attached intro: heeds_settled)

lemma heeds_now [heeds_intros]:
  "heeds os now (\<lambda>t. os)" "heeds os (stream_number p) (\<lambda>n. os)" "heeds os (chunks_of p) (\<lambda>n. os)"
  "heeds os (child_status g) (\<lambda>n. os)" "heeds os (read_log h) (\<lambda>n. os)"
  unfolding primitives by (rule heeds_ask; auto simp: watch_def intro: heeds_intros)+

lemma heeds_do_it [heeds_intros]:
  "heeds [] (do_it (Sleep d)) (\<lambda>u. [])" "heeds os (do_it (Print j)) (\<lambda>u. os)"
  "heeds os (do_it (Complain msg k)) (\<lambda>u. os)" "heeds os (do_it (Close c)) (\<lambda>u. os)"
  "heeds os (do_it (Pause c)) (\<lambda>u. os)" "heeds os (do_it (Resume c)) (\<lambda>u. os)"
  "heeds os (do_it (SendRecord c sid bs fin)) (\<lambda>u. os)" "heeds os (do_it (SendRaw c bs)) (\<lambda>u. os)"
  unfolding primitives by (rule heeds_ask; auto simp: watch_def intro: heeds_intros)+

lemma heeds_guards [heeds_intros]: "heeds os (value_of x) (\<lambda>y. os)" "heeds os (throw_if b e) (\<lambda>u. os)"
  by (auto simp: value_of_def throw_if_def split: option.split intro: heeds_intros)

lemma heeds_let [heeds_intros]: "heeds os (f a) post \<Longrightarrow> heeds os (Let a f) post"
  by (simp add: Let_def)

lemma heeds_prod [heeds_intros]: "(\<And>x y. heeds os (f x y) post) \<Longrightarrow> heeds os (case_prod f p) post"
  by (cases p) simp

lemma heeds_if [heeds_intros]:
  "(b \<Longrightarrow> heeds os m post) \<Longrightarrow> (\<not> b \<Longrightarrow> heeds os n post) \<Longrightarrow> heeds os (if b then m else n) post"
  by simp

lemma heeds_each [heeds_intros]: "(\<And>x. heeds os (f x) (\<lambda>u. os)) \<Longrightarrow> heeds os (each f xs) (\<lambda>u. os)"
  by (induction xs) (auto intro: heeds_intros heeds_then_do)

lemma heeds_close_all [heeds_intros]: "heeds os (close_all cs) (\<lambda>u. os)"
  unfolding close_all_def by (intro heeds_intros)

text \<open>Calls that are started one after the other.\<close>

lemma heeds_start_each:
  assumes "\<And>x. may_reject (g x)"
  shows "heeds os (each_value (\<lambda>x. start (g x)) xs :: ('v, nat list) script) (\<lambda>ps. rev ps @ os)"
proof (induction xs arbitrary: os)
  case (Cons x xs)
  show ?case
    unfolding each_value.simps
  proof (rule heeds_then_do [OF heeds_start [OF assms]])
    fix p
    show "heeds (p # os) (then_do (each_value (\<lambda>x. start (g x)) xs) (\<lambda>ps. return (p # ps)) :: ('v, nat list) script) (\<lambda>ps. rev ps @ os)"
      by (rule heeds_then_do [OF Cons.IH]) (rule heeds_done, simp)
  qed
qed (auto intro: heeds_intros)

lemma heeds_poll:
  assumes "\<And>s. heeds [] (round s) (\<lambda>x. [])" "\<And>s. heeds [] (expired s) (\<lambda>x. [])"
  shows "heeds [] (poll n deadline round expired s) (\<lambda>x. [])"
proof (induction n arbitrary: s)
  case 0
  then show ?case by (auto simp: heeds_def split: if_splits)
next
  case (Suc n)
  then show ?case using assms
    by (auto intro!: heeds_then_do heeds_intros split: sum.split)
qed

lemma heeds_poll_for [heeds_intros]:
  "(\<And>s. heeds [] (round s) (\<lambda>x. [])) \<Longrightarrow> (\<And>s. heeds [] (expired s) (\<lambda>x. [])) \<Longrightarrow>
   heeds [] (poll_for n ms round expired s) (\<lambda>x. [])"
  unfolding poll_for_def by (auto intro!: heeds_then_do heeds_intros heeds_poll)

text \<open>A \<open>finally\<close> that does not wait may leave anything open.\<close>

lemma never_cut_off_gate:
  assumes "heeds [] body post"
  shows "never_cut_off (try_finally body (close_all cs))"
  unfolding never_cut_off_def
proof (intro allI impI)
  fix v tr r w
  assume "play (try_finally body (close_all cs)) v tr = Some (r, w)"
  then obtain tr1 tr2 q v1 where s: "tr = tr1 @ tr2" "play body v tr1 = Some (q, v1)"
    "play (settle_do (\<lambda>r. then_do (close_all cs) (\<lambda>u. Done r)) q) v1 tr2 = Some (r, w)"
    unfolding try_finally_def play_on_outcome by blast
  have "attended os tr2" for os
  proof (cases "q = OutOfFuel")
    case False
    then have "play (then_do (close_all cs) (\<lambda>u. Done q)) v1 tr2 = Some (r, w)" using s(3) by (cases q) simp_all
    moreover have "heeds os (Done q) (\<lambda>x. os)" by (rule heedsI) (simp_all split: if_splits)
    ultimately show ?thesis
      by (intro heedsD(1) [OF heeds_then_do [where mid = "\<lambda>u. os" and post = "\<lambda>x. os", OF heeds_close_all]])
  qed (use s(3) in \<open>simp split: if_splits\<close>)
  then show "attended [] tr" using s(1) heedsD(1) [OF assms s(2)] by simp
qed

subsection \<open>The shared steps\<close>

lemma heeds_request [heeds_intros]: "heeds [] (request c k) (\<lambda>r. [])"
  unfolding request_def by (rule heeds_then_do, rule heeds_start) (auto intro: heeds_intros)

lemma heeds_calls [heeds_intros]:
  "heeds os (field v k) (\<lambda>x. os)" "heeds os (chain v ks) (\<lambda>x. os)" "heeds os (group_of created msg) (\<lambda>x. os)"
  "heeds os (dest_text session) (\<lambda>x. os)" "heeds [] (authenticate c user pw action) (\<lambda>x. [])"
  "heeds [] (command c session body) (\<lambda>x. [])" "heeds [] (close_and_wait c) (\<lambda>x. [])"
  unfolding field_def chain_def group_of_def dest_text_def authenticate_def command_def start_command_def close_and_wait_def
  by (rule heeds_intros | rule heeds_then_do | simp)+

text \<open>Two or three calls that are started and awaited together, and all calls of a list.\<close>

lemma heeds_two:
  "may_reject c \<Longrightarrow> may_reject d \<Longrightarrow> (\<And>rs. heeds [] (f rs) post) \<Longrightarrow>
   heeds [] (then_do (start c) (\<lambda>p. then_do (start d) (\<lambda>q. then_do (await_all [p, q]) f))) post"
  by (rule heeds_then_do, erule heeds_start, rule heeds_then_do, erule heeds_start, rule heeds_then_do, rule heeds_await_all)
     auto

lemma heeds_three:
  "may_reject c \<Longrightarrow> may_reject d \<Longrightarrow> may_reject e \<Longrightarrow> (\<And>rs. heeds [] (f rs) post) \<Longrightarrow>
   heeds [] (then_do (start c) (\<lambda>p. then_do (start d) (\<lambda>q. then_do (start e) (\<lambda>s. then_do (await_all [p, q, s]) f)))) post"
  by (rule heeds_then_do, erule heeds_start, rule heeds_then_do, erule heeds_start, rule heeds_then_do, erule heeds_start,
      rule heeds_then_do, rule heeds_await_all) auto

lemma heeds_start_all:
  "(\<And>x. may_reject (g x)) \<Longrightarrow> (\<And>rs. heeds [] (f rs) post) \<Longrightarrow>
   heeds [] (then_do (each_value (\<lambda>x. start (g x)) xs) (\<lambda>ps. then_do (await_all ps) f)) post"
  by (rule heeds_then_do, erule heeds_start_each, rule heeds_then_do, rule heeds_await_all) auto

end
