(* ===== verification/Gate_Props.thy ===== *)
theory Gate_Props
  imports Gate_Runs Gate_Slow Gate_Protocol Gate_Long Gate_Negative Script_Rejections
begin

section \<open>Properties of all gates\<close>

text \<open>
  What holds of the gates of \<open>validation/\<close> together: their polling loops end, they close the clients, they
  print a report only if nothing has failed, and four of them cannot be cut off by a rejection.
\<close>


subsection \<open>Order\<close>

text \<open>A gate is orderly if, whatever becomes of a run, the clients there are at its end were closed, and if a
  report was printed the run has succeeded.\<close>

definition orderly :: "('v, unit) script \<Rightarrow> ('v \<Rightarrow> nat list) \<Rightarrow> bool" where
  "orderly m clients \<longleftrightarrow> (\<forall>v tr r w. play m v tr = Some (r, w) \<longrightarrow> r \<noteq> OutOfFuel \<longrightarrow>
     (\<forall>c \<in> set (clients w). (Close c, ADone) \<in> set tr) \<and> (printed tr \<longrightarrow> r = Returned ()))"

context gate begin

lemma orderly_gate:
  assumes "always (\<lambda>v tr w. clients w = clients v) finalizer"
  shows "orderly (try_finally body finalizer) clients"
  unfolding orderly_def
proof (intro allI impI)
  fix v tr r w
  assume p: "play (try_finally body finalizer) v tr = Some (r, w)" "r \<noteq> OutOfFuel"
  obtain tr1 tr2 v1 u where s: "tr = tr1 @ tr2" "play finalizer v1 tr2 = Some (u, w)" "u \<noteq> OutOfFuel"
    using play_try_finally [OF p] by blast
  then have "clients w = clients v1" using alwaysD [OF assms] by blast
  then have "\<forall>c \<in> set (clients w). (Close c, ADone) \<in> set tr" using finalizer_closes [OF s(2,3)] s(1) by auto
  then show "(\<forall>c \<in> set (clients w). (Close c, ADone) \<in> set tr) \<and> (printed tr \<longrightarrow> r = Returned ())"
    using report_means_success [OF p] by blast
qed

end

lemma same_clients: "always (\<lambda>v tr w. cs = cs) m"
  by (simp add: always_def)

lemma steady_clients: "steady m \<Longrightarrow> always (\<lambda>v tr w. f w = f v) m"
  unfolding always_def by auto

lemma steady_reconnect_finally: "steady reconnect_finally"
  unfolding reconnect_finally_def by (intro steady.rules)

lemma steady_fault_finally: "steady fault_finally"
  unfolding fault_finally_def close_active_def kill_remaining_def stop_def waitForExit_def
  by (intro steady.rules)

definition smoke_clients :: "string list \<Rightarrow> nat list" where
  "smoke_clients argv = (if 3 < length argv \<and> argv ! 2 \<noteq> [] \<and> argv ! 3 \<noteq> [] then [0] else [])"

lemma orderly_smoke: "orderly (smoke_main argv) (\<lambda>v. smoke_clients argv)"
proof (cases "3 < length argv \<and> argv ! 2 \<noteq> [] \<and> argv ! 3 \<noteq> []")
  case True
  then show ?thesis
    by (auto simp: smoke_main_def smoke_clients_def intro: smoke.orderly_gate [OF same_clients])
next
  case False
  then show ?thesis
    by (auto simp: orderly_def smoke_main_def smoke_clients_def Let_def run_simps split: if_splits)
qed

subsection \<open>Rejections\<close>

lemma heeds_wire_value [heeds_intros]: "heeds os (wire_value x) (\<lambda>y. os)"
  by (cases x) (auto intro: heeds_intros)

lemma heeds_caught_request [heeds_intros]:
  "heeds [] (catch (then_do (request c k) (\<lambda>r. return a)) (\<lambda>e. return b)) (\<lambda>x. [])"
proof -
  have "heeds [] (catch (then_do (settled_script r) (\<lambda>r. return a)) (\<lambda>e. return b)) (\<lambda>x. [])" for r
    by (cases r) (auto intro: heeds_intros)
  then show ?thesis
    unfolding then_do_request start_def await_def one_result_def
    by (auto intro!: heeds_ask simp: watch_def)
qed

text \<open>The four gates that start no call without awaiting its promise next.\<close>

lemma presence_attended: "never_cut_off (presence_gate fuel sfx)"
  unfolding presence_gate_def presence_body_def presence_setup_def presence_checks_def waitForSessions_def
    sessions_round_def
  by (rule never_cut_off_gate)
     (rule heeds_intros heeds_three heeds_two heeds_then_do may_reject.simps TrueI | simp)+

lemma negative_attended: "never_cut_off (negative_gate stringify masks keys sfx)"
proof -
  have frag: "heeds [] (fragmented_step masks) (\<lambda>u. [])" for masks
    unfolding fragmented_step_def
    by (rule heeds_intros heeds_then_do may_reject.simps TrueI | simp)+
  have ups: "heeds [] (upgrades_step keys) (\<lambda>u. [])"
    unfolding upgrades_step_def
    by (rule heeds_start_all) (auto simp: refusal_def intro: heeds_intros split: prod.split)
  show ?thesis
    unfolding negative_gate_def negative_body_def reuse_step_def future_step_def raw_step_def envelope_step_def
      expect_close_def
    by (rule never_cut_off_gate)
       (rule frag ups heeds_intros heeds_then_do may_reject.simps TrueI | simp)+
qed

lemma capacity_attended: "never_cut_off capacity_gate"
  unfolding capacity_gate_def capacity_body_def
  by (rule never_cut_off_gate)
     (rule heeds_intros heeds_start_all heeds_then_do may_reject.simps TrueI | simp)+

lemma smoke_body_attended: "never_cut_off (try_finally (smoke_body user pw) (close_all [0]))"
  unfolding smoke_body_def
  by (rule never_cut_off_gate) (rule heeds_intros heeds_then_do | simp)+

lemma smoke_usage_attended: "never_cut_off (then_do (do_it (Complain smoke_usage 2)) (\<lambda>u. return ()))"
  by (rule never_cut_off_heeds) (rule heeds_intros heeds_then_do | simp)+

lemma smoke_attended: "never_cut_off (smoke_main argv)"
  unfolding smoke_main_def Let_def by (simp add: smoke_body_attended smoke_usage_attended)

text \<open>C37: In every run that ends by the script's own return or error, a gate has closed its clients, also when a
  step of it has failed, and it has printed its report only if all of its steps have succeeded. Outside of this are
  runs that Node ends from elsewhere: by an exception in a listener of a client's socket, or because a promise rejects
  while the script waits for another one. The second cannot happen to the presence, negative and capacity gates and
  to the smoke test: in all of their runs, whenever the script waits, every promise that may still reject has a
  handler.\<close>

theorem gates_are_orderly:
  "orderly (presence_gate fuel sfx) (\<lambda>v. [0, 1, 2]) \<and> orderly (mixed_gate sfx) (\<lambda>v. [0, 1]) \<and>
   orderly (slow_gate sfx) (\<lambda>v. [0, 1]) \<and> orderly (protocol_gate sfx hex) (\<lambda>v. [0]) \<and>
   orderly (long_gate txt sfx) (\<lambda>v. [0]) \<and> orderly (reconnect_gate sfx) reconnect_clients \<and>
   orderly (fault_gate fuel sfx) fault_clients \<and> orderly (negative_gate stringify masks keys sfx) (\<lambda>v. [0..<10]) \<and>
   orderly capacity_gate (\<lambda>v. overflow_client # capacity_clients) \<and> orderly (smoke_main argv) (\<lambda>v. smoke_clients argv)
   \<and> never_cut_off (presence_gate fuel sfx) \<and> never_cut_off (negative_gate stringify masks keys sfx) \<and>
   never_cut_off capacity_gate \<and> never_cut_off (smoke_main argv)"
  unfolding presence_gate_def mixed_gate_def slow_gate_def protocol_gate_def long_gate_def reconnect_gate_def
    fault_gate_def negative_gate_def negative_clients_def capacity_gate_def
  by (intro conjI orderly_smoke smoke_attended same_clients presence.orderly_gate mixed.orderly_gate slow.orderly_gate
      protocol.orderly_gate long_stream.orderly_gate negative.orderly_gate [unfolded negative_clients_def]
      capacity.orderly_gate reconnect.orderly_gate steady_clients [OF steady_reconnect_finally]
      faults.orderly_gate steady_clients [OF steady_fault_finally]
      presence_attended [unfolded presence_gate_def] negative_attended [unfolded negative_gate_def negative_clients_def]
      capacity_attended [unfolded capacity_gate_def])

end
