(* ===== verification/Gate_Stream_Runs.thy ===== *)
theory Gate_Stream_Runs
  imports Script_Environment Gate_Protocol Gate_Long Gate_Negative
begin

section \<open>Concrete runs of the stream gates\<close>

text \<open>
  Environments in which the protocol, the long-stream and the negative gate succeed. The gateway answers
  a ping with a pong and the service answers a text with an echo; the frames are the bytes the gates
  send and decode.
\<close>

subsection \<open>Frames\<close>

lemma openBytesFrame_eq:
  "openBytesFrame dest grp route mode pl last_one =
    (if 65535 < length pl then Inl RangeError
     else Inr ([0, of_bool last_one] @ be_enc 2 (length pl) @ [of_nat dest, of_nat mode, of_nat grp, of_nat route] @ pl))"
proof -
  let ?n = "length pl"
  have b0: "replicate (8 + ?n) 0 = (0 :: byte) # 0 # 0 # 0 # 0 # 0 # 0 # 0 # replicate ?n 0"
    by (simp add: replicate_add) (simp add: numeral_eq_Suc)
  have at: "blit (a # b # R) 1 [x] = a # x # R" "blit (a # b # c # d # R) 2 [x, y] = a # b # x # y # R"
    "blit (a # b # c # d # e # R) 4 [x] = a # b # c # d # x # R"
    "blit (a # b # c # d # e # f # R) 5 [x] = a # b # c # d # e # x # R"
    "blit (a # b # c # d # e # f # g # R) 6 [x] = a # b # c # d # e # f # x # R"
    "blit (a # b # c # d # e # f # g # h # R) 7 [x] = a # b # c # d # e # f # g # x # R"
    for a b c d e f g h x y :: byte and R
    by (simp_all add: blit_def numeral_eq_Suc)
  have last: "blit (a # b # c # d # e # f # g # h # replicate ?n 0) 8 pl = a # b # c # d # e # f # g # h # pl"
    for a b c d e f g h :: byte
    using blit_append_n [of "[a, b, c, d, e, f, g, h]" 8 "replicate ?n 0" 0 pl] by (simp add: blit_def)
  obtain x y where xy: "be_enc 2 ?n = [x, y]"
    by (simp add: numeral_2_eq_2)
  show ?thesis
    unfolding openBytesFrame_def Let_def b0 xy
    by (simp add: blit_Cons_0 at at(1) [unfolded One_nat_def] last)
qed

text \<open>The bytes of a frame that fits.\<close>

definition open_bytes :: "nat \<Rightarrow> nat \<Rightarrow> nat \<Rightarrow> nat \<Rightarrow> string \<Rightarrow> bool \<Rightarrow> bytes" where
  "open_bytes dest grp route mode s last_one =
    [0, of_bool last_one] @ be_enc 2 (length s) @ [of_nat dest, of_nat mode, of_nat grp, of_nat route] @ ascii s"

lemma length_ascii: "length (ascii s) = length s" by (simp add: ascii_def)

lemma open_text_eq: "length s \<le> 65535 \<Longrightarrow> open_text dest grp route mode s last_one = Inr (open_bytes dest grp route mode s last_one)"
  by (simp add: open_text_def openBytesFrame_eq open_bytes_def length_ascii)

lemma data_text_fits: "length s \<le> 65535 \<Longrightarrow> \<exists>bs. data_text s last_one = Inr bs"
  by (simp add: data_text_def dataFrame_def Let_def length_ascii)

definition data_bytes :: "string \<Rightarrow> bool \<Rightarrow> bytes" where
  "data_bytes s last_one = (case data_text s last_one of Inl e \<Rightarrow> [] | Inr bs \<Rightarrow> bs)"

lemma data_text_eq: "length s \<le> 65535 \<Longrightarrow> data_text s last_one = Inr (data_bytes s last_one)"
  using data_text_fits [of s last_one] by (auto simp: data_bytes_def)

text \<open>What a frame is answered with: a pong with its text, or the echo of its text.\<close>

definition answer_frame :: "bytes \<Rightarrow> js_frame" where
  "answer_frame bs = (let ping = bs ! 4 = 0 in
    \<lparr>jf_type = 0, jf_flags = 1, jf_dest = (if ping then 0 else 1), jf_response = 0, jf_group = (if ping then 0 else 1),
     jf_route = (if ping then 3 else 0), jf_body = (if ping then [] else ascii ''echo: '') @ drop 8 bs\<rparr>)"

lemma open_bytes_parts:
  "open_bytes dest grp route mode s last_one ! 4 = of_nat dest" "drop 8 (open_bytes dest grp route mode s last_one) = ascii s"
proof -
  obtain x y where "be_enc 2 (length s) = [x, y]" by (simp add: numeral_2_eq_2)
  then show "open_bytes dest grp route mode s last_one ! 4 = of_nat dest" "drop 8 (open_bytes dest grp route mode s last_one) = ascii s"
    by (simp_all add: open_bytes_def)
qed

lemma answer_frame_open:
  "answer_frame (open_bytes 0 0 route mode s last_one) = \<lparr>jf_type = 0, jf_flags = 1, jf_dest = 0, jf_response = 0, jf_group = 0,
     jf_route = 3, jf_body = ascii s\<rparr>"
  "answer_frame (open_bytes 1 1 route mode s last_one) = \<lparr>jf_type = 0, jf_flags = 1, jf_dest = 1, jf_response = 0, jf_group = 1,
     jf_route = 0, jf_body = ascii (''echo: '' @ s)\<rparr>"
  by (simp_all add: answer_frame_def open_bytes_parts ascii_def)

text \<open>The DATA frames of some texts, each shorter than 256.\<close>

definition stream_answer :: "string list \<Rightarrow> bytes" where
  "stream_answer texts = concat (map (\<lambda>s. [1, 1, 0, of_nat (length s)] @ ascii s) texts)"

definition data_frame :: "string \<Rightarrow> js_frame" where
  "data_frame s = \<lparr>jf_type = 1, jf_flags = 1, jf_dest = 0, jf_response = 0, jf_group = 0, jf_route = 0, jf_body = ascii s\<rparr>"

lemma decode_data:
  assumes "length s < 256"
  shows "js_decodeFrames ([1, 1, 0, of_nat (length s)] @ ascii s @ rest) =
    (case js_decodeFrames rest of Inl e \<Rightarrow> Inl e | Inr fs \<Rightarrow> Inr (data_frame s # fs))"
proof -
  have "be_dec [0, of_nat (length s) :: byte] = length s"
    using assms by (simp add: unsigned_of_nat take_bit_nat_eq_self)
  then have "js_frame_at ([1, 1, 0, of_nat (length s)] @ ascii s @ rest) 0 = Inr (data_frame s, 4 + length s)"
    by (simp add: js_frame_at_def js_constants Let_def seg_def data_frame_def length_ascii numeral_eq_Suc)
  moreover have "drop (4 + length s) ([1, 1, 0, of_nat (length s)] @ ascii s @ rest) = rest"
    by (simp add: length_ascii numeral_eq_Suc)
  ultimately show ?thesis
    by (subst js_decodeFrames_unfold) (simp del: append_Cons)
qed

lemma decode_stream:
  "\<forall>s \<in> set texts. length s < 256 \<Longrightarrow> js_decodeFrames (stream_answer texts) = Inr (map data_frame texts)"
proof (induction texts)
  case Nil
  then show ?case by (simp add: stream_answer_def js_decodeFrames_unfold [of "[]"])
next
  case (Cons s texts)
  then show ?case using decode_data [of s "stream_answer texts"] by (simp add: stream_answer_def)
qed

lemma smoke_decode_stream:
  "\<forall>s \<in> set texts. length s < 256 \<Longrightarrow> smoke_decodeFrames (stream_answer texts) = Inr (map data_frame texts)"
  using decode_stream [of texts] smoke_loop_agrees [of "stream_answer texts" 0 "[]"]
  by (auto simp: smoke_decodeFrames_def js_decodeFrames_def split: sum.splits)


subsection \<open>The protocol gate\<close>




lemma simulate_wire [simulation]:
  "simulate (then_do (wire_value y) f) env v s = (case y of Inl e \<Rightarrow> (Threw (decode_failure e), v, s) | Inr x \<Rightarrow> simulate (f x) env v s)"
  by (cases y) simp_all

lemma simulate_assert [simulation]:
  "simulate (then_do (assert_that b msg) f) env v s = (if b then simulate (f ()) env v s else (Threw (Err msg), v, s))"
  "simulate (assert_that b msg) env v s = (if b then (Returned (), v, s) else (Threw (Err msg), v, s))"
  by (simp_all add: assert_that_def)

lemma wire_cong: "y = y' \<Longrightarrow> wire_value y = wire_value y'" by simp
lemma assert_cong: "assert_that b msg = assert_that b msg" by simp







subsection \<open>The long-stream gate\<close>

text \<open>The active stream is echoed, the silent one is canceled 60 seconds after the start.\<close>

definition five_texts :: "string list" where
  "five_texts = [''echo: active-0'', ''echo: active-30'', ''echo: active-60'', ''echo: active-90'', ''echo: active-120'']"

lemma five_echoes: "smoke_decodeFrames (stream_answer five_texts) = Inr (map data_frame five_texts)"
  by (rule smoke_decode_stream) (simp add: five_texts_def)

lemma five_bodies: "map jf_body (map data_frame five_texts) = expected_bodies"
  by (simp add: five_texts_def expected_bodies_def data_frame_def)

fun long_reply :: "unit \<Rightarrow> call \<Rightarrow> script_error + settled" where
  "long_reply w (Client k (Authenticate u p a)) = Inr (VJson (JObj [(''destID'', JNum 5)]))"
| "long_reply w (Client k (Exchange bs nr)) = Inr (VFrame (answer_frame bs))"
| "long_reply w (Client k (BeginExchange resp ms stream)) = Inr (VBytes (stream_answer five_texts))"
| "long_reply w (Outcome p) = Inr (VOutcome 60000 (Inl (Err canceled_text)))"
| "long_reply w c = Inr (VJson JUndefined)"

fun no_text :: "bytes \<Rightarrow> string" where "no_text bs = []"

lemma long_run: "\<exists>tr w. runs (long_gate no_text ''x'') () tr () w \<and> clock_ok 0 tr"
proof -
  let ?env = "environment long_reply no_logs no_exits no_change"
  have "fst (simulate (long_gate no_text ''x'') ?env () ([], 0, 0, ())) = Returned ()"
    unfolding long_gate_def long_body_def long_ping_def long_first_def long_second_def send_at_def wait_until_def
    by (simp add: simulation five_echoes five_bodies [simplified] silent_result_def
       open_text_eq data_text_eq answer_frame_open body_is_def Let_def
       cong: script_congs assert_cong del: One_nat_def)
  then obtain w s where "simulate (long_gate no_text ''x'') ?env () ([], 0, 0, ()) = (Returned (), w, s)"
    by (metis prod.collapse)
  from environment_clock [OF this] show ?thesis by blast
qed

theorem long_gate_sound_witness:
  "\<exists>tr w started t silent. runs (long_gate no_text ''x'') () tr () w \<and> clock_ok 0 tr \<and>
     set t \<subseteq> set tr \<and> silent_in_window t started silent"
proof -
  obtain tr w where r: "runs (long_gate no_text ''x'') () tr () w" "clock_ok 0 tr" using long_run by blast
  from long_gate_sound [OF r] show ?thesis
  proof (elim exE conjE)
    fix started active silent late lst y frames f t1 t2 t3 t4 t5
    assume "tr = t1 @ [(Now, ATime started)] @ t2 @ [(StreamSend 0 silent late True, ADone)] @ t3 @
        [(StreamSend 0 active lst True, ADone), (Await active, AResult (Inr y))] @ t4 @ t5"
      "silent_in_window t2 started silent"
    then show ?thesis using r by (intro exI [of _ tr] exI [of _ w] exI [of _ started] exI [of _ t2] exI [of _ silent]) auto
  qed
qed

subsection \<open>The negative gate\<close>

text \<open>Every connection is closed with 1002 except that of the fragmented message, which is answered.\<close>

fun negative_reply :: "unit \<Rightarrow> call \<Rightarrow> script_error + settled" where
  "negative_reply w (Client k (Authenticate u p a)) = Inr (VJson (JObj [(''token'', JStr ''t'')]))"
| "negative_reply w (Client k (WaitForClose ms)) = Inr (VJson (JNum 1002))"
| "negative_reply w (Client k (BeginExchange resp ms stream)) = Inr (VFrame \<lparr>jf_type = 0, jf_flags = 1, jf_dest = 0,
     jf_response = 0, jf_group = 0, jf_route = 3, jf_body = fragmented_text\<rparr>)"
| "negative_reply w c = Inr (VJson JUndefined)"

fun no_mask :: "nat \<Rightarrow> bytes" where "no_mask i = [0, 0, 0, 0]"
fun no_key :: "nat \<Rightarrow> bytes" where "no_key i = []"
fun no_json :: "jsval \<Rightarrow> bytes" where "no_json j = []"

lemma reused_bytes: "\<exists>bs. openFrame no_json 1 1 2 0 j True = Inr bs"
  by (simp add: openFrame_def openBytesFrame_eq)

lemma ten_clients: "[0..<10] = [0, 1, 2, 3, 4, 5, 6, 7, 8, 9 :: nat]"
  by (simp add: upt_conv_Cons)

lemma six_attempts: "\<exists>r1 r2 r3 r4 r5 r6. upgrade_attempts no_key = [r1, r2, r3, r4, r5, r6]"
proof -
  have "length (upgrade_attempts no_key) = 6" by (simp add: upgrade_attempts_def bad_requests_def upgrade_labels_def)
  then show ?thesis by (auto simp: length_Suc_conv numeral_eq_Suc)
qed

lemma refusal_reply: "negative_reply w (refusal a) = Inr (VJson JUndefined)"
  by (cases a) (simp add: refusal_def)

lemma negative_run: "\<exists>tr w. runs (negative_gate no_json no_mask no_key ''x'') () tr () w"
proof -
  let ?env = "environment negative_reply no_logs no_exits no_change"
  obtain bs where bs: "openFrame no_json 1 1 2 0 (JObj [(''type'', JStr ''list_groups''), (''token'', JStr ''t'')]) True = Inr bs"
    using reused_bytes by blast
  obtain rec where rec: "bad_envelope_record = Inr rec" using bad_envelope_bytes by blast
  obtain rec' where rec': "fragmented_valid_record 0 = Inr rec'" using fragmented_valid_reads [of 0] by auto
  obtain r1 r2 r3 r4 r5 r6 where six: "upgrade_attempts no_key = [r1, r2, r3, r4, r5, r6]" using six_attempts by blast
  have "fst (simulate (negative_gate no_json no_mask no_key ''x'') ?env () ([], 0, 0, ())) = Returned ()"
    unfolding negative_gate_def negative_body_def reuse_step_def future_step_def envelope_step_def fragmented_step_def
      upgrades_step_def negative_clients_def raw_attacks_def
    by (simp add: simulation expect_close_def raw_step_def refusal_reply bs rec rec' six ten_clients Let_def
       cong: script_congs assert_cong del: One_nat_def)
  then obtain w s where "simulate (negative_gate no_json no_mask no_key ''x'') ?env () ([], 0, 0, ()) = (Returned (), w, s)"
    by (metis prod.collapse)
  from environment_runs [OF this] show ?thesis by blast
qed

theorem negative_gate_sound_witness:
  "\<exists>tr w t rec. runs (negative_gate no_json no_mask no_key ''x'') () tr () w \<and> set t \<subseteq> set tr \<and>
     bad_envelope_record = Inr rec \<and> closed_after t 7 (SendRaw 7 (maskedFrame (no_mask 2) rec 0x02 True))"
proof -
  obtain tr w where r: "runs (negative_gate no_json no_mask no_key ''x'') () tr () w" using negative_run by blast
  from negative_gate_sound [OF r] show ?thesis
  proof (elim exE conjE)
    fix t1 t2 rec
    assume "tr = t1 @ t2" "bad_envelope_record = Inr rec"
      "closed_after t1 7 (SendRaw 7 (maskedFrame (no_mask 2) rec 0x02 True))"
    then show ?thesis using r by (intro exI [of _ tr] exI [of _ w] exI [of _ t1] exI [of _ rec]) simp
  qed
qed

end
