(* ===== verification/Gate_Slow_Run.thy ===== *)
theory Gate_Slow_Run
  imports Script_Environment Gate_Slow
begin

section \<open>A concrete run of the slow-consumer gate\<close>

text \<open>Every command gets the same answer, and every push is of its message. The 1200 messages are sent by
  an induction over the batches.\<close>

definition slow_group_made :: jsval where
  "slow_group_made = JObj [(''id'', JNum 7), (''invite_code'', JStr ''c'')]"

definition slow_answer :: jsval where
  "slow_answer = JObj [(''ok'', JBool True), (''group'', slow_group_made), (''groups'', JArr [slow_group_made]),
     (''message'', JObj [(''id'', JNum 1)])]"

definition slow_login :: jsval where
  "slow_login = JObj [(''token'', JStr ''t''), (''destID'', JNum 5)]"

fun slow_reply :: "unit \<Rightarrow> call \<Rightarrow> script_error + settled" where
  "slow_reply w (Client k (Authenticate u p a)) = Inr (VJson slow_login)"
| "slow_reply w (Client k (Command tok body)) = Inr (VJson slow_answer)"
| "slow_reply w (Client k (WaitForClose ms)) = Inr (VJson (JNum 1013))"
| "slow_reply w (Client k (WaitForPush s)) = Inr (VJson (JObj [(''payload'', JObj [(''message'', JObj [(''id'', JNum 1)])])]))"
| "slow_reply w c = Inr (VJson JUndefined)"

abbreviation slow_env :: "unit env_state \<Rightarrow> question \<Rightarrow> answer \<times> unit env_state" where
  "slow_env \<equiv> environment slow_reply no_logs no_exits no_change"

lemma slow_prefix_short: "i < messageCount \<Longrightarrow> length (slow_prefix ''x'' i) \<le> 1900"
  using show_nat_short [of i] by (simp add: slow_prefix_def messageCount_def)

lemma runs_seq: "runs m v t1 x v1 \<Longrightarrow> runs (f x) v1 t2 y w \<Longrightarrow> runs (then_do m f) v (t1 @ t2) y w"
  unfolding runs_then_do by blast

lemma runs_each_valueI:
  assumes "runs (f x) v t1 y v1" "runs (each_value f xs) v1 t2 ys w"
  shows "runs (each_value f (x # xs)) v (t1 @ t2) (y # ys) w"
  unfolding each_value.simps
proof (rule runs_seq)
  show "runs (then_do (each_value f xs) (\<lambda>ys. return (y # ys))) v1 t2 (y # ys) w"
    using runs_seq [of "each_value f xs" v1 t2 ys w "\<lambda>ys. return (y # ys)" "[]" "y # ys" w] assms(2) by simp
qed (rule assms(1))

lemma slow_sends_run:
  "\<forall>i \<in> set is. i < messageCount \<Longrightarrow>
    \<exists>tr ps. runs (each_value (slow_send ''x'' slow_login slow_group_made) is) v tr ps v \<and> length ps = length is"
proof (induction "is")
  case (Cons i "is")
  then obtain tr ps where IH: "runs (each_value (slow_send ''x'' slow_login slow_group_made) is) v tr ps v" "length ps = length is"
    by auto
  let ?x = "(Start (Client 0 (Command (JStr ''t'') (send_request (JNum 7) (slow_text ''x'' i)))), APromise i)"
  have "runs (slow_send ''x'' slow_login slow_group_made i) v [?x] i v"
    using Cons.prems slow_prefix_short [of i] unfolding slow_send_def start_command_def
    by (simp add: run_simps slow_login_def slow_group_made_def)
  then have "runs (each_value (slow_send ''x'' slow_login slow_group_made) (i # is)) v (?x # tr) (i # ps) v"
    using runs_each_valueI [OF _ IH(1), of i v "[?x]" i] by simp
  then show ?case using IH(2) by (intro exI [of _ "?x # tr"] exI [of _ "i # ps"]) simp
qed (auto intro: exI [of _ "[]"])

lemma slow_count_run: "runs (count_persisted n (replicate m (VJson slow_answer))) v [] (n + m) v"
  by (induction m arbitrary: n) (simp_all add: run_simps slow_answer_def reply_id_def js_path.simps)

lemma slow_batches_run:
  "\<forall>i \<in> set (concat (map batch_indices firsts)). i < messageCount \<Longrightarrow>
    \<exists>tr. runs (send_batches ''x'' slow_login slow_group_made n firsts) v tr (n + length (concat (map batch_indices firsts))) v"
proof (induction firsts arbitrary: n)
  case (Cons first rest)
  let ?m = "length (batch_indices first)"
  obtain t1 ps where s: "runs (each_value (slow_send ''x'' slow_login slow_group_made) (batch_indices first)) v t1 ps v"
    "length ps = ?m"
    using slow_sends_run [of "batch_indices first" v] Cons.prems by auto
  let ?rs = "replicate ?m (VJson slow_answer)" and ?next = "\<lambda>m. send_batches ''x'' slow_login slow_group_made m rest"
  let ?n = "n + ?m + length (concat (map batch_indices rest))"
  obtain t2 where "runs (?next (n + ?m)) v t2 ?n v" using Cons.IH [of "n + ?m"] Cons.prems by auto
  then have "runs (then_do (count_persisted n ?rs) ?next) v ([] @ t2) ?n v"
    by (rule runs_seq [where f = ?next, OF slow_count_run])
  then have c: "runs (then_do (count_persisted n ?rs) ?next) v t2 ?n v" by simp
  have "runs (then_do (await_all ps) (\<lambda>results. then_do (count_persisted n results) ?next)) v
      ((AwaitAll ps, AResults (Inr ?rs)) # t2) ?n v"
    using c s(2) by (simp add: run_simps)
  from runs_seq [OF s(1), of "\<lambda>ps. then_do (await_all ps) (\<lambda>results. then_do (count_persisted n results) ?next)", OF this]
  have "runs (send_batches ''x'' slow_login slow_group_made n (first # rest)) v
      (t1 @ (AwaitAll ps, AResults (Inr ?rs)) # t2) (n + length (concat (map batch_indices (first # rest)))) v"
    by (simp add: add.assoc)
  then show ?case by blast
qed (auto intro: exI [of _ "[]"])


lemma slow_parts_run:
  "\<exists>tr. runs (slow_setup ''x'') () tr (slow_login, slow_login, slow_group_made) ()"
  "\<exists>tr. runs slow_isolated () tr (JNum 1013) ()"
  "\<exists>tr. runs (slow_health ''x'' slow_login slow_group_made) () tr (JNum 1) ()"
proof -
  have s: "simulate (slow_setup ''x'') slow_env () ([], 0, 0, ()) = (Returned (slow_login, slow_login, slow_group_made), (), ([], 6, 0, ()))"
    unfolding slow_setup_def
    by (simp add: simulation slow_login_def slow_answer_def slow_group_made_def cong: script_congs)
  have i: "simulate slow_isolated slow_env () ([], 0, 0, ()) = (Returned (JNum 1013), (), ([], 1, 0, ()))"
    unfolding slow_isolated_def
    by (simp add: simulation cong: script_congs)
  have h: "simulate (slow_health ''x'' slow_login slow_group_made) slow_env () ([], 0, 0, ()) = (Returned (JNum 1), (), ([], 3, 0, ()))"
    unfolding slow_health_def
    by (simp add: simulation slow_login_def slow_answer_def slow_group_made_def reply_id_def push_id_def cong: script_congs)
  show "\<exists>tr. runs (slow_setup ''x'') () tr (slow_login, slow_login, slow_group_made) ()" using environment_runs [OF s] .
  show "\<exists>tr. runs slow_isolated () tr (JNum 1013) ()" using environment_runs [OF i] .
  show "\<exists>tr. runs (slow_health ''x'' slow_login slow_group_made) () tr (JNum 1) ()" using environment_runs [OF h] .
qed


lemma slow_run: "\<exists>tr. runs (slow_gate ''x'') () tr () ()"
proof -
  obtain t1 t2 t3 t4 where parts: "runs (slow_setup ''x'') () t1 (slow_login, slow_login, slow_group_made) ()"
    "runs (send_batches ''x'' slow_login slow_group_made 0 batch_starts) () t2 messageCount ()"
    "runs slow_isolated () t3 (JNum 1013) ()" "runs (slow_health ''x'' slow_login slow_group_made) () t4 (JNum 1) ()"
    using slow_parts_run slow_batches_run [of batch_starts 0 "()"] unfolding batches_cover by auto
  let ?printed = "[(Print (slow_report ''x'' (JNum 7) (JStr (show_int 5)) (JStr (show_int 5)) messageCount (JNum 1013) (JNum 1)), ADone)]"
  have "runs (slow_body ''x'') () (t1 @ [(Pause 1, ADone)] @ t2 @ t3 @ t4 @ ?printed) () ()"
    unfolding slow_body_def
  proof (rule runs_seq [OF parts(1)], unfold prod.case, rule runs_seq)
    show "runs (do_it (Pause 1)) () [(Pause 1, ADone)] () ()" by (simp add: do_it_def)
  qed (rule runs_seq [OF parts(2)] runs_seq [OF parts(3)] runs_seq [OF parts(4)]
      | simp add: run_simps slow_login_def slow_group_made_def js_toString_def)+
  then show ?thesis
    unfolding slow_gate_def runs_try_finally play_close_all by auto
qed

theorem slow_gate_sound_witness:
  "\<exists>tr gid t mid. runs (slow_gate ''x'') () tr () () \<and> set t \<subseteq> set tr \<and> sent_message t 0 gid (slow_text ''x'' 1199) mid"
proof -
  obtain tr where r: "runs (slow_gate ''x'') () tr () ()" using slow_run by blast
  from slow_gate_sound [OF r] show ?thesis
  proof (elim exE conjE)
    fix grp gid tok y mid t1 t2 t3 t4 destA destB code finalID
    assume tr: "tr = t1 @ [(Pause 1, ADone)] @ t2 @ t3 @ t4 @
        [(Print (slow_report ''x'' gid destA destB messageCount code finalID), ADone), (Close 0, ADone), (Close 1, ADone)]"
      and m: "\<forall>i < messageCount. \<exists>mid. sent_message t2 0 gid (slow_text ''x'' i) mid"
    obtain m where "sent_message t2 0 gid (slow_text ''x'' 1199) m"
      using spec [OF m, of 1199] by (auto simp: messageCount_def)
    then show ?thesis using r tr by (intro exI [of _ tr] exI [of _ gid] exI [of _ t2] exI [of _ m]) auto
  qed
qed

end
