(* ===== verification/Web_Client_Props.thy ===== *)
theory Web_Client_Props
  imports Web_Client_Session
begin

section \<open>What the browser session guarantees\<close>

text \<open>
  Properties of every run of \<open>WssImSession\<close>, by the invariant of \<open>Web_Client_Session\<close>: the life of an
  exchange, the numbering of exchanges and pushes, what closing settles, the reassembly of answers,
  and the place where the code leaves a promise open.
\<close>

lemma reach_new_inv:
  "session_reach utf8 json (session_new op oc, []) (s, tr) \<Longrightarrow> session_inv s tr"
  using session_reach_inv [of utf8 json "(session_new op oc, [])" "(s, tr)"] session_inv_new by simp

lemma session_inv_life:
  "session_inv s tr \<Longrightarrow> life_ok (pending_keys s) (nextClientStreamID s) k (life k tr)"
  unfolding session_inv_def by blast

lemma life_armed:
  assumes "session_inv s tr"
  shows "armed k tr \<longleftrightarrow> k \<in> set (pending_keys s)"
proof -
  have ok: "life_ok (pending_keys s) (nextClientStreamID s) k (life k tr)"
    using assms by (simp add: session_inv_def)
  have "armed k tr \<longleftrightarrow> SetTimer k \<in> set (life k tr) \<and> ClearTimer k \<notin> set (life k tr) \<and>
      Reject k ExchangeTimeout \<notin> set (life k tr)"
    by (auto simp: armed_def life_def)
  then show ?thesis
    using ok by (auto simp: life_ok_def life_ended_def split: if_splits)
qed

lemma life_settles_once:
  assumes "session_inv s tr"
  shows "length (filter settles (life k tr)) \<le> 1"
    and "k \<in> set (pending_keys s) \<Longrightarrow> filter settles (life k tr) = []"
proof -
  have ok: "life_ok (pending_keys s) (nextClientStreamID s) k (life k tr)"
    using assms by (simp add: session_inv_def)
  then show "length (filter settles (life k tr)) \<le> 1"
    by (auto simp: life_ok_def life_ended_def split: if_splits)
  show "k \<in> set (pending_keys s) \<Longrightarrow> filter settles (life k tr) = []"
    using ok by (simp add: life_ok_def)
qed

lemma session_step_disconnected:
  assumes "session_inv (fst w) (snd w)" "\<not> st_connected (status (fst w))" "session_step utf8 json w w'"
  shows "\<not> st_connected (status (fst w'))"
proof -
  have nopend: "pending (fst w) = []" using assms(1,2) by (simp add: session_inv_def)
  have same: "status s' = status s" if "handleMessage_try utf8 json s data = (err, s', effs)" for s data err s' effs
    using that by (auto simp: handleMessage_try_def handleResponse_def handlePush_def Let_def
        split: ws_data.splits sum.splits option.splits if_splits prod.splits)
  from assms(3) show ?thesis
  proof cases
    case (step_message s data err s' effs tr)
    then obtain err1 where "handleMessage_try utf8 json s data = (err1, s', effs)"
      by (auto simp: handleMessage_eq split: prod.splits option.splits)
    with same step_message assms(2) show ?thesis by fastforce
  qed (use assms(2) in \<open>auto simp: exchange_def exchange_timeout_def session_close_def handleClose_def
        on_socket_close_def on_socket_error_def socket_close_def Let_def split: if_splits option.splits prod.splits\<close>)
qed

text \<open>C1: In every run, every exchange's promise is settled at most once; an exchange is in the pending
  table exactly while its timer is armed, and while it is there its promise is not settled. So no
  answer, reset, timeout or close can settle an exchange twice, and none that waits is forgotten by
  its timer.\<close>

theorem exchange_settled_at_most_once:
  assumes "session_reach utf8 json (session_new op oc, []) (s, tr)"
  shows "length (filter settles (life k tr)) \<le> 1
    \<and> (k \<in> set (pending_keys s) \<longleftrightarrow> armed k tr)
    \<and> (k \<in> set (pending_keys s) \<longrightarrow> filter settles (life k tr) = [])"
  using life_armed life_settles_once reach_new_inv [OF assms] by blast

text \<open>The run the witnesses use: one exchange is started on a fresh session.\<close>

definition demo_session :: wss_session where
  "demo_session = (session_new True True)\<lparr>nextClientStreamID := 4,
     pending := [(0, \<lparr>p_chunks = [], p_noResponse = False\<rparr>)]\<rparr>"

definition demo_trace :: "effect list" where
  "demo_trace = [SetTimer 0, Send (js_encodeEnvelope \<lparr>e_type = recordStream, e_fin = True, e_streamID = 0,
     e_appError = 0, e_payload = [1, 2]\<rparr>)]"

lemma demo_reach: "session_reach utf8 json (session_new True True, []) (demo_session, demo_trace)"
proof -
  have "exchange (session_new True True) [1, 2] False = (Inr 0, demo_session, demo_trace)"
    by (simp add: exchange_def session_new_def demo_session_def demo_trace_def Let_def)
  from step_exchange [OF this, of utf8 json "[]"] show ?thesis
    using reach_step [OF reach_refl] by simp
qed

lemma demo_inv: "session_inv demo_session demo_trace"
  by (rule reach_new_inv [OF demo_reach])

lemma demo_simps [simp]:
  "map_of (pending demo_session) 0 = Some \<lparr>p_chunks = [], p_noResponse = False\<rparr>"
  "pending_keys demo_session = [0]" "ready demo_session = OPEN" "st_connected (status demo_session)"
  "pending demo_session = [(0, \<lparr>p_chunks = [], p_noResponse = False\<rparr>)]" "nextClientStreamID demo_session = 4"
  by (simp_all add: demo_session_def session_new_def)

theorem exchange_settled_at_most_once_witness:
  "armed 0 demo_trace \<and> filter settles (life 0 demo_trace) = []"
  using exchange_settled_at_most_once [OF demo_reach, of 0] by simp

text \<open>Exchanges are numbered 0, 4, 8 and so on, in the order they are sent: the id a new exchange gets
  is a multiple of four above every id used before, and the next one is four higher. No id is used twice.\<close>

theorem exchange_ids_fresh:
  assumes "session_reach utf8 json (session_new op oc, []) (s, tr)"
    and "exchange s pl nr = (Inr k, s', effs)"
  shows "k = nextClientStreamID s \<and> k mod 4 = 0 \<and> nextClientStreamID s' = k + 4
    \<and> (\<forall>j. SetTimer j \<in> set tr \<longrightarrow> j < k) \<and> filter (about k) tr = []"
proof -
  note inv = reach_new_inv [OF assms(1)]
  have k: "k = nextClientStreamID s" "nextClientStreamID s' = k + 4"
    using assms(2) by (auto simp: exchange_def Let_def split: if_splits)
  have "j < k" if "SetTimer j \<in> set tr" for j
  proof -
    have "SetTimer j \<in> set (life j tr)" using that by (simp add: life_def)
    moreover have "life_ok (pending_keys s) k j (life j tr)" "j \<in> set (pending_keys s) \<Longrightarrow> j < k"
      using inv k by (auto simp: session_inv_def)
    ultimately show ?thesis by (auto simp: life_ok_def split: if_splits)
  qed
  moreover have "life_ok (pending_keys s) k k (life k tr)" "k \<notin> set (pending_keys s)"
    using inv k by (auto simp: session_inv_def)
  ultimately show ?thesis
    using inv k by (auto simp: session_inv_def life_ok_def life_def)
qed

theorem exchange_ids_fresh_witness:
  "\<exists>s' effs. exchange demo_session [9] False = (Inr 4, s', effs) \<and> nextClientStreamID s' = 8"
proof -
  obtain s' effs where "exchange demo_session [9] False = (Inr 4, s', effs)"
    by (auto simp: exchange_def Let_def)
  with exchange_ids_fresh [OF demo_reach this] show ?thesis by auto
qed

text \<open>The calls of the page's \<open>onClose\<close> among the effects.\<close>

fun closing_call :: "effect \<Rightarrow> bool" where
  "closing_call (OnClose r) = True"
| "closing_call _ = False"

lemma closing_calls_of_rejects:
  "filter closing_call (concat (map (\<lambda>(k, p). [ClearTimer k, Reject k e]) ps)) = []"
  by (induction ps) auto

lemma session_disconnected_for_good:
  assumes "session_reach utf8 json w w'" "session_inv (fst w) (snd w)" "\<not> st_connected (status (fst w))"
  shows "\<not> st_connected (status (fst w')) \<and> session_inv (fst w') (snd w')"
  using assms
proof (induction rule: session_reach.induct)
  case (reach_step w' w'')
  then have inv: "session_inv (fst w') (snd w')" and nc: "\<not> st_connected (status (fst w'))" by simp_all
  show ?case
    using session_step_disconnected [OF inv nc reach_step.hyps(2)]
      session_step_inv [of "fst w'" "snd w'" utf8 json "fst w''" "snd w''"] inv reach_step.hyps(2) by simp
qed simp

text \<open>A session that has been closed takes no exchange, and closing it again, in whichever way, does nothing.\<close>

lemma closed_session_rests:
  assumes "session_inv s tr" "\<not> st_connected (status s)"
  shows "pending s = []" "exchange s pl nr = (Inl SessionClosed, s, [])" "handleClose s r = (s, [])"
    "session_close s = (None, s, [])" "on_socket_close s c rs = (s, [])" "on_socket_error s = (s, [])"
proof -
  have *: "ready s \<noteq> OPEN" "pending s = []" "st_closed_by (status s) \<noteq> None" using assms by (auto simp: session_inv_def)
  then show "pending s = []" "exchange s pl nr = (Inl SessionClosed, s, [])" by (simp_all add: exchange_def)
  show h: "handleClose s r = (s, [])" for r using * assms(2) by (simp add: handleClose_def)
  show "session_close s = (None, s, [])" "on_socket_close s c rs = (s, [])" "on_socket_error s = (s, [])"
    using * by (simp_all add: session_close_def on_socket_close_def on_socket_error_def h)
qed

text \<open>C10: When the socket closes, every exchange still waiting is rejected with the reason of the close
  and its timer is cleared, both tables are emptied, and the page's \<open>onClose\<close>, if it has one, is called
  once with the reason. From then on, whatever else happens, no exchange can be started or be pending, and a
  second close (by the page, the socket's close event or its error event) changes nothing and does nothing.\<close>

theorem close_settles_everything:
  assumes "session_reach utf8 json (session_new op oc, []) (s, tr)" "st_connected (status s)"
    and "on_socket_close (s\<lparr>ready := CLOSED\<rparr>) code reason = (s1, effs)"
    and "session_reach utf8 json (s1, tr @ effs) (s2, tr2)"
  shows "(\<forall>k \<in> set (pending_keys s). life k effs = [ClearTimer k, Reject k (ConnectionClosed (SocketClosed code reason))])
    \<and> filter closing_call effs = (if hasOnClose s then [OnClose (SocketClosed code reason)] else [])
    \<and> pending s1 = [] \<and> pushes s1 = [] \<and> st_closed_by (status s1) = Some (SocketClosed code reason)
    \<and> \<not> st_connected (status s2) \<and> pending s2 = [] \<and> exchange s2 pl nr = (Inl SessionClosed, s2, [])
    \<and> session_close s2 = (None, s2, []) \<and> on_socket_close s2 code2 reason2 = (s2, []) \<and> on_socket_error s2 = (s2, [])"
proof -
  let ?e = "ConnectionClosed (SocketClosed code reason)"
  note inv = reach_new_inv [OF assms(1)]
  have d: "distinct (pending_keys s)" using inv by (simp add: session_inv_def)
  have h: "handleClose (s\<lparr>ready := CLOSED\<rparr>) (SocketClosed code reason) = (s1, effs)"
    using assms(3) by (simp add: on_socket_close_def)
  then have effs: "effs = concat (map (\<lambda>(k, p). [ClearTimer k, Reject k ?e]) (pending s))
       @ (if hasOnClose s then [OnClose (SocketClosed code reason)] else [])"
    and s1: "pending s1 = []" "pushes s1 = []" "\<not> st_connected (status s1)"
      "st_closed_by (status s1) = Some (SocketClosed code reason)"
    using assms(2) by (auto simp: handleClose_def)
  have l: "\<forall>k \<in> set (pending_keys s). life k effs = [ClearTimer k, Reject k ?e]"
    unfolding effs using life_close_effects [OF d] by simp
  have o: "filter closing_call effs = (if hasOnClose s then [OnClose (SocketClosed code reason)] else [])"
    unfolding effs by (simp add: closing_calls_of_rejects)
  have "session_inv s1 (tr @ effs)" by (rule session_step_inv [OF inv step_socket_closed [OF assms(3)]])
  then have "\<not> st_connected (status s2)" "session_inv s2 tr2"
    using session_disconnected_for_good [OF assms(4)] s1(3) by simp_all
  then show ?thesis using l o s1 closed_session_rests by blast
qed

theorem close_settles_everything_witness:
  "\<exists>s1 effs. on_socket_close (demo_session\<lparr>ready := CLOSED\<rparr>) 1006 [] = (s1, effs)
    \<and> life 0 effs = [ClearTimer 0, Reject 0 (ConnectionClosed (SocketClosed 1006 []))]
    \<and> filter closing_call effs = [OnClose (SocketClosed 1006 [])]
    \<and> pending s1 = [] \<and> session_close s1 = (None, s1, [])"
proof -
  obtain s1 effs where h: "on_socket_close (demo_session\<lparr>ready := CLOSED\<rparr>) 1006 [] = (s1, effs)"
    by (cases "on_socket_close (demo_session\<lparr>ready := CLOSED\<rparr>) 1006 []")
  from close_settles_everything [OF demo_reach _ h reach_refl] h show ?thesis by (auto simp: demo_session_def session_new_def)
qed

subsection \<open>Answers\<close>

text \<open>The records of one answer, taken in order: the sum of their effects.\<close>

fun handleResponses :: "wss_session \<Rightarrow> js_envelope list \<Rightarrow> outcome" where
  "handleResponses s [] = (None, s, [])"
| "handleResponses s (r # rs) = (case handleResponse s r of
     (Some e, s1, effs) \<Rightarrow> (Some e, s1, effs)
   | (None, s1, effs) \<Rightarrow> (case handleResponses s1 rs of (e, s2, effs2) \<Rightarrow> (e, s2, effs @ effs2)))"

definition answer_record :: "nat \<Rightarrow> bool \<Rightarrow> bytes \<Rightarrow> js_envelope" where
  "answer_record sid fn pl = \<lparr>e_type = recordStream, e_fin = fn, e_streamID = sid, e_appError = 0, e_payload = pl\<rparr>"

lemma handleResponses_reassembles:
  assumes "map_of (pending s) sid = Some p" "\<not> p_noResponse p"
    "js_decodeFrames (concat (p_chunks p) @ concat cs @ c) = Inr [f]"
  shows "handleResponses s (map (answer_record sid False) cs @ [answer_record sid True c]) =
    (None, s\<lparr>pending := AList.delete sid (pending s)\<rparr>, [ClearTimer sid, Resolve sid (Some f)])"
  using assms
proof (induction cs arbitrary: s p)
  case Nil
  then show ?case
    using handleResponse_last [of s "answer_record sid True c" p]
    by (simp add: answer_record_def Let_def)
next
  case (Cons d ds)
  let ?p1 = "if 0 < length d then p\<lparr>p_chunks := p_chunks p @ [d]\<rparr> else p"
  let ?s1 = "s\<lparr>pending := AList.update sid ?p1 (pending s)\<rparr>"
  have "handleResponse s (answer_record sid False d) = (None, ?s1, [])"
    using handleResponse_more [of s "answer_record sid False d" p] Cons.prems(1) by (simp add: answer_record_def)
  moreover have "map_of (pending ?s1) sid = Some ?p1" by (simp add: update_conv)
  moreover have "js_decodeFrames (concat (p_chunks ?p1) @ concat ds @ c) = Inr [f]" "\<not> p_noResponse ?p1"
    using Cons.prems by auto
  ultimately show ?case
    using Cons.IH [of ?s1 ?p1] by (simp add: delete_update_same)
qed

text \<open>C7: However the gateway cuts an answer into records, the exchange is resolved exactly once, with
  the one frame the concatenated payloads hold; its timer is cleared and only its own entry leaves
  the pending table.\<close>

theorem answer_chunking_irrelevant:
  assumes "map_of (pending s) sid = Some \<lparr>p_chunks = [], p_noResponse = False\<rparr>"
    and "js_decodeFrames (concat cs @ c) = Inr [f]"
  shows "handleResponses s (map (answer_record sid False) cs @ [answer_record sid True c]) =
    (None, s\<lparr>pending := AList.delete sid (pending s)\<rparr>, [ClearTimer sid, Resolve sid (Some f)])"
  using handleResponses_reassembles [OF assms(1), of cs c f] assms(2) by simp

lemma demo_frame:
  "js_decodeFrames [1, 1, 0, 1, 7] = Inr [\<lparr>jf_type = 1, jf_flags = 1, jf_dest = 0, jf_response = 0,
     jf_group = 0, jf_route = 0, jf_body = [7]\<rparr>]"
  by (simp add: js_decodeFrames_unfold js_frame_at_def seg_def js_constants Let_def)

theorem answer_chunking_irrelevant_witness:
  "handleResponses demo_session (map (answer_record 0 False) [[1, 1], []] @ [answer_record 0 True [0, 1, 7]]) =
    (None, demo_session\<lparr>pending := []\<rparr>, [ClearTimer 0, Resolve 0 (Some \<lparr>jf_type = 1, jf_flags = 1,
       jf_dest = 0, jf_response = 0, jf_group = 0, jf_route = 0, jf_body = [7]\<rparr>)])"
  using answer_chunking_irrelevant [of demo_session 0 "[[1, 1], []]" "[0, 1, 7]"] demo_frame by simp

text \<open>A record for one stream never touches another: the other pending exchanges and the half-received
  pushes of other streams are as before, and no effect settles another exchange.\<close>

theorem message_touches_one_stream:
  assumes "js_decodeEnvelope buf = Inr r" "handleMessage utf8 json s (DataBuffer buf) = (err, s', effs)"
    and "k \<noteq> e_streamID r"
  shows "map_of (pending s') k = map_of (pending s) k \<and> map_of (pushes s') k = map_of (pushes s) k
    \<and> life k effs = [] \<and> status s' = status s \<and> nextClientStreamID s' = nextClientStreamID s"
proof -
  obtain err1 where t: "handleMessage_try utf8 json s (DataBuffer buf) = (err1, s', effs)"
    using assms(2) by (auto simp: handleMessage_eq split: prod.splits option.splits)
  have resp: "?thesis" if "handleResponse s r = (err1, s', effs)"
    using that assms(3)
    by (auto simp: handleResponse_def Let_def update_conv' delete_conv' split: option.splits if_splits sum.splits)
  have psh: "?thesis" if "handlePush utf8 json s r = (err1, s', effs)"
    using that assms(3)
    by (auto simp: handlePush_def Let_def update_conv' delete_conv' split: option.splits if_splits sum.splits prod.splits)
  show ?thesis
    using t assms(1,3) resp psh
    by (auto simp: handleMessage_try_def Let_def delete_conv' split: option.splits if_splits)
qed

lemma js_decodeEnvelope_reset:
  "js_decodeEnvelope [1, 2, 0, 0, 0, 0, 0, 0, 0, 0, 0, 8, 0, 0, 0, 7, 0, 0, 0, 0] =
     Inr \<lparr>e_type = recordReset, e_fin = False, e_streamID = 8, e_appError = 7, e_payload = []\<rparr>"
  by (simp add: js_decodeEnvelope_def js_constants seg_def Let_def)

theorem message_touches_one_stream_witness:
  "\<exists>err s' effs. handleMessage (\<lambda>_. None) (\<lambda>_. None) demo_session
      (DataBuffer [1, 2, 0, 0, 0, 0, 0, 0, 0, 0, 0, 8, 0, 0, 0, 7, 0, 0, 0, 0]) = (err, s', effs)
    \<and> map_of (pending s') 0 = Some \<lparr>p_chunks = [], p_noResponse = False\<rparr> \<and> life 0 effs = []"
proof -
  let ?buf = "[1, 2, 0, 0, 0, 0, 0, 0, 0, 0, 0, 8, 0, 0, 0, 7, 0, 0, 0, 0]"
  obtain err s' effs where h: "handleMessage (\<lambda>_. None) (\<lambda>_. None) demo_session (DataBuffer ?buf) = (err, s', effs)"
    by (cases "handleMessage (\<lambda>_. None) (\<lambda>_. None) demo_session (DataBuffer ?buf)") auto
  from message_touches_one_stream [OF js_decodeEnvelope_reset h, of 0] h show ?thesis by simp
qed

subsection \<open>Promises that stay open\<close>

text \<open>An exchange that has left the table without being settled is never settled by what follows.\<close>

lemma session_step_trace:
  assumes "session_step utf8 json (s, tr) (s', tr')" "\<And>j. armed j tr \<Longrightarrow> armed j ur"
  shows "\<exists>effs. tr' = tr @ effs \<and> session_step utf8 json (s, ur) (s', ur @ effs)"
  using assms(1)
proof cases
  case step_socket_closing
  then show ?thesis using session_step.step_socket_closing [of s utf8 json ur] by auto
next
  case (step_handlers op oc)
  then show ?thesis using session_step.step_handlers [of utf8 json s ur op oc] by auto
next
  case (step_exchange pl nr res effs)
  show ?thesis
    by (intro exI conjI, rule step_exchange(1), rule session_step.step_exchange [OF step_exchange(2)])
next
  case (step_timeout k effs)
  show ?thesis
    by (intro exI conjI, rule step_timeout(1),
        rule session_step.step_timeout [OF assms(2) [OF step_timeout(2)] step_timeout(3)])
next
  case (step_message data err effs)
  show ?thesis
    by (intro exI conjI, rule step_message(1), rule session_step.step_message [OF step_message(2)])
next
  case (step_close err effs)
  show ?thesis
    by (intro exI conjI, rule step_close(1), rule session_step.step_close [OF step_close(2)])
next
  case (step_socket_closed code reason effs)
  show ?thesis
    by (intro exI conjI, rule step_socket_closed(1), rule session_step.step_socket_closed [OF step_socket_closed(2)])
next
  case (step_socket_error effs)
  show ?thesis
    by (intro exI conjI, rule step_socket_error(1), rule session_step.step_socket_error [OF step_socket_error(2)])
qed

lemma lost_exchange_step:
  assumes inv: "session_inv s tr" and l: "life k tr = [SetTimer k, ClearTimer k]"
    and step: "session_step utf8 json (s, tr) (s', tr')"
  shows "life k tr' = [SetTimer k, ClearTimer k] \<and> session_inv s' tr'"
proof -
  let ?ur = "tr @ [Resolve k None]"
  have ok: "life_ok (pending_keys s) (nextClientStreamID s) k (life k tr)" using inv by (simp add: session_inv_def)
  then have k: "k \<notin> set (pending_keys s)" "k < nextClientStreamID s" "k mod 4 = 0"
    using l by (auto simp: life_ok_def split: if_splits)
  have "life_ok (pending_keys s) (nextClientStreamID s) j (life j ?ur)" for j
  proof (cases "j = k")
    case True
    then show ?thesis using k l by (simp add: life_ok_def life_ended_def)
  next
    case False
    then have "life j ?ur = life j tr" by simp
    then show ?thesis using inv by (simp only: session_inv_def)
  qed
  then have inv_ur: "session_inv s ?ur" using inv by (simp add: session_inv_def)
  have "armed j tr \<Longrightarrow> armed j ?ur" for j by (simp add: armed_def)
  then obtain effs where effs: "tr' = tr @ effs" "session_step utf8 json (s, ?ur) (s', ?ur @ effs)"
    using session_step_trace [OF step, of ?ur] by blast
  have inv': "session_inv s' tr'" by (rule session_step_inv [OF inv step])
  have "life_ok (pending_keys s') (nextClientStreamID s') k (life k (?ur @ effs))"
    by (rule session_inv_life [OF session_step_inv [OF inv_ur effs(2)]])
  then have "life_ok (pending_keys s') (nextClientStreamID s') k ([SetTimer k, ClearTimer k, Resolve k None] @ life k effs)"
    using l by simp
  then have "life k effs = []" by (auto simp: life_ok_def life_ended_def split: if_splits)
  then show ?thesis using effs l inv' by simp
qed

lemma lost_exchange_reach:
  assumes "session_reach utf8 json w w'" "session_inv (fst w) (snd w)" "life k (snd w) = [SetTimer k, ClearTimer k]"
  shows "life k (snd w') = [SetTimer k, ClearTimer k] \<and> session_inv (fst w') (snd w')"
  using assms
proof (induction rule: session_reach.induct)
  case (reach_step w' w'')
  then show ?case
    using lost_exchange_step [of "fst w'" "snd w'" k utf8 json "fst w''" "snd w''"] by simp
qed simp

text \<open>C18: When the last record of an answer completes bytes that are no Lyune frame, the exchange leaves
  the pending table and its timer is cleared before the decoder throws. Its promise is then neither
  resolved nor rejected, in any continuation of the session, closing it included.\<close>

theorem malformed_answer_never_settles:
  assumes "session_reach utf8 json (session_new op oc, []) (s, tr)"
    and "js_decodeEnvelope buf = Inr r" "e_type r = recordStream" "e_streamID r mod 4 = 0" "e_fin r"
    and "map_of (pending s) (e_streamID r) = Some p" "\<not> p_noResponse p"
    and "js_decodeFrames (concat (p_chunks p) @ e_payload r) = Inl e"
    and "handleMessage utf8 json s (DataBuffer buf) = (err, s1, effs)"
    and "session_reach utf8 json (s1, tr @ effs) (s2, tr2)"
  shows "filter settles (life (e_streamID r) tr2) = [] \<and> e_streamID r \<notin> set (pending_keys s2)"
proof -
  let ?k = "e_streamID r"
  note inv = reach_new_inv [OF assms(1)]
  have "handleResponse s r = (Some (WireError e), s\<lparr>pending := AList.delete ?k (pending s)\<rparr>, [ClearTimer ?k])"
    using handleResponse_last [OF assms(6,5)] assms(7,8) by (simp add: Let_def)
  then have effs: "effs = [ClearTimer ?k]"
    using assms(2,3,4,9) by (auto simp: handleMessage_eq handleMessage_try_def js_constants Let_def)
  have "life ?k tr = [SetTimer ?k]"
    using inv map_of_pending [OF assms(6)] by (auto simp: session_inv_def life_ok_def)
  then have l: "life ?k (tr @ effs) = [SetTimer ?k, ClearTimer ?k]" by (simp add: effs)
  have "session_inv s1 (tr @ effs)"
    using session_step_inv [OF inv step_message [OF assms(9)]] .
  then have l2: "life ?k tr2 = [SetTimer ?k, ClearTimer ?k]" and inv2: "session_inv s2 tr2"
    using lost_exchange_reach [OF assms(10)] l by simp_all
  have "life_ok (pending_keys s2) (nextClientStreamID s2) ?k [SetTimer ?k, ClearTimer ?k]"
    using session_inv_life [OF inv2, of ?k] unfolding l2 .
  then show ?thesis unfolding l2 by (simp add: life_ok_def split: if_splits)
qed

lemma bad_answer:
  "js_decodeEnvelope [1, 1, 1, 0, 0, 0, 0, 0, 0, 0, 0, 0, 0, 0, 0, 0, 0, 0, 0, 1, 9] =
     Inr \<lparr>e_type = recordStream, e_fin = True, e_streamID = 0, e_appError = 0, e_payload = [9]\<rparr>"
  "js_decodeFrames [9] = Inl FrameHeaderCut"
  by (simp add: js_decodeEnvelope_def js_constants seg_def Let_def)
     (simp add: js_decodeFrames_unfold js_frame_at_def)

theorem malformed_answer_never_settles_witness:
  "\<exists>err s1 effs. handleMessage (\<lambda>_. None) (\<lambda>_. None) demo_session
      (DataBuffer [1, 1, 1, 0, 0, 0, 0, 0, 0, 0, 0, 0, 0, 0, 0, 0, 0, 0, 0, 1, 9]) = (err, s1, effs)
    \<and> filter settles (life 0 (demo_trace @ effs)) = [] \<and> 0 \<notin> set (pending_keys s1)"
proof -
  let ?buf = "[1, 1, 1, 0, 0, 0, 0, 0, 0, 0, 0, 0, 0, 0, 0, 0, 0, 0, 0, 1, 9]"
  obtain err s1 effs where h: "handleMessage (\<lambda>_. None) (\<lambda>_. None) demo_session (DataBuffer ?buf) = (err, s1, effs)"
    by (cases "handleMessage (\<lambda>_. None) (\<lambda>_. None) demo_session (DataBuffer ?buf)") auto
  from malformed_answer_never_settles [OF demo_reach bad_answer(1) _ _ _ _ _ _ h reach_refl]
  show ?thesis using h bad_answer(2) by simp
qed

text \<open>C19: After a protocol error the session stays as it is: the handler's own \<open>socket.close(1002)\<close> is
  refused by the browser, so it ends in that exception, the status and the socket state unchanged
  and no close effect sent, although the handler means to close the session.\<close>

theorem protocol_error_leaves_session_open:
  assumes "handleMessage_try utf8 json s data = (Some e, s1, effs)"
  shows "handleMessage utf8 json s data = (Some InvalidAccess, s1, effs)
    \<and> status s1 = status s \<and> ready s1 = ready s \<and> CloseSocket 1002 \<notin> set effs"
  using assms
  by (auto simp: handleMessage_eq handleMessage_try_def handleResponse_def handlePush_def Let_def
      split: ws_data.splits sum.splits option.splits if_splits prod.splits)

theorem protocol_error_leaves_session_open_witness:
  "handleMessage (\<lambda>_. None) (\<lambda>_. None) demo_session (DataText ''hi'') = (Some InvalidAccess, demo_session, [])
   \<and> ready demo_session = OPEN"
  using protocol_error_leaves_session_open [of "\<lambda>_. None" "\<lambda>_. None" demo_session "DataText ''hi''" NotBinary demo_session "[]"]
  by (simp add: handleMessage_try_def)

text \<open>
  The promise of \<open>connect\<close>. A browser that keeps to the WHATWG standard fails a connection whose
  subprotocol the server did not confirm by itself, with an \<open>error\<close> event, so \<open>open\<close> comes only with
  \<open>lyune.v2\<close>. Then the first event settles the promise, the timer is disarmed, and no later event changes
  what the promise was settled with.
\<close>

fun browser_event :: "connect_event \<Rightarrow> bool" where
  "browser_event (ConnOpen prot) = (prot = ''lyune.v2'')"
| "browser_event _ = True"

fun connect_answer :: "bool \<Rightarrow> bool \<Rightarrow> connect_event \<Rightarrow> session_error + wss_session" where
  "connect_answer op oc (ConnOpen prot) = Inr (session_new op oc)"
| "connect_answer op oc ConnError = Inl ConnectFailedError"
| "connect_answer op oc ConnTimer = Inl ConnectTimeout"

lemma connect_settled_stays:
  "cn_promise c = Some r \<Longrightarrow> cn_promise (connect_event op oc c ev) = Some r"
  "\<not> cn_timer c \<Longrightarrow> \<not> cn_timer (connect_event op oc c ev)"
  by (auto simp: connect_event_def settle_def Let_def split: connect_event.split option.split)

lemma connect_settles_once:
  assumes "browser_event ev"
  shows "cn_promise (fold (\<lambda>e c. connect_event op oc c e) (ev # evs) connect_new) = Some (connect_answer op oc ev)
    \<and> \<not> cn_timer (fold (\<lambda>e c. connect_event op oc c e) (ev # evs) connect_new)"
proof -
  have "cn_promise (connect_event op oc connect_new ev) = Some (connect_answer op oc ev)"
    "\<not> cn_timer (connect_event op oc connect_new ev)"
    using assms by (cases ev; simp add: connect_event_def connect_new_def settle_def Let_def)+
  then show ?thesis
    by (induction evs rule: rev_induct) (simp_all add: connect_settled_stays)
qed

subsection \<open>Pushes\<close>

text \<open>In every run the pushes handed to \<open>onPush\<close> carry strictly increasing numbers, none above the
  session's counter: none is repeated or out of order, also while the page replaces its handlers.\<close>

theorem pushes_numbered_in_order:
  assumes "session_reach utf8 json (session_new op oc, []) (s, tr)"
  shows "sorted_wrt (<) (push_seqs tr) \<and> (\<forall>n \<in> set (push_seqs tr). n \<le> pushSequence s)"
  using reach_new_inv [OF assms] by (simp add: session_inv_def)

theorem pushes_numbered_in_order_witness:
  "sorted_wrt (<) (push_seqs demo_trace) \<and> push_seqs demo_trace = []"
  using pushes_numbered_in_order [OF demo_reach] by (simp add: demo_trace_def)

fun handlePushes :: "(bytes \<Rightarrow> string option) \<Rightarrow> (string \<Rightarrow> jsval option) \<Rightarrow> wss_session \<Rightarrow> js_envelope list \<Rightarrow> outcome" where
  "handlePushes utf8 json s [] = (None, s, [])"
| "handlePushes utf8 json s (r # rs) = (case handlePush utf8 json s r of
     (Some e, s1, effs) \<Rightarrow> (Some e, s1, effs)
   | (None, s1, effs) \<Rightarrow> (case handlePushes utf8 json s1 rs of (e, s2, effs2) \<Rightarrow> (e, s2, effs @ effs2)))"

definition push_half_chunks :: "wss_session \<Rightarrow> nat \<Rightarrow> bytes list" where
  "push_half_chunks s sid = (case map_of (pushes s) sid of None \<Rightarrow> [] | Some cs \<Rightarrow> cs)"

lemma handlePushes_reassembles:
  assumes "decodePush utf8 json (concat (push_half_chunks s sid) @ concat cs @ c) = Inr (targets, v)"
    "ready s = OPEN" "hasOnPush s"
  shows "\<exists>s'. handlePushes utf8 json s (map (answer_record sid False) cs @ [answer_record sid True c]) =
      (None, s', [OnPush \<lparr>pe_seq = pushSequence s + 1, pe_targets = targets, pe_payload = v\<rparr>,
                  Send (js_encodeEnvelope (answer_record sid True []))])
    \<and> map_of (pushes s') sid = None \<and> pushSequence s' = pushSequence s + 1 \<and> pending s' = pending s
    \<and> (\<forall>k. k \<noteq> sid \<longrightarrow> map_of (pushes s') k = map_of (pushes s) k)"
  using assms
proof (induction cs arbitrary: s)
  case Nil
  then show ?case
    by (auto simp: handlePush_def answer_record_def push_half_chunks_def Let_def delete_conv' split: option.splits)
next
  case (Cons d ds)
  let ?cs = "if 0 < length d then push_half_chunks s sid @ [d] else push_half_chunks s sid"
  let ?s1 = "s\<lparr>pushes := AList.update sid ?cs (pushes s)\<rparr>"
  have "handlePush utf8 json s (answer_record sid False d) = (None, ?s1, [])"
    by (simp add: handlePush_def answer_record_def push_half_chunks_def Let_def)
  moreover have "push_half_chunks ?s1 sid = ?cs"
    by (simp add: push_half_chunks_def update_conv)
  moreover have "decodePush utf8 json (concat ?cs @ concat ds @ c) = Inr (targets, v)"
    using Cons.prems by auto
  ultimately show ?case
    using Cons.IH [of ?s1] Cons.prems(2,3) by (auto simp: update_conv')
qed

text \<open>The bytes of a push: one OPEN frame to \<open>.peer\<close> whose body lists the targets before the payload.\<close>

definition push_body :: "nat list \<Rightarrow> bytes \<Rightarrow> bytes" where
  "push_body targets pl = be_enc 2 (length targets) @ concat (map (be_enc 8) targets) @ pl"

definition push_frame :: "nat list \<Rightarrow> bytes \<Rightarrow> bytes" where
  "push_frame targets pl = [0, 1] @ be_enc 2 (length (push_body targets pl)) @ [2, 1, 0, 0] @ push_body targets pl"

lemma length_targets: "length (concat (map (be_enc 8) ts)) = 8 * length ts"
  by (induction ts) auto

lemma push_targets_body:
  assumes "\<forall>t \<in> set post. t \<le> MAX_SAFE_INTEGER"
  shows "push_targets (be_enc 2 n @ concat (map (be_enc 8) (pre @ post)) @ pl) (length pre) (length post) = Inr post"
  using assms
proof (induction post arbitrary: pre)
  case Nil
  then show ?case by simp
next
  case (Cons t post)
  let ?body = "be_enc 2 n @ concat (map (be_enc 8) (pre @ t # post)) @ pl"
  have "?body = (be_enc 2 n @ concat (map (be_enc 8) pre)) @ be_enc 8 t @ (concat (map (be_enc 8) post) @ pl)"
    by simp
  then have sg: "seg (2 + length pre * 8) 8 ?body = be_enc 8 t"
    by (simp only:) (rule seg_append_mid; simp add: length_targets)
  have "t < 256 ^ 8" using Cons.prems by (simp add: MAX_SAFE_INTEGER_def)
  then have v: "safeU64 (be_dec (seg (2 + length pre * 8) 8 ?body)) = Inr t"
    unfolding sg using Cons.prems by (simp add: safeU64_def)
  have "push_targets ?body (length pre + 1) (length post) = Inr post"
    using Cons.IH [of "pre @ [t]"] Cons.prems by simp
  then show ?case using v by simp
qed

lemma decodePush_frame:
  assumes "\<forall>t \<in> set targets. t \<le> MAX_SAFE_INTEGER" "2 + 8 * length targets + length pl \<le> 65535"
    "jsonBody utf8 json pl = Inr v"
  shows "decodePush utf8 json (push_frame targets pl) = Inr (targets, v)"
proof -
  let ?b = "push_body targets pl"
  have len: "length ?b = 2 + 8 * length targets + length pl"
    by (simp add: push_body_def length_targets)
  have fr: "js_decodeFrames (push_frame targets pl) = Inr [\<lparr>jf_type = 0, jf_flags = 1, jf_dest = 2,
      jf_response = 1, jf_group = 0, jf_route = 0, jf_body = ?b\<rparr>]"
    using assms(2) len
    by (simp add: js_decodeFrames_unfold push_frame_def js_frame_at_def seg_def js_constants Let_def nth_append)
  have cnt: "be_dec (seg 0 2 ?b) = length targets"
    using assms(2) by (simp add: push_body_def seg_def)
  have tg: "push_targets ?b 0 (length targets) = Inr targets"
    using push_targets_body [OF assms(1), of "length targets" "[]" pl] by (simp add: push_body_def)
  have dr: "drop (2 + length targets * 8) ?b = pl"
    by (simp add: push_body_def length_targets)
  show ?thesis
    using fr cnt tg dr len assms(3) by (simp add: decodePush_def js_constants Let_def)
qed

text \<open>C11: A push of \<open>n\<close> targets reaches the page whole, however the gateway cut it into records: after the
  last record the session calls \<open>onPush\<close> once with the targets, the payload and the next number,
  answers with the FIN of its own half of the stream, and keeps nothing of the push.\<close>

theorem push_delivered_whole:
  assumes "\<forall>t \<in> set targets. t \<le> MAX_SAFE_INTEGER" "2 + 8 * length targets + length pl \<le> 65535"
    and "jsonBody utf8 json pl = Inr v" "concat cs @ c = push_frame targets pl"
    and "ready s = OPEN" "hasOnPush s" "map_of (pushes s) sid = None"
  shows "\<exists>s'. handlePushes utf8 json s (map (answer_record sid False) cs @ [answer_record sid True c]) =
      (None, s', [OnPush \<lparr>pe_seq = pushSequence s + 1, pe_targets = targets, pe_payload = v\<rparr>,
                  Send (js_encodeEnvelope (answer_record sid True []))])
    \<and> map_of (pushes s') sid = None \<and> pushSequence s' = pushSequence s + 1 \<and> pending s' = pending s
    \<and> (\<forall>k. k \<noteq> sid \<longrightarrow> map_of (pushes s') k = map_of (pushes s) k)"
  using decodePush_frame [OF assms(1-3)] assms(4-7)
  by (intro handlePushes_reassembles) (simp_all add: push_half_chunks_def)

theorem push_delivered_whole_witness:
  "\<exists>s'. handlePushes (\<lambda>_. Some []) (\<lambda>_. Some JNull) demo_session
      (map (answer_record 1 False) [[0, 1, 0, 10, 2, 1], [0, 0, 0, 1]] @
       [answer_record 1 True [0, 0, 0, 0, 0, 0, 0, 42]]) =
      (None, s', [OnPush \<lparr>pe_seq = 1, pe_targets = [42], pe_payload = JNull\<rparr>,
                  Send (js_encodeEnvelope (answer_record 1 True []))])"
proof -
  have "push_frame [42] [] = concat [[0, 1, 0, 10, 2, 1], [0, 0, 0, 1]] @ [0, 0, 0, 0, 0, 0, 0, 42]"
    by (simp add: push_frame_def push_body_def be_enc_numeral)
  then show ?thesis
    using push_delivered_whole [of "[42]" "[]" "\<lambda>_. Some []" "\<lambda>_. Some JNull" JNull
        "[[0, 1, 0, 10, 2, 1], [0, 0, 0, 1]]" "[0, 0, 0, 0, 0, 0, 0, 42]" demo_session 1]
    by (auto simp: MAX_SAFE_INTEGER_def jsonBody_def demo_session_def session_new_def)
qed

subsection \<open>Authentication and commands\<close>

text \<open>An answer that grants the session: an OPEN frame from the gateway with the success route, whose body is
  an id a browser number can hold, a time to live and a JSON payload with \<open>ok\<close>, a token and a user.\<close>

definition granting :: "(bytes \<Rightarrow> string option) \<Rightarrow> (string \<Rightarrow> jsval option) \<Rightarrow> js_frame option \<Rightarrow> bytes \<Rightarrow> jsval \<Rightarrow> jsval \<Rightarrow> bool" where
  "granting utf8 json resp body tk user \<longleftrightarrow> (\<exists>f pl ok. resp = Some f \<and> jf_body f = body \<and> jf_type f = frameOpen
     \<and> jf_dest f = destGateway \<and> jf_route f = 0x11 \<and> 12 \<le> length body \<and> be_dec (seg 0 8 body) \<le> MAX_SAFE_INTEGER
     \<and> jsonBody utf8 json (drop 12 body) = Inr pl \<and> js_get pl ''ok'' = Some ok \<and> js_truthy ok
     \<and> js_get pl ''token'' = Some tk \<and> js_truthy tk \<and> js_get pl ''user'' = Some user \<and> js_truthy user)"

lemma authenticate_granting:
  "granting utf8 json resp body tk user \<Longrightarrow> fst (authenticate_response utf8 json s resp) \<noteq> Inl e"
  by (auto simp: granting_def authenticate_response_def safeU64_def Let_def)

text \<open>C12: A session becomes authenticated exactly by an OPEN frame from the gateway with the success route, a
  grant of 12 bytes whose id a browser number can hold, and after it a payload whose \<open>ok\<close> is true and that carries a
  token and a user; token and status are then set together, from that answer. Every other answer is an error
  and leaves the session as it was.\<close>

theorem authenticate_outcome:
  "case authenticate_response utf8 json s resp of
     (Inl e, s') \<Rightarrow> s' = s \<and> (\<nexists>body tk user. granting utf8 json resp body tk user)
   | (Inr st, s') \<Rightarrow> (\<exists>body tk user. granting utf8 json resp body tk user
       \<and> st = (status s)\<lparr>st_authenticated := True, st_dest_id := Some (be_dec (seg 0 8 body)),
             st_ttl := Some (be_dec (seg 8 4 body)), st_user := Some user\<rparr>
       \<and> s' = s\<lparr>token := tk, status := st\<rparr>)"
proof (cases "authenticate_response utf8 json s resp")
  case (Pair res s')
  show ?thesis
  proof (cases res)
    case (Inl e)
    then have "s' = s"
      using Pair by (auto simp: authenticate_response_def Let_def split: option.splits if_splits sum.splits)
    then show ?thesis using Pair Inl authenticate_granting [of utf8 json resp _ _ _ s e] by auto
  next
    case (Inr st)
    with Pair obtain f where f: "resp = Some f"
      by (cases resp) (auto simp: authenticate_response_def)
    have c: "jf_type f = frameOpen" "jf_dest f = destGateway" "jf_route f = 0x11" "12 \<le> length (jf_body f)"
      using Pair Inr f by (auto simp: authenticate_response_def split: if_splits option.splits)
    then have safe: "be_dec (seg 0 8 (jf_body f)) \<le> MAX_SAFE_INTEGER"
      using Pair Inr f by (auto simp: authenticate_response_def safeU64_def split: if_splits)
    with c Pair Inr f obtain pl where pl: "jsonBody utf8 json (drop 12 (jf_body f)) = Inr pl"
      by (cases "jsonBody utf8 json (drop 12 (jf_body f))") (auto simp: authenticate_response_def safeU64_def Let_def)
    show ?thesis
      using c safe pl f Pair Inr
      by (auto simp: granting_def authenticate_response_def safeU64_def Let_def split: option.splits if_splits)
  qed
qed

text \<open>C13: A command leaves the page only with a token: it is one OPEN frame for the IM service whose JSON
  object carries the session's own token under \<open>token\<close>, whatever the caller put there, and it asks for
  no response exactly when it is of type \<open>typing\<close>.\<close>

theorem command_carries_token:
  assumes "command_request stringify s request = (Inr k, s', effs)"
  shows "js_truthy (token s) \<and>
    (\<exists>obj. map_of obj ''token'' = Some (token s)
      \<and> (\<forall>f. f \<noteq> ''token'' \<longrightarrow> map_of obj f = map_of request f)
      \<and> effs = [SetTimer k, Send (js_encodeEnvelope \<lparr>e_type = recordStream, e_fin = True, e_streamID = k,
          e_appError = 0, e_payload = [0, 1] @ be_enc 2 (length (stringify (JObj obj)))
            @ [1, if command_type request = ''typing'' then 1 else 0, 1, 2] @ stringify (JObj obj)\<rparr>)])"
proof -
  let ?obj = "AList.update ''token'' (token s) request"
  have tk: "js_truthy (token s)" using assms by (auto simp: command_request_def split: if_splits)
  then have len: "\<not> 65535 < length (stringify (JObj ?obj))"
    using assms by (auto simp: command_request_def js_encodeOpen_def js_encodeOpen_bytes_eq Let_def split: if_splits)
  have "map_of ?obj ''token'' = Some (token s)" "\<forall>f. f \<noteq> ''token'' \<longrightarrow> map_of ?obj f = map_of request f"
    by (simp_all add: update_conv')
  moreover have "effs = [SetTimer k, Send (js_encodeEnvelope \<lparr>e_type = recordStream, e_fin = True, e_streamID = k,
          e_appError = 0, e_payload = [0, 1] @ be_enc 2 (length (stringify (JObj ?obj)))
            @ [1, if command_type request = ''typing'' then 1 else 0, 1, 2] @ stringify (JObj ?obj)\<rparr>)]"
    using assms tk len
    by (auto simp: command_request_def js_encodeOpen_def js_encodeOpen_bytes_eq exchange_def js_constants Let_def
        split: if_splits)
  ultimately show ?thesis using tk by blast
qed

theorem command_carries_token_witness:
  "\<exists>k s' effs. command_request (\<lambda>_. [123, 125]) (demo_session\<lparr>token := JStr ''t''\<rparr>) [(''type'', JStr ''typing'')]
     = (Inr k, s', effs) \<and> length effs = 2"
proof -
  let ?s = "demo_session\<lparr>token := JStr ''t''\<rparr>"
  obtain k s' effs where h: "command_request (\<lambda>_. [123, 125]) ?s [(''type'', JStr ''typing'')] = (Inr k, s', effs)"
    by (simp add: command_request_def js_encodeOpen_def js_encodeOpen_bytes_eq exchange_def Let_def)
  from command_carries_token [OF h] show ?thesis using h by auto
qed

end

