(* ===== verification/Web_Client_Types.thy ===== *)
theory Web_Client_Types
  imports Web_Client_Props
begin

section \<open>The types of the browser session's values\<close>

text \<open>
  TypeScript's types say little about what comes off the wire. Here the tables of the session and what it
  hands out are shown to be well typed in every run: stream ids of the right class, chunks that are not
  empty, frames whose fields fit their bytes, targets that are safe integers.
\<close>

subsection \<open>Types\<close>

text \<open>What the wire gives: fields of their widths, and bodies that fit their length fields.\<close>

definition typed_frame :: "js_frame \<Rightarrow> bool" where
  "typed_frame f \<longleftrightarrow> jf_type f \<in> {frameOpen, frameData} \<and> jf_flags f < 256 \<and> jf_dest f < 256 \<and> jf_response f < 256 \<and>
     jf_group f < 256 \<and> jf_route f < 256 \<and> length (jf_body f) < 65536"

definition typed_chunks :: "bytes list \<Rightarrow> bool" where
  "typed_chunks cs \<longleftrightarrow> (\<forall>c \<in> set cs. 0 < length c \<and> length c < 2 ^ 32)"

definition typed_table :: "(nat \<Rightarrow> 'a \<Rightarrow> bool) \<Rightarrow> (nat \<times> 'a) list \<Rightarrow> bool" where
  "typed_table P xs \<longleftrightarrow> distinct (map fst xs) \<and> (\<forall>(k, x) \<in> set xs. P k x)"

definition typed_pending :: "nat \<Rightarrow> pending_stream \<Rightarrow> bool" where
  "typed_pending k p \<longleftrightarrow> k mod 4 = 0 \<and> typed_chunks (p_chunks p)"

definition typed_push :: "nat \<Rightarrow> bytes list \<Rightarrow> bool" where
  "typed_push k cs \<longleftrightarrow> k mod 4 = 1 \<and> k < 2 ^ 64 \<and> typed_chunks cs"

definition typed_session :: "wss_session \<Rightarrow> bool" where
  "typed_session s \<longleftrightarrow> typed_table typed_pending (pending s) \<and> typed_table typed_push (pushes s)"

fun typed_effect :: "effect \<Rightarrow> bool" where
  "typed_effect (Resolve k (Some f)) = typed_frame f"
| "typed_effect (OnPush e) = (\<forall>t \<in> set (pe_targets e). t \<le> MAX_SAFE_INTEGER)"
| "typed_effect (Send bs) = (envelopeHeaderSize \<le> length bs \<and> bs ! 0 = of_nat envelopeVersion)"
| "typed_effect e = True"

lemma unat_byte: "unat (b :: byte) < 256"
  using unsigned_less [of b] by simp

lemma frame_at_typed: "js_frame_at bs k = Inr (f, n) \<Longrightarrow> typed_frame f"
  using be_dec_less [of "seg (k + 2) 2 bs"]
  by (auto simp: js_frame_at_def typed_frame_def Let_def seg_def unat_byte split: if_splits)

lemma decodeFrames_typed: "js_decodeFrames bs = Inr fs \<Longrightarrow> f \<in> set fs \<Longrightarrow> typed_frame f"
proof (induction bs arbitrary: fs rule: length_induct)
  case (1 bs)
  show ?case
  proof (cases "bs = []")
    case False
    with "1.prems" obtain g n gs where g: "js_frame_at bs 0 = Inr (g, n)" "js_decodeFrames (drop n bs) = Inr gs" "fs = g # gs"
      by (subst (asm) js_decodeFrames_unfold) (auto split: sum.splits)
    have "length (drop n bs) < length bs" using js_frame_at_size [OF g(1)] by auto
    then have "f \<in> set gs \<Longrightarrow> typed_frame f" using "1.IH" g(2) by blast
    then show ?thesis using "1.prems"(2) g(3) frame_at_typed [OF g(1)] by auto
  qed (use 1 in \<open>simp add: js_decodeFrames_unfold [of "[]"]\<close>)
qed

lemma be_dec_bound: "length xs \<le> n \<Longrightarrow> be_dec xs < 256 ^ n"
  by (rule less_le_trans [OF be_dec_less]) (simp add: power_increasing)

lemma decodeEnvelope_typed:
  assumes "js_decodeEnvelope bs = Inr r"
  shows "e_streamID r < 2 ^ 64 \<and> length (e_payload r) < 2 ^ 32"
proof -
  have "be_dec (seg 4 8 bs) < 256 ^ 8" "be_dec (seg 16 4 bs) < 256 ^ 4" by (rule be_dec_bound, simp add: seg_def)+
  then show ?thesis using assms by (auto simp: js_decodeEnvelope_def Let_def js_constants split: if_splits)
qed

lemma push_targets_typed: "push_targets body i n = Inr ts \<Longrightarrow> t \<in> set ts \<Longrightarrow> t \<le> MAX_SAFE_INTEGER"
  by (induction n arbitrary: i ts) (auto simp: safeU64_def split: sum.splits if_splits)

lemma typed_send: "typed_effect (Send (js_encodeEnvelope r))"
  by (simp add: js_encodeEnvelope_eq js_constants)

subsection \<open>Every step keeps the types\<close>

lemma typed_table_Nil: "typed_table P []"
  by (simp add: typed_table_def)

lemma typed_table_update: "typed_table P xs \<Longrightarrow> P k x \<Longrightarrow> typed_table P (AList.update k x xs)"
  unfolding typed_table_def by (induction xs) (auto simp: update_keys)

lemma typed_table_delete: "typed_table P xs \<Longrightarrow> typed_table P (AList.delete k xs)"
  using distinct_delete [of xs k] by (auto simp: typed_table_def AList.delete_eq)

lemma typed_table_lookup: "typed_table P xs \<Longrightarrow> map_of xs k = Some x \<Longrightarrow> P k x"
  by (auto simp: typed_table_def dest: map_of_SomeD)

lemmas typed_tables = typed_table_Nil typed_table_update typed_table_delete

lemma typed_chunks_add: "typed_chunks cs \<Longrightarrow> length c < 2 ^ 32 \<Longrightarrow> typed_chunks (if 0 < length c then cs @ [c] else cs)"
  by (auto simp: typed_chunks_def)

lemma typed_ready: "typed_session (s\<lparr>ready := r\<rparr>) = typed_session s"
  by (simp add: typed_session_def)

lemma typed_handleClose: "typed_session s \<Longrightarrow> handleClose s r = (s', effs) \<Longrightarrow> typed_session s' \<and> list_all typed_effect effs"
  by (auto simp: handleClose_def typed_session_def typed_tables list_all_iff split: if_splits)

lemma typed_exchange: "typed_session s \<Longrightarrow> nextClientStreamID s mod 4 = 0 \<Longrightarrow> exchange s pl nr = (res, s', effs) \<Longrightarrow>
    typed_session s' \<and> list_all typed_effect effs"
  by (auto simp: exchange_def typed_session_def typed_pending_def typed_chunks_def typed_send Let_def simp del: typed_effect.simps(3)
      intro!: typed_table_update split: if_splits)

lemma typed_response:
  assumes "typed_session s" "length (e_payload r) < 2 ^ 32" "e_streamID r mod 4 = 0" "handleResponse s r = (err, s', effs)"
  shows "typed_session s' \<and> list_all typed_effect effs"
proof (cases "map_of (pending s) (e_streamID r)")
  case (Some p)
  define p1 where "p1 = (if 0 < length (e_payload r) then p\<lparr>p_chunks := p_chunks p @ [e_payload r]\<rparr> else p)"
  define s1 where "s1 = s\<lparr>pending := AList.update (e_streamID r) p1 (pending s)\<rparr>"
  have t: "typed_table typed_pending (pending s)" "typed_table typed_push (pushes s)" using assms(1) by (simp_all add: typed_session_def)
  have "typed_pending (e_streamID r) p1"
    using typed_table_lookup [OF t(1) Some] assms(2,3) by (auto simp: p1_def typed_pending_def typed_chunks_def)
  then have s1: "typed_session s1" using t by (simp add: s1_def typed_session_def typed_table_update)
  then have s2: "typed_session (s1\<lparr>pending := AList.delete (e_streamID r) (pending s1)\<rparr>)"
    by (simp add: typed_session_def typed_table_delete)
  have "handleResponse s r = (if \<not> e_fin r then (None, s1, [])
         else let s2 = s1\<lparr>pending := AList.delete (e_streamID r) (pending s1)\<rparr>; bs = js_concat (p_chunks p1)
              in if p_noResponse p1 then
                   (if length bs \<noteq> 0 then (None, s2, [ClearTimer (e_streamID r), Reject (e_streamID r) UnexpectedData])
                    else (None, s2, [ClearTimer (e_streamID r), Resolve (e_streamID r) None]))
                 else (case js_decodeFrames bs of
                     Inl e \<Rightarrow> (Some (WireError e), s2, [ClearTimer (e_streamID r)])
                   | Inr frames \<Rightarrow>
                       if length frames \<noteq> 1 then (None, s2, [ClearTimer (e_streamID r), Reject (e_streamID r) NotOneFrame])
                       else (None, s2, [ClearTimer (e_streamID r), Resolve (e_streamID r) (Some (frames ! 0))])))"
    by (simp only: handleResponse_def p1_def s1_def Let_def Some option.case)
  then show ?thesis using assms(4) s1 s2 decodeFrames_typed [OF _ nth_mem]
    by (auto simp: Let_def split: if_splits sum.splits)
qed (use assms in \<open>simp add: handleResponse_def\<close>)

lemma typed_handlePush:
  assumes "typed_session s" "length (e_payload r) < 2 ^ 32" "e_streamID r mod 4 = 1" "e_streamID r < 2 ^ 64"
    "handlePush utf8 json s r = (err, s', effs)"
  shows "typed_session s' \<and> list_all typed_effect effs"
proof -
  define chunks where "chunks = (let cs = case map_of (pushes s) (e_streamID r) of None \<Rightarrow> [] | Some cs \<Rightarrow> cs in
    if 0 < length (e_payload r) then cs @ [e_payload r] else cs)"
  have t: "typed_table typed_pending (pending s)" "typed_table typed_push (pushes s)" using assms(1) by (simp_all add: typed_session_def)
  then have "typed_push (e_streamID r) chunks"
    using assms(2-4) typed_table_lookup [OF t(2), of "e_streamID r"]
    by (auto simp: typed_push_def typed_chunks_def chunks_def split: option.split)
  then have "typed_table typed_push (AList.update (e_streamID r) chunks (pushes s))" "typed_table typed_push (AList.delete (e_streamID r) (pushes s))"
    by (simp_all add: typed_table_update typed_table_delete t)
  then have s0: "typed_session (s\<lparr>pushes := AList.update (e_streamID r) chunks (pushes s)\<rparr>)"
    and s1: "typed_session (s\<lparr>pushes := AList.delete (e_streamID r) (pushes s), pushSequence := n\<rparr>)"
      "typed_session (s\<lparr>pushes := AList.delete (e_streamID r) (pushes s)\<rparr>)" for n
    using t by (simp_all add: typed_session_def)
  have eq: "handlePush utf8 json s r = (if \<not> e_fin r then (None, s\<lparr>pushes := AList.update (e_streamID r) chunks (pushes s)\<rparr>, [])
      else let s1 = s\<lparr>pushes := AList.delete (e_streamID r) (pushes s)\<rparr> in
          (case decodePush utf8 json (js_concat chunks) of
             Inl e \<Rightarrow> (Some e, s1, [])
           | Inr (targets, v) \<Rightarrow>
             let s2 = s1\<lparr>pushSequence := pushSequence s1 + 1\<rparr> in
             (None, s2,
              (if hasOnPush s2 then [OnPush \<lparr>pe_seq = pushSequence s2, pe_targets = targets, pe_payload = v\<rparr>] else [])
              @ (if ready s2 = OPEN
                 then [Send (js_encodeEnvelope \<lparr>e_type = recordStream, e_fin = True, e_streamID = e_streamID r,
                                                e_appError = 0, e_payload = []\<rparr>)] else []))))"
    by (simp only: handlePush_def chunks_def Let_def)
  show ?thesis
  proof (cases "decodePush utf8 json (js_concat chunks)")
    case (Inl e)
    then show ?thesis using assms(5) s0 s1(2) by (auto simp: eq Let_def split: if_splits)
  next
    case (Inr x)
    obtain targets v where x: "decodePush utf8 json (js_concat chunks) = Inr (targets, v)" using Inr by (cases x) auto
    then have "\<forall>t \<in> set targets. t \<le> MAX_SAFE_INTEGER"
      using push_targets_typed by (auto simp: decodePush_def Let_def split: sum.splits if_splits)
    then show ?thesis using assms(5) s0 s1(1) x typed_send
      by (auto simp: eq Let_def simp del: typed_effect.simps(3) js_concat_eq split: if_splits)
  qed
qed

lemma typed_handleMessage:
  assumes "typed_session s" "handleMessage utf8 json s data = (err, s', effs)"
  shows "typed_session s' \<and> list_all typed_effect effs"
proof -
  obtain err1 where tried: "handleMessage_try utf8 json s data = (err1, s', effs)"
    using assms(2) by (auto simp: handleMessage_eq split: prod.splits option.splits)
  show ?thesis
  proof (cases "\<exists>buf r. data = DataBuffer buf \<and> js_decodeEnvelope buf = Inr r")
    case True
    then obtain buf r where d: "data = DataBuffer buf" "js_decodeEnvelope buf = Inr r" by blast
    note r = decodeEnvelope_typed [OF d(2)]
    note kept = typed_response [OF assms(1), of r err1 s' effs] typed_handlePush [OF assms(1), of r utf8 json err1 s' effs]
    show ?thesis
      using tried d r kept assms(1) typed_send
      by (auto simp: handleMessage_try_def Let_def typed_session_def typed_tables simp del: typed_effect.simps(3)
          split: if_splits option.splits prod.splits)
  qed (use tried assms(1) in \<open>auto simp: handleMessage_try_def split: ws_data.splits sum.splits\<close>)
qed

lemma typed_step:
  assumes "session_inv s tr" "typed_session s" "list_all typed_effect tr" "session_step utf8 json (s, tr) (s', tr')"
  shows "typed_session s' \<and> list_all typed_effect tr'"
  using assms(4)
proof cases
  case (step_exchange pl nr res effs)
  then show ?thesis using typed_exchange [OF assms(2)] assms(1,3) by (auto simp: session_inv_def)
next
  case (step_timeout k effs)
  then show ?thesis using assms(2,3) by (auto simp: exchange_timeout_def typed_session_def typed_tables)
next
  case (step_message data err effs)
  then show ?thesis using typed_handleMessage [OF assms(2)] assms(3) by auto
next
  case (step_close err effs)
  then show ?thesis using assms(2,3)
    by (auto simp: session_close_def typed_ready split: if_splits option.splits prod.splits dest!: typed_handleClose [rotated])
next
  case (step_socket_closed code reason effs)
  then show ?thesis using assms(2,3)
    by (auto simp: on_socket_close_def typed_ready dest!: typed_handleClose [rotated])
next
  case (step_socket_error effs)
  then show ?thesis using assms(2,3)
    by (auto simp: on_socket_error_def split: if_splits dest!: typed_handleClose [rotated])
qed (use assms(2,3) in \<open>auto simp: typed_session_def\<close>)

text \<open>C32: In every run of the browser session its tables are well typed: no id has two entries, exchanges are on
  ids of class 0 and half-received pushes on 64-bit ids of class 1, and no chunk of either is empty. So is
  what it hands out: the frame an exchange is resolved with is an OPEN or DATA frame whose fields fit their
  bytes, the targets of a push are safe integers, and everything it sends starts with the version byte of
  an envelope and has at least an envelope's header.\<close>

theorem session_values_typed:
  assumes "session_reach utf8 json (session_new op oc, []) (s, tr)"
  shows "typed_session s \<and> list_all typed_effect tr"
proof -
  have "session_inv (fst w') (snd w') \<and> typed_session (fst w') \<and> list_all typed_effect (snd w')"
    if "session_reach utf8 json w w'" "session_inv (fst w) (snd w)" "typed_session (fst w)" "list_all typed_effect (snd w)" for w w'
    using that
  proof (induction rule: session_reach.induct)
    case (reach_step w' w'')
    then show ?case using session_step_inv [of "fst w'" "snd w'" utf8 json "fst w''" "snd w''"]
      typed_step [of "fst w'" "snd w'" utf8 json "fst w''" "snd w''"] by simp
  qed simp
  from this [OF assms] show ?thesis
    using session_inv_new by (simp add: typed_session_def typed_tables session_new_def)
qed

theorem session_values_typed_witness:
  "typed_session demo_session \<and> list_all typed_effect demo_trace"
  using session_values_typed [OF demo_reach] by simp

end
