(* ===== verification/Framing.thy ===== *)
theory Framing
  imports Frame_Codec
begin

section \<open>Upstream framing (\<open>src/protocol/framing.zig\<close>)\<close>

text \<open>
  \<open>drainFrames\<close> cuts the byte stream of one exchange into frames. What does not yet make a frame
  waits in the spill buffer; \<open>completePending\<close> tops that one frame up from the next chunk, and every
  further frame of the chunk is scanned in place. The callback and its context are parameters, as in
  the code; so is the allocator, seen as the sizes it can grow the spill to. The refinement theorem
  says that all of this is \<open>scan\<close> on the concatenated bytes.
\<close>

datatype drain_error = DFrame frame_error | OutOfMemory

definition appendSlice :: "(nat \<Rightarrow> bool) \<Rightarrow> bytes \<Rightarrow> bytes \<Rightarrow> drain_error + bytes" where
  "appendSlice can_alloc spill xs =
    (if can_alloc (length spill + length xs) then Inr (spill @ xs) else Inl OutOfMemory)"

text \<open>
  The two halves of \<open>completePending\<close>: first the header, then the body. The result is the spill
  together with the error, or with the consumed count and the header, or with \<open>None\<close> for "not yet".
\<close>

definition completeBody ::
    "(nat \<Rightarrow> bool) \<Rightarrow> bytes \<Rightarrow> nat \<Rightarrow> bytes \<Rightarrow> nat \<Rightarrow> nat
      \<Rightarrow> bytes \<times> (drain_error + (nat \<times> frame_header) option)" where
  "completeBody can_alloc spill consumed data header_size max_frame_size =
    (case header_decode (take header_size spill) of Inl e \<Rightarrow> (spill, Inl (DFrame e))
     | Inr h \<Rightarrow>
       let total = frameSize h in
       if max_frame_size < total then (spill, Inl (DFrame FrameTooLarge))
       else if length spill < total
       then let take2 = min (total - length spill) (length data - consumed) in
         (case appendSlice can_alloc spill (take take2 (drop consumed data)) of
            Inl e \<Rightarrow> (spill, Inl e)
          | Inr sp2 \<Rightarrow>
            if length sp2 < total then (sp2, Inr None)
            else (sp2, Inr (Some (consumed + take2, h))))
       else (spill, Inr (Some (consumed, h))))"

definition completePending ::
    "(nat \<Rightarrow> bool) \<Rightarrow> bytes \<Rightarrow> bytes \<Rightarrow> nat \<Rightarrow> bytes \<times> (drain_error + (nat \<times> frame_header) option)" where
  "completePending can_alloc spill data max_frame_size =
    (case frame_type_decode (spill ! 0) of Inl e \<Rightarrow> (spill, Inl (DFrame e))
     | Inr ft \<Rightarrow>
       if ft = FtDatagram then (spill, Inl (DFrame DatagramOnStream))
       else let header_size = frame_type_headerSize ft in
         if length spill < header_size
         then let take1 = min (header_size - length spill) (length data) in
           (case appendSlice can_alloc spill (take take1 data) of
              Inl e \<Rightarrow> (spill, Inl e)
            | Inr sp1 \<Rightarrow>
                if length sp1 < header_size then (sp1, Inr None)
                else completeBody can_alloc sp1 take1 data header_size max_frame_size)
         else completeBody can_alloc spill 0 data header_size max_frame_size)"

datatype loop_end = LoopError frame_error | LoopStopped | LoopDone bytes

lemma scanner_next_progress:
  assumes "scanner_next sc = Inr (Some f, sc')"
  shows "length (remainder sc') < length (remainder sc)"
proof -
  from assms obtain n where p: "frame_parser (sc_max sc) (remainder sc) = Inr (Some (f, n))"
    and sc': "sc' = sc\<lparr>sc_offset := sc_offset sc + n\<rparr>"
    by (auto simp: scanner_next_parser split: sum.splits option.splits prod.splits)
  from frame_stream.item_used [OF p] sc' show ?thesis
    by (auto simp: remainder_def)
qed

text \<open>The loop \<open>while (try scanner.next()) |parsed|\<close> of the fast path.\<close>

function drain_loop ::
    "('s \<Rightarrow> frame \<Rightarrow> 's \<times> bool) \<Rightarrow> 's \<Rightarrow> scanner \<Rightarrow> 's \<times> loop_end" where
  "drain_loop onFrame ctx sc = (case scanner_next sc of
      Inl e \<Rightarrow> (ctx, LoopError e)
    | Inr (None, sc1) \<Rightarrow> (ctx, LoopDone (remainder sc1))
    | Inr (Some f, sc1) \<Rightarrow> (case onFrame ctx f of (ctx1, keep_going) \<Rightarrow>
        if \<not> keep_going then (ctx1, LoopStopped) else drain_loop onFrame ctx1 sc1))"
  by pat_completeness auto
termination
  by (relation "measure (\<lambda>(onFrame, ctx, sc). length (remainder sc))")
    (auto dest: scanner_next_progress)

declare drain_loop.simps [simp del]

text \<open>The whole call: the new context, the new spill, and the error it returned, if any.\<close>

definition drain_fast ::
    "('s \<Rightarrow> frame \<Rightarrow> 's \<times> bool) \<Rightarrow> (nat \<Rightarrow> bool) \<Rightarrow> 's \<Rightarrow> bytes \<Rightarrow> bytes \<Rightarrow> nat
      \<Rightarrow> 's \<times> bytes \<times> drain_error option" where
  "drain_fast onFrame can_alloc ctx spill rest max_frame_size =
    (case drain_loop onFrame ctx \<lparr>sc_data = rest, sc_offset = 0, sc_max = max_frame_size\<rparr> of
       (ctx1, LoopError e) \<Rightarrow> (ctx1, spill, Some (DFrame e))
     | (ctx1, LoopStopped) \<Rightarrow> (ctx1, spill, None)
     | (ctx1, LoopDone leftover) \<Rightarrow>
         if 0 < length leftover
         then (case appendSlice can_alloc spill leftover of
                 Inl e \<Rightarrow> (ctx1, spill, Some e) | Inr sp \<Rightarrow> (ctx1, sp, None))
         else (ctx1, spill, None))"

definition drainFrames ::
    "('s \<Rightarrow> frame \<Rightarrow> 's \<times> bool) \<Rightarrow> (nat \<Rightarrow> bool) \<Rightarrow> 's \<Rightarrow> bytes \<Rightarrow> bytes \<Rightarrow> nat
      \<Rightarrow> 's \<times> bytes \<times> drain_error option" where
  "drainFrames onFrame can_alloc ctx spill data max_frame_size =
    (if 0 < length spill then
       (case completePending can_alloc spill data max_frame_size of
          (sp, Inl e) \<Rightarrow> (ctx, sp, Some e)
        | (sp, Inr None) \<Rightarrow> (ctx, sp, None)
        | (sp, Inr (Some (consumed, h))) \<Rightarrow>
            (case onFrame ctx \<lparr>f_header = h, f_body = drop (headerSize h) sp, f_bytes = sp\<rparr> of
               (ctx1, keep_going) \<Rightarrow>
                 if \<not> keep_going then (ctx1, [], None)
                 else drain_fast onFrame can_alloc ctx1 [] (drop consumed data) max_frame_size))
     else drain_fast onFrame can_alloc ctx spill data max_frame_size)"

subsection \<open>Abstract behaviour\<close>

text \<open>\<open>deliver\<close> hands a list of frames to the callback until it asks to stop.\<close>

fun deliver :: "('s \<Rightarrow> frame \<Rightarrow> 's \<times> bool) \<Rightarrow> 's \<Rightarrow> frame list \<Rightarrow> 's \<times> bool" where
  "deliver onFrame ctx [] = (ctx, True)"
| "deliver onFrame ctx (f # fs) = (case onFrame ctx f of (ctx1, keep_going) \<Rightarrow>
     if keep_going then deliver onFrame ctx1 fs else (ctx1, False))"

definition drain_spec ::
    "('s \<Rightarrow> frame \<Rightarrow> 's \<times> bool) \<Rightarrow> 's \<Rightarrow> bytes \<Rightarrow> nat \<Rightarrow> 's \<times> bytes \<times> frame_error option" where
  "drain_spec onFrame ctx bs m = (case scan (frame_parser m) bs of (fs, err, rest) \<Rightarrow>
     (case deliver onFrame ctx fs of
        (ctx1, True) \<Rightarrow> (ctx1, (if err = None then rest else []), err)
      | (ctx1, False) \<Rightarrow> (ctx1, [], None)))"

lemma drain_loop_scan:
  "drain_loop onFrame ctx sc = (case scan (frame_parser (sc_max sc)) (remainder sc) of (fs, err, rest) \<Rightarrow>
     (case deliver onFrame ctx fs of
        (ctx1, True) \<Rightarrow> (ctx1, (case err of None \<Rightarrow> LoopDone rest | Some e \<Rightarrow> LoopError e))
      | (ctx1, False) \<Rightarrow> (ctx1, LoopStopped)))"
proof (induction onFrame ctx sc rule: drain_loop.induct)
  case (1 onFrame ctx sc)
  let ?p = "frame_parser (sc_max sc)"
  show ?case
  proof (cases "?p (remainder sc)")
    case (Inl e)
    then show ?thesis
      by (simp add: drain_loop.simps [of onFrame ctx sc] scanner_next_parser scan_error)
  next
    case (Inr r)
    show ?thesis
    proof (cases r)
      case None
      with Inr show ?thesis
        by (simp add: drain_loop.simps [of onFrame ctx sc] scanner_next_parser scan_need_more)
    next
      case (Some it)
      then obtain f n where it: "?p (remainder sc) = Inr (Some (f, n))"
        using Inr by (cases it) auto
      define sc1 where "sc1 = sc\<lparr>sc_offset := sc_offset sc + n\<rparr>"
      have step: "scanner_next sc = Inr (Some f, sc1)"
        by (simp add: scanner_next_parser it sc1_def)
      have rem: "remainder sc1 = drop n (remainder sc)" "sc_max sc1 = sc_max sc"
        by (simp_all add: remainder_def sc1_def add.commute)
      have sc: "scan ?p (remainder sc) = (case scan ?p (drop n (remainder sc)) of (xs, r) \<Rightarrow> (f # xs, r))"
        using scan_item [where p = ?p, OF it] frame_stream.item_used [OF it] by simp
      obtain ctx1 k where of: "onFrame ctx f = (ctx1, k)" by (cases "onFrame ctx f") auto
      show ?thesis
      proof (cases k)
        case True
        have "drain_loop onFrame ctx1 sc1 = (case scan ?p (drop n (remainder sc)) of (fs, err, rest) \<Rightarrow>
           (case deliver onFrame ctx1 fs of
              (ctx1, True) \<Rightarrow> (ctx1, (case err of None \<Rightarrow> LoopDone rest | Some e \<Rightarrow> LoopError e))
            | (ctx1, False) \<Rightarrow> (ctx1, LoopStopped)))"
          using 1 [OF step] of True rem by simp
        then show ?thesis
          using step of True by (simp add: drain_loop.simps [of onFrame ctx sc] sc split: prod.splits)
      next
        case False
        then show ?thesis
          using step of by (simp add: drain_loop.simps [of onFrame ctx sc] sc split: prod.splits)
      qed
    qed
  qed
qed

subsection \<open>Topping up the pending frame\<close>

definition complete_spec :: "nat \<Rightarrow> bytes \<Rightarrow> bytes \<Rightarrow> bytes \<times> (drain_error + (nat \<times> frame_header) option) \<Rightarrow> bool" where
  "complete_spec m spill data res \<longleftrightarrow> (case frame_parser m (spill @ data) of
      Inl e \<Rightarrow> snd res = Inl (DFrame e)
    | Inr None \<Rightarrow> res = (spill @ data, Inr None)
    | Inr (Some (f, n)) \<Rightarrow> length spill \<le> n \<and>
        res = (f_bytes f, Inr (Some (n - length spill, f_header f))))"

lemma completeBody_spec:
  assumes bs: "spill @ data = bs" and ft: "frame_type_decode (bs ! 0) = Inr ft" "ft \<noteq> FtDatagram"
    and hs: "frame_type_headerSize ft \<le> length sp" and sp: "sp = take (length spill + c) bs"
    and c: "c \<le> length data" and small: "\<And>h. header_decode (take (frame_type_headerSize ft) bs) = Inr h
        \<Longrightarrow> length sp \<le> frameSize h \<or> m < frameSize h"
    and alloc: "\<And>n. n \<le> max 8 m \<Longrightarrow> can_alloc n" and ne: "spill \<noteq> []"
  shows "complete_spec m spill data (completeBody can_alloc sp c data (frame_type_headerSize ft) m)"
proof -
  have lsp: "length sp = length spill + c" using sp bs c by auto
  have tk: "take (frame_type_headerSize ft) sp = take (frame_type_headerSize ft) bs"
    using hs lsp sp by simp
  have bsne: "bs \<noteq> []" using bs ne by auto
  have hbs: "frame_type_headerSize ft \<le> length bs" using hs sp by simp
  show ?thesis
  proof (cases "header_decode (take (frame_type_headerSize ft) bs)")
    case (Inl e)
    then show ?thesis
      using ft hbs bsne by (simp add: complete_spec_def bs completeBody_def tk frame_parser_def2)
  next
    case (Inr h)
    show ?thesis
    proof (cases "m < frameSize h")
      case True
      then show ?thesis
        using Inr ft hbs bsne by (simp add: complete_spec_def bs completeBody_def tk frame_parser_def2)
    next
      case False
      have parse: "frame_parser m bs = (if length bs < frameSize h then Inr None
         else Inr (Some (\<lparr>f_header = h, f_body = drop (frame_type_headerSize ft) (take (frameSize h) bs),
                          f_bytes = take (frameSize h) bs\<rparr>, frameSize h)))"
        using Inr ft hbs bsne False by (simp add: frame_parser_def2)
      have le: "length sp \<le> frameSize h" using small [OF Inr] False by simp
      define t where "t = min (frameSize h - length sp) (length data - c)"
      have tt: "min (frameSize h - (length spill + c)) (length data - c) = t"
        unfolding t_def lsp by simp
      have dr: "drop c data = drop (length sp) bs"
        using bs lsp by (metis drop_append append_Nil drop_drop add.commute diff_add_inverse drop_all le_add1)
      have ext: "sp @ take t (drop c data) = take (length sp + t) bs"
        unfolding dr using sp lsp by (simp add: take_add)
      have lb: "length bs = length spill + length data" using bs by auto
      have "length sp + t \<le> max 8 m" using le False unfolding t_def by simp
      then have al: "appendSlice can_alloc sp (take t (drop c data)) = Inr (take (length sp + t) bs)"
        if "length sp < frameSize h"
        using alloc ext that unfolding appendSlice_def t_def by (simp add: min_def)
      show ?thesis
      proof (cases "length sp < frameSize h")
        case lt: True
        show ?thesis
        proof (cases "length bs < frameSize h")
          case True
          then have t: "length sp + t = length bs" and "t = length data - c"
            using lb lsp c by (auto simp: t_def)
          then show ?thesis
            using al [OF lt] Inr False True lt
            by (simp add: complete_spec_def bs completeBody_def tk parse Let_def t_def [symmetric])
        next
          case nshort: False
          then have t: "length sp + t = frameSize h" and "c + t = frameSize h - length spill"
            using lb lsp c lt by (auto simp: t_def)
          then show ?thesis
            using al [OF lt] Inr False nshort lt lsp
            by (simp add: complete_spec_def bs completeBody_def tk parse Let_def tt)
        qed
      next
        case nlt: False
        then have "length sp = frameSize h" using le by simp
        moreover have "take (frameSize h) bs = sp" using calculation sp lsp by simp
        ultimately show ?thesis
          using Inr False lsp lb c
          by (auto simp: complete_spec_def bs completeBody_def tk parse Let_def)
      qed
    qed
  qed
qed

lemma completePending_spec:
  assumes idle: "frame_parser m spill = Inr None" and ne: "spill \<noteq> []"
    and alloc: "\<And>n. n \<le> max 8 m \<Longrightarrow> can_alloc n"
  shows "complete_spec m spill data (completePending can_alloc spill data m)"
proof -
  from idle ne obtain ft where ft: "frame_type_decode (spill ! 0) = Inr ft" "ft \<noteq> FtDatagram"
    by (auto simp: frame_parser_def2 split: if_splits sum.splits)
  then have ft': "frame_type_decode ((spill @ data) ! 0) = Inr ft"
    using ne by (simp add: nth_append)
  have hs8: "frame_type_headerSize ft \<le> 8" by (cases ft) (auto simp: frame_sizes)
  show ?thesis
  proof (cases "length spill < frame_type_headerSize ft")
    case True
    define t where "t = min (frame_type_headerSize ft - length spill) (length data)"
    have al: "appendSlice can_alloc spill (take t data) = Inr (spill @ take t data)"
      using alloc hs8 True by (auto simp: appendSlice_def t_def min_def)
    show ?thesis
    proof (cases "length spill + t < frame_type_headerSize ft")
      case short: True
      then have "take t data = data" and "length (spill @ data) < frame_type_headerSize ft"
        using True by (auto simp: t_def)
      then show ?thesis
        using al ft ft' ne True
        by (simp add: complete_spec_def completePending_def Let_def t_def [symmetric] frame_parser_def2)
    next
      case full: False
      have "complete_spec m spill data
          (completeBody can_alloc (spill @ take t data) t data (frame_type_headerSize ft) m)"
        using full True ft' ft(2) alloc ne
        by (intro completeBody_spec [OF refl])
           (auto simp: t_def min_def frameSize_def headerSize_def frame_type_decode_Inr nth_append
             dest!: header_decode_type)
      moreover have "min (length data) t = t" by (simp add: t_def)
      ultimately show ?thesis
        using al ft full True by (simp add: completePending_def Let_def t_def [symmetric])
    qed
  next
    case False
    have "complete_spec m spill data (completeBody can_alloc spill 0 data (frame_type_headerSize ft) m)"
      using False ft ft' alloc ne idle
      by (intro completeBody_spec [OF refl])
         (auto simp: frame_parser_def2 split: if_splits)
    then show ?thesis
      using ft False by (simp add: completePending_def)
  qed
qed

subsection \<open>Refinement\<close>

text \<open>
  What a caller may rely on: after an error the connection is closed and the spill is dropped, so
  \<open>drain_view\<close> forgets it.
\<close>

definition drain_view :: "'s \<times> bytes \<times> 'e option \<Rightarrow> 's \<times> bytes \<times> 'e option" where
  "drain_view r = (case r of (ctx, sp, err) \<Rightarrow> (ctx, (if err = None then sp else []), err))"

definition spec_view :: "'s \<times> bytes \<times> frame_error option \<Rightarrow> 's \<times> bytes \<times> drain_error option" where
  "spec_view r = (case r of (ctx, sp, err) \<Rightarrow> (ctx, sp, map_option DFrame err))"

lemma drain_fast_spec:
  assumes alloc: "\<And>n. n \<le> max 8 m \<Longrightarrow> can_alloc n"
  shows "drain_view (drain_fast onFrame can_alloc ctx [] data m) = spec_view (drain_spec onFrame ctx data m)"
proof -
  obtain fs err rest where sc: "scan (frame_parser m) data = (fs, err, rest)"
    by (cases "scan (frame_parser m) data") auto
  obtain ctx1 k where dl: "deliver onFrame ctx fs = (ctx1, k)" by (cases "deliver onFrame ctx fs") auto
  have al: "err = None \<Longrightarrow> appendSlice can_alloc [] rest = Inr rest"
    using sc alloc frame_parser_NoneD [OF frame_stream.scan_rest_idle, of m data fs rest]
    by (auto simp: appendSlice_def)
  show ?thesis
    using sc dl al
    by (cases k; cases err)
       (auto simp: drain_fast_def drain_loop_scan remainder_def drain_spec_def drain_view_def spec_view_def)
qed

lemma frame_parser_frame_eq:
  "frame_parser m bs = Inr (Some (f, n)) \<Longrightarrow>
    \<lparr>f_header = f_header f, f_body = drop (headerSize (f_header f)) (f_bytes f), f_bytes = f_bytes f\<rparr> = f"
  by (elim frame_parser_ItemE) (auto simp: frame_of_def frame_ok_def dest: header_wf_not_datagram)

theorem drainFrames_spec:
  assumes idle: "frame_parser m spill = Inr None" and alloc: "\<And>n. n \<le> max 8 m \<Longrightarrow> can_alloc n"
  shows "drain_view (drainFrames onFrame can_alloc ctx spill data m) =
    spec_view (drain_spec onFrame ctx (spill @ data) m)"
proof (cases "spill = []")
  case True
  then show ?thesis using alloc by (simp add: drainFrames_def drain_fast_spec)
next
  case False
  have cs: "complete_spec m spill data (completePending can_alloc spill data m)"
    using idle False alloc by (rule completePending_spec)
  show ?thesis
  proof (cases "frame_parser m (spill @ data)")
    case (Inl e)
    then show ?thesis
      using cs False
      by (cases "completePending can_alloc spill data m")
         (auto simp: complete_spec_def drainFrames_def drain_spec_def scan_error drain_view_def spec_view_def)
  next
    case (Inr r)
    show ?thesis
    proof (cases r)
      case None
      then show ?thesis
        using cs False Inr
        by (auto simp: complete_spec_def drainFrames_def drain_spec_def scan_need_more drain_view_def spec_view_def)
    next
      case (Some it)
      then obtain f n where it: "frame_parser m (spill @ data) = Inr (Some (f, n))"
        using Inr by (cases it) auto
      have n: "length spill \<le> n"
        and comp: "completePending can_alloc spill data m = (f_bytes f, Inr (Some (n - length spill, f_header f)))"
        using cs by (auto simp: complete_spec_def it)
      have sc: "scan (frame_parser m) (spill @ data) =
          (case scan (frame_parser m) (drop (n - length spill) data) of (xs, r) \<Rightarrow> (f # xs, r))"
        using scan_item [where p = "frame_parser m", OF it] frame_stream.item_used [OF it] n by simp
      show ?thesis
      proof (cases "onFrame ctx f")
        case (Pair ctx1 k)
        have fast: "drain_view (drain_fast onFrame can_alloc ctx1 [] (drop (n - length spill) data) m) =
            spec_view (drain_spec onFrame ctx1 (drop (n - length spill) data) m)"
          using alloc by (rule drain_fast_spec)
        show ?thesis
          using Pair False comp frame_parser_frame_eq [OF it] fast
          by (cases k)
             (auto simp: drainFrames_def drain_spec_def sc drain_view_def spec_view_def split: prod.splits)
      qed
    qed
  qed
qed

text \<open>Consecutive transport callbacks on one stream: the spill is carried from one to the next.\<close>

fun drain_chunks ::
    "('s \<Rightarrow> frame \<Rightarrow> 's \<times> bool) \<Rightarrow> (nat \<Rightarrow> bool) \<Rightarrow> 's \<Rightarrow> bytes \<Rightarrow> nat \<Rightarrow> bytes list
      \<Rightarrow> 's \<times> bytes \<times> drain_error option" where
  "drain_chunks onFrame can_alloc ctx spill m [] = (ctx, spill, None)"
| "drain_chunks onFrame can_alloc ctx spill m (c # cs) =
    (case drainFrames onFrame can_alloc ctx spill c m of
       (ctx1, sp1, Some e) \<Rightarrow> (ctx1, sp1, Some e)
     | (ctx1, sp1, None) \<Rightarrow> drain_chunks onFrame can_alloc ctx1 sp1 m cs)"

lemma deliver_all: "(\<And>ctx f. snd (onFrame ctx f)) \<Longrightarrow> snd (deliver onFrame ctx fs)"
  by (induction fs arbitrary: ctx) (auto split: prod.splits simp: prod_eq_iff)

lemma deliver_append:
  "(\<And>ctx f. snd (onFrame ctx f)) \<Longrightarrow>
    deliver onFrame ctx (fs @ gs) = deliver onFrame (fst (deliver onFrame ctx fs)) gs"
proof (induction fs arbitrary: ctx)
  case Nil
  then show ?case by simp
next
  case (Cons f fs)
  then show ?case using Cons.prems [of ctx f] by (cases "onFrame ctx f") auto
qed

lemma drain_spec_continue:
  assumes "\<And>ctx f. snd (onFrame ctx f)"
  shows "drain_spec onFrame ctx bs m = (case scan (frame_parser m) bs of (fs, err, rest) \<Rightarrow>
     (fst (deliver onFrame ctx fs), (if err = None then rest else []), err))"
  using deliver_all [of onFrame, OF assms]
  by (auto simp: drain_spec_def split: prod.splits bool.splits) (metis snd_conv)+

lemma drain_chunks_spec:
  assumes keep: "\<And>ctx f. snd (onFrame ctx f)" and alloc: "\<And>n. n \<le> max 8 m \<Longrightarrow> can_alloc n"
  shows "frame_parser m spill = Inr None \<Longrightarrow>
    drain_view (drain_chunks onFrame can_alloc ctx spill m cs) =
    spec_view (drain_spec onFrame ctx (spill @ concat cs) m)"
proof (induction cs arbitrary: ctx spill)
  case Nil
  then show ?case
    by (simp add: drain_spec_def scan_need_more drain_view_def spec_view_def)
next
  case (Cons c cs)
  obtain ctx1 sp1 e1 where dr: "drainFrames onFrame can_alloc ctx spill c m = (ctx1, sp1, e1)"
    by (cases "drainFrames onFrame can_alloc ctx spill c m") auto
  obtain fs err rest where sc: "scan (frame_parser m) (spill @ c) = (fs, err, rest)"
    by (cases "scan (frame_parser m) (spill @ c)") auto
  have step: "ctx1 = fst (deliver onFrame ctx fs)" "e1 = map_option DFrame err" "err = None \<longrightarrow> sp1 = rest"
    using drainFrames_spec [where spill = spill and data = c and ctx = ctx and onFrame = onFrame
        and m = m and can_alloc = can_alloc] Cons.prems alloc
    by (auto simp: dr drain_view_def spec_view_def drain_spec_continue [OF keep] sc split: if_splits)
  show ?case
  proof (cases err)
    case None
    then have idle: "frame_parser m sp1 = Inr None"
      using frame_stream.scan_rest_idle [of m "spill @ c" fs rest] sc step by simp
    have "scan (frame_parser m) (spill @ concat (c # cs)) =
        (case scan (frame_parser m) (rest @ concat cs) of (ys, r) \<Rightarrow> (fs @ ys, r))"
      using frame_stream.scan_append [of m "spill @ c" "concat cs"] sc None by simp
    then show ?thesis
      using Cons.IH [OF idle, of ctx1] dr step None
      by (auto simp: drain_spec_continue [OF keep] deliver_append [OF keep] split: prod.splits)
  next
    case (Some e)
    have "scan (frame_parser m) (spill @ concat (c # cs)) = (fs, Some e, rest @ concat cs)"
      using frame_stream.scan_append [of m "spill @ c" "concat cs"] sc Some by simp
    then show ?thesis
      using dr step Some by (simp add: drain_spec_continue [OF keep] drain_view_def spec_view_def)
  qed
qed

subsection \<open>Properties\<close>

text \<open>One call of \<open>drainFrames\<close> does what scanning the concatenation of the left-over and the new
  chunk would do: the same frames to the callback in the same order, the same error, the same
  left-over, although it only ever copies the one frame that straddles the two.\<close>

theorem drain_refines_scan:
  assumes "frame_parser m spill = Inr None" "\<And>n. n \<le> max 8 m \<Longrightarrow> can_alloc n"
  shows "drain_view (drainFrames onFrame can_alloc ctx spill data m) =
    spec_view (drain_spec onFrame ctx (spill @ data) m)"
  by (rule drainFrames_spec [OF assms])

theorem drain_refines_scan_witness:
  "drain_view (drainFrames (\<lambda>ctx f. (ctx @ [f], True)) (\<lambda>_. True) [] [1, 1] [0, 1, 7] 100) =
    spec_view (drain_spec (\<lambda>ctx f. (ctx @ [f], True)) [] ([1, 1] @ [0, 1, 7]) 100)"
  by (rule drain_refines_scan) (simp_all add: frame_parser_def2 frame_type_decode_def frame_sizes)

text \<open>However the transport cuts the bytes of a stream into callbacks, the callback sees the same
  frames and the caller the same error and left-over.\<close>

theorem drain_chunking_irrelevant:
  assumes "\<And>ctx f. snd (onFrame ctx f)" "\<And>n. n \<le> max 8 m \<Longrightarrow> can_alloc n" "concat cs = concat ds"
  shows "drain_view (drain_chunks onFrame can_alloc ctx [] m cs) = drain_view (drain_chunks onFrame can_alloc ctx [] m ds)"
  using drain_chunks_spec [where cs = cs and onFrame = onFrame and m = m and can_alloc = can_alloc and ctx = ctx and spill = "[]"]
    drain_chunks_spec [where cs = ds and onFrame = onFrame and m = m and can_alloc = can_alloc and ctx = ctx and spill = "[]"]
    assms frame_stream.empty [of m] by simp

theorem drain_chunking_irrelevant_witness:
  "drain_view (drain_chunks (\<lambda>ctx f. (ctx @ [f], True)) (\<lambda>_. True) [] [] 100 [[1], [1, 0, 1], [7, 1]]) =
   drain_view (drain_chunks (\<lambda>ctx f. (ctx @ [f], True)) (\<lambda>_. True) [] [] 100 [[1, 1, 0, 1, 7, 1]])"
  by (rule drain_chunking_irrelevant) simp_all

text \<open>The left-over a call keeps is always the beginning of one frame that could still be completed,
  and shorter than the frame limit (or than a header): an attacker cannot make the spill grow.\<close>

theorem spill_bounded:
  assumes "frame_parser m spill = Inr None" "\<And>n. n \<le> max 8 m \<Longrightarrow> can_alloc n"
    and "drainFrames onFrame can_alloc ctx spill data m = (ctx', spill', None)"
  shows "frame_parser m spill' = Inr None \<and> length spill' < max 8 m"
proof -
  obtain fs err rest where sc: "scan (frame_parser m) (spill @ data) = (fs, err, rest)"
    by (cases "scan (frame_parser m) (spill @ data)") auto
  have "spec_view (drain_spec onFrame ctx (spill @ data) m) = (ctx', spill', None)"
    using drainFrames_spec [where onFrame = onFrame and ctx = ctx and data = data and m = m and spill = spill
        and can_alloc = can_alloc] assms
    by (simp add: drain_view_def)
  then have "spill' = [] \<or> err = None \<and> spill' = rest"
    using sc by (auto simp: drain_spec_def spec_view_def split: prod.splits bool.splits)
  then have "frame_parser m spill' = Inr None"
    using frame_stream.scan_rest_idle [of m "spill @ data" fs rest] sc frame_stream.empty by auto
  then show ?thesis using frame_parser_NoneD by simp
qed

theorem spill_bounded_witness:
  "\<exists>sp. drainFrames (\<lambda>(ctx :: unit) f. (ctx, True)) (\<lambda>_. True) () [] [1] 100 = ((), sp, None) \<and> length sp < 100"
proof -
  have "scanner_next \<lparr>sc_data = [1], sc_offset = 0, sc_max = 100\<rparr> = Inr (None, \<lparr>sc_data = [1], sc_offset = 0, sc_max = 100\<rparr>)"
    by (simp add: scanner_next_parser remainder_def frame_parser_def2 frame_type_decode_def frame_sizes)
  then have d: "drainFrames (\<lambda>(ctx :: unit) f. (ctx, True)) (\<lambda>_. True) () [] [1] 100 = ((), [1], None)"
    by (simp add: drainFrames_def drain_fast_def drain_loop.simps remainder_def appendSlice_def)
  from spill_bounded [OF _ _ d] d show ?thesis using frame_stream.empty [of 100] by simp
qed

text \<open>A stream of well-formed frames is delivered frame by frame.\<close>

lemma scan_frames:
  assumes "\<forall>(h, body) \<in> set fs. frame_ok m h body"
  shows "scan (frame_parser m) (concat (map (\<lambda>(h, body). header_bytes h @ body) fs)) =
    (map (\<lambda>(h, body). frame_of h body) fs, None, [])"
  using assms
proof (induction fs)
  case Nil
  then show ?case by (simp add: frame_stream.scan_Nil)
next
  case (Cons a fs)
  obtain h body where a: "a = (h, body)" by (cases a) auto
  let ?rest = "concat (map (\<lambda>(h, body). header_bytes h @ body) fs)"
  have ok: "frame_ok m h body" using Cons.prems a by simp
  then have len: "length (header_bytes h @ body) = frameSize h"
    using length_frame_bytes by (auto simp: frame_ok_def)
  have p: "frame_parser m (header_bytes h @ body @ ?rest) = Inr (Some (frame_of h body, frameSize h))"
    by (rule frame_parser_frame [OF ok])
  have "drop (frameSize h) (header_bytes h @ body @ ?rest) = ?rest"
    using len by (metis append.assoc append_eq_conv_conj)
  then show ?case
    using scan_item [where p = "frame_parser m", OF p] frame_stream.item_used [OF p] Cons.IH Cons.prems a by simp
qed

text \<open>C3: Frames put one after the other on a stream, in whatever pieces they arrive, reach the callback as
  these frames and no others, in order, and nothing is left over.\<close>

theorem frames_delivered_exactly:
  assumes "\<forall>(h, body) \<in> set fs. frame_ok m h body" "\<And>n. n \<le> max 8 m \<Longrightarrow> can_alloc n"
    and "concat cs = concat (map (\<lambda>(h, body). header_bytes h @ body) fs)"
  shows "drain_chunks (\<lambda>seen f. (seen @ [f], True)) can_alloc [] [] m cs =
    (map (\<lambda>(h, body). frame_of h body) fs, [], None)"
proof -
  let ?on = "\<lambda>seen (f :: frame). (seen @ [f], True)"
  have dl: "deliver ?on seen gs = (seen @ gs, True)" for seen gs
    by (induction gs arbitrary: seen) auto
  have "drain_view (drain_chunks ?on can_alloc [] [] m cs) = spec_view (drain_spec ?on [] (concat cs) m)"
    using drain_chunks_spec [where onFrame = ?on and m = m and can_alloc = can_alloc and spill = "[]"] assms(2)
      frame_stream.empty by simp
  also have "\<dots> = (map (\<lambda>(h, body). frame_of h body) fs, [], None)"
    unfolding assms(3) by (simp add: drain_spec_def scan_frames [OF assms(1)] dl spec_view_def)
  finally show ?thesis
    by (cases "drain_chunks ?on can_alloc [] [] m cs") (auto simp: drain_view_def split: if_splits)
qed

theorem frames_delivered_exactly_witness:
  "drain_chunks (\<lambda>seen f. (seen @ [f], True)) (\<lambda>_. True) [] [] 100 [[1, 1], [0, 1, 7, 1, 0], [0, 0]] =
    ([frame_of (initData flags_last 1) [7], frame_of (initData flags_none 0) []], [], None)"
proof -
  let ?fs = "[(initData flags_last 1, [7]), (initData flags_none 0, [])]"
  have "\<forall>(h, body) \<in> set ?fs. frame_ok 100 h body"
    by (simp add: frame_ok_def frameSize_def headerSize_def frame_sizes)
  moreover have "concat [[1, 1], [0, 1, 7, 1, 0], [0, 0]] = concat (map (\<lambda>(h, body). header_bytes h @ body) ?fs)"
    by (simp add: header_bytes_def be_enc_2 flags_byte_def flags_last_def flags_none_def)
  ultimately have "drain_chunks (\<lambda>seen f. (seen @ [f], True)) (\<lambda>_. True) [] [] 100 [[1, 1], [0, 1, 7, 1, 0], [0, 0]] =
    (map (\<lambda>(h, body). frame_of h body) ?fs, [], None)"
    by (intro frames_delivered_exactly) simp_all
  then show ?thesis by simp
qed

end
