(* ===== verification/Spec2Isabelle.thy ===== *)
theory Spec2Isabelle
  imports App_Props Gate_Presence Gate_Reconnect Gate_Slow Gate_Mixed Gate_Protocol Gate_Long Gate_Small Gate_Negative Gate_Faults
    Gate_Props Gate_Runs Gate_Stream_Runs Gate_Slow_Run Web_Client_Types
    Negative_Upgrades Negative_Frames Gateway_To_Clients Web_Client_Props Smoke_Client
    Smoke_Connect Wss_Handshake Wss_Connection Output_Queue Framing Envelope Web_Client_Wire Ws_Framing Byte_Ring
begin

text \<open>
  The WSS path of the Lyune gateway: from a browser page or a Node client, over a WebSocket, to the
  Worker of the gateway.

  \<^bold>\<open>The program.\<close> A client opens one WebSocket (\<open>wss://\<close>) to the gateway and multiplexes logical streams
  over it. Every binary message is one \<^emph>\<open>record\<close> (a 20-byte envelope and its payload) that carries
  stream bytes, a RESET, a STOP or a datagram. The bytes of one stream are Lyune \<^emph>\<open>frames\<close> (an 8-byte
  header and a payload). The gateway takes the client's Upgrade request, parses its WebSocket frames,
  decodes the records and hands them as events to a Worker, which answers through transport
  operations; those queue records, which the driver sends. The browser session and the Node client do
  the same from the other side, and the page is the user of the browser session.

  \<^bold>\<open>Theories, from the wire up.\<close>

  \<^item> \<open>Gw_Prelude\<close>: bytes, big-endian integers, \<open>blit\<close>, the shared collections of simplification rules.
  \<^item> \<open>Wire_Interfaces\<close>: the two contracts of the wire formats, as locales: a record codec
    (\<open>wire_codec\<close>) and an incremental stream parser (\<open>incremental_parser\<close>). The codecs and parsers of
    the gateway and of both clients interpret them, and share their facts: exactness, and that
    draining does not depend on how the input is cut.
  \<^item> \<open>Lyune_Frame\<close>, \<open>Frame_Codec\<close>, \<open>Framing\<close> (\<open>src/protocol/frame.zig\<close>, \<open>codec.zig\<close>, \<open>framing.zig\<close>): the
    frame header, the encoder and scanner, and \<open>drainFrames\<close> with its spill buffer and allocation
    failures. A frame may arrive in any pieces and is handed on whole; \<open>drainFrames\<close> refines a scan of
    the concatenated input.
  \<^item> \<open>Envelope\<close> (\<open>src/wss/envelope.zig\<close>): the record codec; it is exact (this theory's property).
  \<^item> \<open>Ws_Framing\<close> (\<open>src/wss/websocket.zig\<close>): client frames, server headers, message assembly.
  \<^item> \<open>Byte_Ring\<close>, \<open>Output_Queue\<close> (\<open>src/wss/output_queue.zig\<close>): the two rings of the output queue and
    their refinement of a FIFO of records: no byte is lost, changed or reordered.
  \<^item> \<open>Wss_Connection\<close> (\<open>src/wss/listener.zig\<close>, with the parts of \<open>session/transport.zig\<close> and
    \<open>session/binding.zig\<close> it calls): the connection after its Upgrade, its invariant, the validity of
    what the Worker sees, the stream-id marks, the close path.
  \<^item> \<open>Wss_Upgrade\<close>, \<open>Wss_Handshake\<close>: the HTTP Upgrade, the origin policy, the check of Host against
    SNI, the 101 response and the branch of \<open>processPlain\<close> that runs them.
  \<^item> \<open>Web_Client_Wire\<close>, \<open>Web_Client_Session\<close>, \<open>Web_Client_Props\<close>
    (\<open>validation/web-client/src/wss_session.ts\<close>): the wire functions and the class \<open>WssImSession\<close>, its
    runs (\<open>session_step\<close>), their invariant and what follows of it.
  \<^item> \<open>App_State\<close>, \<open>App_Handlers\<close>, \<open>App_Runs\<close>, \<open>App_Props\<close> (\<open>validation/web-client/src/App.tsx\<close>): the
    page's hooks and refs, its handlers cut at their \<open>await\<close>s, its runs and their safety. A callback of the
    session closes over the render whose effect registered it; the record \<open>listener\<close> is what it has kept, so a push
    between a change of the open group and the next run of the effect is a run of the model.
  \<^item> \<open>Smoke_Wire\<close>, \<open>Smoke_Client\<close>, \<open>Smoke_Connect\<close> (\<open>validation/wss-smoke.mjs\<close>): the wire functions of
    the Node client, the class \<open>WssValidationClient\<close>, its \<open>connect\<close> and \<open>waitForClose\<close>.
  \<^item> \<open>Node_To_Gateway\<close>, \<open>Gateway_To_Clients\<close>: the composition. What the Node client writes reaches
    the Worker as one event; what the gateway queues is read back by both clients.
  \<^item> \<open>Web_Client_Types\<close>: the types of what the browser session keeps and hands out, in every run.
  \<^item> \<open>Negative_Upgrades\<close>, \<open>Negative_Frames\<close> (\<open>validation/wss-negative.mjs\<close>): the bad Upgrade requests
    and malformed inputs of the negative gate, run against the model of the gateway.

  \<^bold>\<open>The validation scripts.\<close> The files \<open>validation/wss-*.mjs\<close> are programs of their own: each drives
  clients through a scenario, throws when an answer is not what it should be, prints a report and closes
  its clients in a \<open>finally\<close>.

  \<^item> \<open>Script\<close>: a script as a tree of questions to the world (start a call, await promises, the time, a
    timer, processes, logs), with exceptions, \<open>catch\<close> and \<open>finally\<close>; \<open>play\<close> runs it along a list of
    questions and answers, \<open>runs\<close> says that it returned. JavaScript's values and the reading of fields.
  \<^item> \<open>Script_Polling\<close>: the clock of a run and the loops with a deadline; under the law that a timer of
    \<open>d\<close> milliseconds takes at least \<open>d - 1\<close> they end (\<open>ends\<close>), by a locale of polling loops.
  \<^item> \<open>Script_Invariants\<close>, \<open>Script_Reports\<close>: relations that every step of a script keeps (locale
    \<open>run_relation\<close>), and the locale \<open>gate\<close>: a body that reports last and a finalizer that closes clients.
    Each gate interprets it.
  \<^item> \<open>Script_Calls\<close>, \<open>Script_Messages\<close>, \<open>Script_Streams\<close>, \<open>Gate_Agent\<close>: the calls the gates share
    (authentication, commands, frames, the Raw agent) and what their answers show.
  \<^item> \<open>Gate_Presence\<close>, \<open>Gate_Reconnect\<close>, \<open>Gate_Slow\<close>, \<open>Gate_Mixed\<close>, \<open>Gate_Protocol\<close>, \<open>Gate_Long\<close>,
    \<open>Gate_Small\<close> (capacity and smoke), \<open>Gate_Negative\<close>, \<open>Gate_Faults\<close>: one script each, with a theorem
    that says what a successful run has shown, read off the questions and answers alone.
  \<^item> \<open>Script_Rejections\<close>: the moments in which a promise may reject that nobody waits for, which ends a Node
    process; rules by which a script is shown to have none.
  \<^item> \<open>Gate_Props\<close>: what holds of the gates together. Their polling loops end; every run that ends by the script's
    own return or error has closed its clients and reported only success; four gates cannot be cut off by a
    rejection.
  \<^item> \<open>Script_Environment\<close>, \<open>Gate_Runs\<close>, \<open>Gate_Stream_Runs\<close>, \<open>Gate_Slow_Run\<close>: small worlds that answer
    the questions, and the successful runs of the gates in them.

  \<^bold>\<open>How code is rendered.\<close> A struct, a class or the hooks of the page are a record, and a method is a
  function from the record to the record; what it does to the outside (bytes sent, timers, settled
  promises) is a list of effects it returns. A Zig error or a thrown \<open>Error\<close> is an \<open>Inl\<close>; a failed
  assertion or arithmetic overflow of Zig is \<open>None\<close>, except the assertion in \<open>enqueuePieces\<close>, which every caller
  has tested (\<open>Output_Queue\<close>). Zig integers keep their width where it matters
  and bytes are 8-bit words. A JavaScript number that holds a length is a \<open>nat\<close>, reduced where a store
  into a typed array reduces it, and a \<open>bigint\<close> stream id is a \<open>nat\<close>, checked where the code checks
  it. An asynchronous function is cut at its \<open>await\<close>s, and the runs of an object are the
  interleavings of the pieces.

  \<^bold>\<open>Parameters.\<close> The Worker (for an event and the state it sees, the transport operations it calls);
  \<open>digest\<close> (SHA-1, then base64); \<open>utf8\<close>, \<open>json\<close> and \<open>stringify\<close> (\<open>TextDecoder\<close>, \<open>JSON.parse\<close>,
  \<open>JSON.stringify\<close>); the masks of client frames and the random keys; the outcomes of allocations; what
  the back end answers to the page (\<open>reply_ok\<close>) and which registered listener a push may meet (\<open>push_ok\<close>). Nothing is assumed of them beyond the hypotheses a
  theorem names.

  \<^bold>\<open>Bounds.\<close> The loops of the model end by construction: those over a buffer by its length, the
  connection's turns and the drain of the output queue by a measure on what is left, so no result
  there depends on fuel. Only the polling loops of the scripts have fuel, and it is enough: a round of
  the sessions loop takes 49 ms at least and its deadline is 5000 ms (\<open>sessions_fuel\<close>, 104), a round of
  \<open>waitForMarker\<close> takes 24 ms of 15000 and one of \<open>retry\<close> 99 ms of at most 20000 (\<open>faults_fuel\<close>, 626).
  \<open>waitRawPush\<close> has no pause; if the clock moves by a millisecond from round to round, 8001 rounds are enough for
  its 8000 ms (\<open>rawpush_fuel\<close>).
  Sizes are those of the code: 16384 bytes of payload in a record, 8192 in a request
  head, and the limits of a connection are the fields of its record.

  \<^bold>\<open>Not modelled.\<close> TLS and the socket callbacks of the event loop (input is the plain bytes, output
  is the queue); the accept loop; SHA-1, base64 and the random generators; rendering and the DOM of
  the page, and its removal (the effect that runs on unmount); its bootstrap and build configuration; the start of the fault gate (the check of its
  binaries and of the configuration, the command lines of the processes); the encoder's codes that no
  modelled code writes; the codecs of request bodies and datagrams; the rest of the gateway (Workers,
  QUIC, back ends, membership, placement), which the WSS path meets only through the Worker's
  interface. In the scripts, calls of a client are atomic questions: how the client carries them out is
  the model of \<open>Smoke_Client\<close> and \<open>Smoke_Connect\<close>, and the two are not joined. Ends of a script that are not
  its own (an unhandled rejection, an exception in a listener of a socket) have no outcome in the model. The reused
  stream of the negative gate is checked by the script but is not among the inputs run against the gateway.
\<close>

text \<open>C5: The gateway's stream-record codec is exact: decoding inverts encoding and every accepted payload
  is the encoding of the record it was read as.\<close>

theorem envelope_codec_exact:
  "env_decode bs = Inr r \<longleftrightarrow> env_encode max_record_size r = Inr bs"
  by (rule envelope_codec.accepts_iff)

end
